(* ===== verification/Vb_Prelude.thy ===== *)
theory Vb_Prelude
  imports Main "HOL-Library.Word"
begin

text \<open>
  Shared vocabulary of the development.

  JavaScript text. A string is the list of its UTF-16 code units, and the model holds the
  strings all of whose code units are below 256 (\<^typ>\<open>string\<close>, one \<^typ>\<open>char\<close> per code
  unit). The functions below are the operations of the standard library that the modelled
  code calls on strings (\<open>split\<close>, \<open>join\<close>, \<open>trim\<close>, \<open>indexOf\<close>, \<open>parseInt\<close>), in that range.

  Results. A thrown error is the left side of a sum, a returned value its right side.

  Interfaces. \<open>step_system\<close> is the contract between a component with state and the lemmas on
  whole runs of it; \<open>framing\<close> is the contract between the sender and the receiver of a stream of
  frames; \<open>char_escaper\<close> is the contract of an output encoder that works one character at a time. Each component interprets them on its own definitions.
\<close>

named_theorems js_text \<open>how the string operations of the standard library compute\<close>
named_theorems step_inv \<open>an operation keeps the invariant of its component\<close>

section \<open>Results\<close>

definition bind_r :: "'e + 'a \<Rightarrow> ('a \<Rightarrow> 'e + 'b) \<Rightarrow> 'e + 'b" where
  "bind_r r k = (case r of Inl e \<Rightarrow> Inl e | Inr a \<Rightarrow> k a)"

lemma bind_r_simps [simp]:
  "bind_r (Inl e) k = Inl e"
  "bind_r (Inr a) k = k a"
  by (simp_all add: bind_r_def)

lemma bind_r_Inr_conv: "bind_r r k = Inr b \<longleftrightarrow> (\<exists>a. r = Inr a \<and> k a = Inr b)"
  by (cases r) auto

lemma bind_r_Inl_conv: "bind_r r k = Inl e \<longleftrightarrow> r = Inl e \<or> (\<exists>a. r = Inr a \<and> k a = Inl e)"
  by (cases r) auto

text \<open>Mapping a function that may throw over a list: the first throw wins.\<close>

fun map_r :: "('a \<Rightarrow> 'e + 'b) \<Rightarrow> 'a list \<Rightarrow> 'e + 'b list" where
  "map_r f [] = Inr []"
| "map_r f (x # xs) = bind_r (f x) (\<lambda>y. bind_r (map_r f xs) (\<lambda>ys. Inr (y # ys)))"

lemma map_r_Inr_conv: "map_r f xs = Inr ys \<longleftrightarrow> list_all2 (\<lambda>x y. f x = Inr y) xs ys"
  by (induction xs arbitrary: ys) (auto simp: bind_r_Inr_conv list_all2_Cons1)

lemma map_r_length: "map_r f xs = Inr ys \<Longrightarrow> length ys = length xs"
  by (simp add: map_r_Inr_conv list_all2_lengthD)

lemma map_r_total: "(\<And>x. f x = Inr (g x)) \<Longrightarrow> map_r f xs = Inr (map g xs)"
  by (induction xs) auto

section \<open>Tables\<close>

text \<open>A row is the only one with its key.\<close>

lemma distinct_key_others:
  assumes "distinct (map key (xs @ r # ys))"
  shows "\<forall>q\<in>set xs. key q \<noteq> key r" and "\<forall>q\<in>set ys. key q \<noteq> key r"
  using assms by (simp_all, (metis image_eqI)+)

lemma distinct_key_same:
  "distinct (map key rows) \<Longrightarrow> q \<in> set rows \<Longrightarrow> r \<in> set rows \<Longrightarrow> key q = key r \<Longrightarrow> q = r"
  by (metis distinct_map inj_onD)

section \<open>Code units\<close>

abbreviation code_unit :: "char \<Rightarrow> nat" where
  "code_unit c \<equiv> of_char c"

definition is_digit :: "char \<Rightarrow> bool" where
  "is_digit c \<longleftrightarrow> 48 \<le> code_unit c \<and> code_unit c \<le> 57"

definition digit_val :: "char \<Rightarrow> nat" where
  "digit_val c = code_unit c - 48"

definition digit_char :: "nat \<Rightarrow> char" where
  "digit_char n = char_of (48 + n)"

text \<open>White space of \<open>trim\<close> and \<open>\s\<close>, among the code units below 256.\<close>

definition js_ws :: "char \<Rightarrow> bool" where
  "js_ws c \<longleftrightarrow> code_unit c \<in> {9, 10, 11, 12, 13, 32, 160}"

lemma code_unit_digit_char: "n < 10 \<Longrightarrow> code_unit (digit_char n) = 48 + n"
  by (simp add: digit_char_def of_char_of)

lemma is_digit_digit_char [simp]: "n < 10 \<Longrightarrow> is_digit (digit_char n)"
  by (simp add: is_digit_def code_unit_digit_char)

lemma digit_val_digit_char [simp]: "n < 10 \<Longrightarrow> digit_val (digit_char n) = n"
  by (simp add: digit_val_def code_unit_digit_char)

lemma digit_not_ws: "is_digit c \<Longrightarrow> \<not> js_ws c"
  by (auto simp: is_digit_def js_ws_def)

lemma digit_char_not_ws [simp]: "n < 10 \<Longrightarrow> \<not> js_ws (digit_char n)"
  by (simp add: digit_not_ws)

text \<open>\<open>toLowerCase\<close> below 256: A-Z and the Latin-1 capitals.\<close>

definition lower_char :: "char \<Rightarrow> char" where
  "lower_char c = (let n = code_unit c in
     if 65 \<le> n \<and> n \<le> 90 \<or> 192 \<le> n \<and> n \<le> 222 \<and> n \<noteq> 215 then char_of (n + 32) else c)"

definition js_lower :: "string \<Rightarrow> string" where
  "js_lower s = map lower_char s"

text \<open>\<open>toUpperCase\<close>; the two of Latin-1 whose upper case lies outside it (the micro sign and y with diaeresis) stay as
  they are, neither form is a letter of a code.\<close>

definition upper_text :: "char \<Rightarrow> string" where
  "upper_text c =
     (let n = code_unit c in
      if 97 \<le> n \<and> n \<le> 122 \<or> 224 \<le> n \<and> n \<le> 254 \<and> n \<noteq> 247 then [char_of (n - 32)]
      else if n = 223 then ''SS'' else [c])"

definition js_upper :: "string \<Rightarrow> string" where
  "js_upper s = concat (map upper_text s)"

section \<open>Operations on strings\<close>

fun index_of :: "char \<Rightarrow> string \<Rightarrow> nat option" where
  "index_of c [] = None"
| "index_of c (x # xs) = (if x = c then Some 0 else map_option Suc (index_of c xs))"

lemma index_of_None: "index_of c s = None \<longleftrightarrow> c \<notin> set s"
  by (induction s) auto

lemma index_of_Some:
  "index_of c s = Some i \<longleftrightarrow> i < length s \<and> s ! i = c \<and> c \<notin> set (take i s)"
proof (induction s arbitrary: i)
  case Nil
  then show ?case by simp
next
  case (Cons x xs)
  show ?case by (cases i) (auto simp: Cons.IH)
qed

text \<open>\<open>s.split(c)\<close> for a one-character separator, and \<open>xs.join(c)\<close>.\<close>

fun js_split :: "char \<Rightarrow> string \<Rightarrow> string list" where
  "js_split c [] = [[]]"
| "js_split c (x # xs) =
     (if x = c then [] # js_split c xs
      else (case js_split c xs of [] \<Rightarrow> [[x]] | p # ps \<Rightarrow> (x # p) # ps))"

fun js_join :: "string \<Rightarrow> string list \<Rightarrow> string" where
  "js_join sep [] = []"
| "js_join sep [p] = p"
| "js_join sep (p # q # ps) = p @ sep @ js_join sep (q # ps)"

lemma js_split_nonempty [simp]: "js_split c s \<noteq> []"
  by (induction s) (auto split: list.splits)

lemma js_join_Cons: "ps \<noteq> [] \<Longrightarrow> js_join sep (p # ps) = p @ sep @ js_join sep ps"
  by (cases ps) auto

lemma js_join_split: "js_join [c] (js_split c s) = s"
proof (induction s)
  case Nil
  show ?case by simp
next
  case (Cons x xs)
  obtain p ps where sp: "js_split c xs = p # ps"
    by (cases "js_split c xs") auto
  show ?case
  proof (cases "x = c")
    case True
    with Cons show ?thesis by (simp add: js_join_Cons)
  next
    case False
    with Cons sp show ?thesis by (cases ps) auto
  qed
qed

lemma js_split_no_sep: "p \<in> set (js_split c s) \<Longrightarrow> c \<notin> set p"
proof (induction s arbitrary: p)
  case Nil
  then show ?case by simp
next
  case (Cons x xs)
  then show ?case by (cases "js_split c xs") (auto split: if_splits)
qed

lemma js_split_fresh: "c \<notin> set s \<Longrightarrow> js_split c s = [s]"
  by (induction s) auto

lemma js_split_append: "c \<notin> set p \<Longrightarrow> js_split c (p @ c # s) = p # js_split c s"
  by (induction p) auto

text \<open>\<open>split\<close> undoes \<open>join\<close> when no part holds the separator.\<close>

lemma js_split_join:
  assumes "ps \<noteq> []" and "\<And>p. p \<in> set ps \<Longrightarrow> c \<notin> set p"
  shows "js_split c (js_join [c] ps) = ps"
  using assms
proof (induction "[c]" ps rule: js_join.induct)
  case 1
  then show ?case by simp
next
  case (2 p)
  then show ?case by (simp add: js_split_fresh)
next
  case (3 p q ps)
  then have "js_split c (js_join [c] (q # ps)) = q # ps"
    by (metis list.distinct(1) list.set_intros(2))
  with 3 show ?case by (simp add: js_split_append)
qed

definition js_trim :: "string \<Rightarrow> string" where
  "js_trim s = rev (dropWhile js_ws (rev (dropWhile js_ws s)))"

lemma dropWhile_ws_id: "\<not> js_ws (hd s) \<Longrightarrow> dropWhile js_ws s = s"
  by (cases s) auto

lemma js_trim_id: "\<not> js_ws (hd s) \<Longrightarrow> \<not> js_ws (last s) \<Longrightarrow> js_trim s = s"
  by (cases "s = []") (simp_all add: js_trim_def dropWhile_ws_id hd_rev)

definition starts_with :: "string \<Rightarrow> string \<Rightarrow> bool" where
  "starts_with p s \<longleftrightarrow> take (length p) s = p"

definition ends_with :: "string \<Rightarrow> string \<Rightarrow> bool" where
  "ends_with p s \<longleftrightarrow> length p \<le> length s \<and> drop (length s - length p) s = p"

lemma starts_with_iff: "starts_with p s \<longleftrightarrow> (\<exists>r. s = p @ r)"
  by (metis append_eq_conv_conj append_take_drop_id starts_with_def)

section \<open>Decimal text\<close>

fun digits_val_acc :: "nat \<Rightarrow> string \<Rightarrow> nat" where
  "digits_val_acc a [] = a"
| "digits_val_acc a (c # cs) = digits_val_acc (a * 10 + digit_val c) cs"

definition digits_val :: "string \<Rightarrow> nat" where
  "digits_val s = digits_val_acc 0 s"

lemma digits_val_acc_append: "digits_val_acc a (s @ t) = digits_val_acc (digits_val_acc a s) t"
  by (induction s arbitrary: a) auto

lemma digits_val_snoc: "digits_val (s @ [c]) = digits_val s * 10 + digit_val c"
  by (simp add: digits_val_def digits_val_acc_append)

lemma digits_val_Nil [simp]: "digits_val [] = 0"
  by (simp add: digits_val_def)

lemma digits_val_leading: "digits_val (replicate k (CHR ''0'') @ s) = digits_val s"
  by (induction k) (simp_all add: digits_val_def digit_val_def)

fun show_nat :: "nat \<Rightarrow> string" where
  "show_nat n = (if n < 10 then [digit_char n] else show_nat (n div 10) @ [digit_char (n mod 10)])"

declare show_nat.simps [simp del]

lemma show_nat_digits: "list_all is_digit (show_nat n)"
proof (induction n rule: show_nat.induct)
  case (1 n)
  then show ?case by (subst show_nat.simps) auto
qed

lemma show_nat_nonempty [simp]: "show_nat n \<noteq> []"
  by (subst show_nat.simps) simp

lemma digits_val_show_nat [simp]: "digits_val (show_nat n) = n"
proof (induction n rule: show_nat.induct)
  case (1 n)
  show ?case
  proof (cases "n < 10")
    case True
    then show ?thesis by (subst show_nat.simps) (simp add: digits_val_def)
  next
    case False
    with 1 have "digits_val (show_nat (n div 10)) = n div 10" by simp
    with False show ?thesis by (subst show_nat.simps) (simp add: digits_val_snoc)
  qed
qed

lemma show_nat_inj: "show_nat m = show_nat n \<Longrightarrow> m = n"
  by (metis digits_val_show_nat)

lemma show_nat_hd_last_digit: "is_digit (hd (show_nat n))" "is_digit (last (show_nat n))"
  using show_nat_digits [of n] show_nat_nonempty [of n]
  by (auto simp: list_all_iff)

text \<open>\<open>parseInt(s, 10)\<close>: leading white space, a sign, then the longest run of digits; \<open>None\<close> is
  NaN.\<close>

definition parse_int10 :: "string \<Rightarrow> int option" where
  "parse_int10 s =
     (let t = dropWhile js_ws s;
          neg = (t \<noteq> [] \<and> hd t = CHR ''-'');
          u = (if t \<noteq> [] \<and> (hd t = CHR ''-'' \<or> hd t = CHR ''+'') then tl t else t);
          ds = takeWhile is_digit u
      in if ds = [] then None
         else Some (if neg then - int (digits_val ds) else int (digits_val ds)))"

lemma digit_not_sign: "is_digit c \<Longrightarrow> c \<noteq> CHR ''-'' \<and> c \<noteq> CHR ''+'' \<and> c \<noteq> CHR ''.''"
  by (auto simp: is_digit_def)

lemma takeWhile_digits: "list_all is_digit s \<Longrightarrow> takeWhile is_digit s = s"
  by (induction s) auto

lemma parse_int10_digits:
  assumes "s \<noteq> []" and "list_all is_digit s"
  shows "parse_int10 s = Some (int (digits_val s))"
proof -
  obtain c cs where s: "s = c # cs" using assms(1) by (cases s) auto
  with assms(2) have "is_digit c" by simp
  then show ?thesis
    using assms s digit_not_ws digit_not_sign
    by (auto simp: parse_int10_def takeWhile_digits)
qed

lemma parse_int10_show_nat [simp]: "parse_int10 (show_nat n) = Some (int n)"
  by (simp add: parse_int10_digits show_nat_digits)

section \<open>Searching and hexadecimal text\<close>

text \<open>\<open>s.indexOf(p)\<close>, and the text after the first occurrence of \<open>p\<close> (empty without one).\<close>

fun index_str :: "string \<Rightarrow> string \<Rightarrow> nat option" where
  "index_str p [] = (if p = [] then Some 0 else None)"
| "index_str p (c # s) =
     (if starts_with p (c # s) then Some 0 else map_option Suc (index_str p s))"

definition before_str :: "string \<Rightarrow> string \<Rightarrow> string" where
  "before_str p s = (case index_str p s of None \<Rightarrow> s | Some i \<Rightarrow> take i s)"

definition after_str :: "string \<Rightarrow> string \<Rightarrow> string" where
  "after_str p s = (case index_str p s of None \<Rightarrow> [] | Some i \<Rightarrow> drop (i + length p) s)"

lemma length_after_str: "length (after_str p s) \<le> length s"
  by (simp add: after_str_def split: option.splits)

lemma index_str_le: "index_str p s = Some i \<Longrightarrow> i \<le> length s"
  by (induction p s arbitrary: i rule: index_str.induct) (auto split: if_splits)

lemma length_before_after: "length (before_str p s) + length (after_str p s) \<le> length s"
  by (auto simp: before_str_def after_str_def dest: index_str_le split: option.splits)

definition is_hex :: "char \<Rightarrow> bool" where
  "is_hex c \<longleftrightarrow> is_digit c \<or> 65 \<le> code_unit c \<and> code_unit c \<le> 70 \<or> 97 \<le> code_unit c \<and> code_unit c \<le> 102"

definition hex_val :: "char \<Rightarrow> nat" where
  "hex_val c = (let n = code_unit c in if is_digit c then n - 48 else if n < 97 then n - 55 else n - 87)"

definition is_letter :: "char \<Rightarrow> bool" where
  "is_letter c \<longleftrightarrow> 65 \<le> code_unit c \<and> code_unit c \<le> 90 \<or> 97 \<le> code_unit c \<and> code_unit c \<le> 122"

definition hex_digits_val :: "string \<Rightarrow> nat" where
  "hex_digits_val s = foldl (\<lambda>a c. a * 16 + hex_val c) 0 s"

section \<open>Interfaces\<close>

text \<open>A component whose operations are the steps \<open>step s e\<close>, and an invariant each step keeps: the
  invariant holds after every run.\<close>

locale step_system =
  fixes step :: "'s \<Rightarrow> 'e \<Rightarrow> 's"
    and inv :: "'s \<Rightarrow> bool"
  assumes step_keeps: "inv s \<Longrightarrow> inv (step s e)"
begin

lemma run_keeps: "inv s \<Longrightarrow> inv (foldl step s es)"
  by (induction es arbitrary: s) (auto intro: step_keeps)

lemma run_prefix_keeps: "inv s \<Longrightarrow> inv (foldl step s (take n es))"
  by (rule run_keeps)

end

text \<open>A stream of frames: \<open>dec\<close> reads one frame off the front of what \<open>enc\<close> wrote, whatever follows,
  and the receiver \<open>loop\<close> reads frames for as long as there are any. What was sent is received, in
  order, and the receiver goes on with what follows.\<close>

locale framing =
  fixes enc :: "'a \<Rightarrow> 'b list"
    and dec :: "'b list \<Rightarrow> ('a \<times> 'b list) option"
    and ok :: "'a \<Rightarrow> bool"
    and loop :: "'b list \<Rightarrow> 'a list"
  assumes dec_enc: "ok x \<Longrightarrow> dec (enc x @ r) = Some (x, r)"
    and loop_step: "loop s = (case dec s of None \<Rightarrow> [] | Some (x, r) \<Rightarrow> x # loop r)"
    and dec_nothing: "dec [] = None"
begin

lemma loop_frames: "list_all ok xs \<Longrightarrow> loop (concat (map enc xs) @ r) = xs @ loop r"
proof (induction xs)
  case (Cons x xs)
  then show ?case using dec_enc [of x "concat (map enc xs) @ r"] by (subst loop_step) simp
qed simp

lemma loop_received: "list_all ok xs \<Longrightarrow> loop (concat (map enc xs)) = xs"
  using loop_frames [of xs "[]"] by (simp add: loop_step [of "[]"] dec_nothing)

end

text \<open>An output encoder that replaces each character by \<open>esc c\<close>: no output character is in
  \<open>forbidden\<close>, and the replacements can be told apart.\<close>

locale char_escaper =
  fixes esc :: "char \<Rightarrow> string"
    and forbidden :: "char set"
  assumes esc_safe: "c \<in> set (esc d) \<Longrightarrow> c \<notin> forbidden"
    and esc_prefix: "esc c @ r = esc d @ r' \<Longrightarrow> c = d \<and> r = r'"
    and esc_nonempty: "esc c \<noteq> []"
begin

lemma concat_safe: "c \<in> set (concat (map esc s)) \<Longrightarrow> c \<notin> forbidden"
  by (auto dest: esc_safe)

lemma concat_inj: "concat (map esc s) = concat (map esc t) \<Longrightarrow> s = t"
proof (induction s arbitrary: t)
  case Nil
  then show ?case by (cases t) (auto simp: esc_nonempty)
next
  case (Cons c s)
  then show ?case
    by (cases t) (auto simp: esc_nonempty dest: esc_prefix)
qed

lemma length_grows: "length s \<le> length (concat (map esc s))"
proof (induction s)
  case Nil
  show ?case by simp
next
  case (Cons c s)
  have "1 \<le> length (esc c)" using esc_nonempty [of c] by (cases "esc c") auto
  with Cons show ?case by simp
qed

end

end
