(* ===== verification/Money.thy ===== *)
theory Money
  imports Vb_Prelude "HOL-Library.Signed_Division"
begin

text \<open>
  Money arithmetic in integer centavos: \<open>src/utils/money.js\<close>.

  A JavaScript Number is represented by its shortest decimal text, which is how \<open>parseDecimal\<close>
  reads it (\<open>String(value)\<close>); \<open>from_cents c\<close> is that text for \<open>Number(c) / 100\<close>. It is the text
  JavaScript prints for every \<open>|c| < 10 ^ 15\<close>, the amounts a \<open>DECIMAL(12,2)\<close> column holds.
  BigInt arithmetic is \<^typ>\<open>int\<close>, and BigInt division truncates (\<open>sdiv\<close>, \<open>smod\<close>).

  The lemmas show that an amount survives printing and reading, that rounding is half away from
  zero and at most half a cent off, and that \<open>allocate\<close> hands out every cent of a total that is
  not negative.
\<close>

section \<open>Reading a decimal\<close>

datatype js_amount = JBig int | JText string | JNullish

datatype money_error = NotADecimal string | DivisionByZero

record decimal =
  d_int :: int
  d_scale :: nat

record decimal_match =
  m_neg :: bool
  m_whole :: string
  m_frac :: "string option"
  m_exp :: "int option"

fun scan_sign :: "string \<Rightarrow> bool \<times> string" where
  "scan_sign [] = (False, [])"
| "scan_sign (c # cs) =
     (if c = CHR ''-'' then (True, cs) else if c = CHR ''+'' then (False, cs) else (False, c # cs))"

text \<open>The regular expression \<open>/^([+-])?(\d*)(?:\.(\d*))?(?:e([+-]?\d+))?$/i\<close>.\<close>

definition match_decimal :: "string \<Rightarrow> decimal_match option" where
  "match_decimal s =
     (let (neg, r0) = scan_sign s;
          whole = takeWhile is_digit r0;
          r1 = dropWhile is_digit r0;
          (frac, r2) = (case r1 of
              [] \<Rightarrow> (None, [])
            | c # t \<Rightarrow> (if c = CHR ''.'' then (Some (takeWhile is_digit t), dropWhile is_digit t)
                        else (None, r1)))
      in case r2 of
           [] \<Rightarrow> Some \<lparr>m_neg = neg, m_whole = whole, m_frac = frac, m_exp = None\<rparr>
         | c # t \<Rightarrow>
             (if c = CHR ''e'' \<or> c = CHR ''E'' then
                (let (eneg, ds) = scan_sign t
                 in if ds \<noteq> [] \<and> list_all is_digit ds then
                      Some \<lparr>m_neg = neg, m_whole = whole, m_frac = frac,
                            m_exp = Some (if eneg then - int (digits_val ds) else int (digits_val ds))\<rparr>
                    else None)
              else None))"

definition amount_text :: "js_amount \<Rightarrow> string" where
  "amount_text v = (case v of JText t \<Rightarrow> js_trim t | _ \<Rightarrow> ''0'')"

definition parse_decimal :: "js_amount \<Rightarrow> money_error + decimal" where
  "parse_decimal v = (case v of
       JBig n \<Rightarrow> Inr \<lparr>d_int = n, d_scale = 0\<rparr>
     | _ \<Rightarrow>
       (let text = amount_text v
        in case match_decimal (if text = [] then ''0'' else text) of
             None \<Rightarrow> Inl (NotADecimal text)
           | Some m \<Rightarrow>
               (let frac = (case m_frac m of None \<Rightarrow> [] | Some f \<Rightarrow> f)
                in if m_whole m = [] \<and> frac = [] then Inl (NotADecimal text)
                   else
                     (let ds = m_whole m @ frac;
                          scale = int (length frac) - (case m_exp m of None \<Rightarrow> 0 | Some e \<Rightarrow> e);
                          digits = (if scale < 0 then ds @ replicate (nat (- scale)) (CHR ''0'') else ds);
                          n = int (digits_val digits)
                      in Inr \<lparr>d_int = (if m_neg m then - n else n),
                              d_scale = (if scale < 0 then 0 else nat scale)\<rparr>))))"

section \<open>Rounding and the arithmetic\<close>

definition pow10 :: "nat \<Rightarrow> int" where
  "pow10 n = 10 ^ n"

definition div_round :: "int \<Rightarrow> int \<Rightarrow> int" where
  "div_round numerator denominator =
     (let negative = ((numerator < 0) \<noteq> (denominator < 0));
          n = \<bar>numerator\<bar>;
          d = \<bar>denominator\<bar>;
          q = (2 * n + d) sdiv (2 * d)
      in if negative then - q else q)"

definition scale_to_cents :: "int \<Rightarrow> nat \<Rightarrow> int" where
  "scale_to_cents n scale =
     (if scale \<le> 2 then n * pow10 (2 - scale) else div_round n (pow10 (scale - 2)))"

definition cents :: "js_amount \<Rightarrow> money_error + int" where
  "cents v = bind_r (parse_decimal v) (\<lambda>p. Inr (scale_to_cents (d_int p) (d_scale p)))"

definition to_cents :: "js_amount \<Rightarrow> money_error + int" where
  "to_cents v = cents v"

text \<open>The text of \<open>Number(c) / 100\<close>.\<close>

definition cents_text :: "int \<Rightarrow> string" where
  "cents_text c =
     (let n = nat \<bar>c\<bar>; f = n mod 100
      in (if c < 0 then ''-'' else []) @ show_nat (n div 100) @
         (if f = 0 then []
          else if f mod 10 = 0 then CHR ''.'' # [digit_char (f div 10)]
          else CHR ''.'' # [digit_char (f div 10), digit_char (f mod 10)]))"

definition from_cents :: "int \<Rightarrow> js_amount" where
  "from_cents c = JText (cents_text c)"

definition money_round :: "js_amount \<Rightarrow> money_error + js_amount" where
  "money_round v = bind_r (cents v) (\<lambda>c. Inr (from_cents c))"

definition money_add :: "js_amount list \<Rightarrow> money_error + js_amount" where
  "money_add vs = bind_r (map_r cents vs) (\<lambda>cs. Inr (from_cents (sum_list cs)))"

definition money_sub :: "js_amount \<Rightarrow> js_amount \<Rightarrow> money_error + js_amount" where
  "money_sub a b = bind_r (cents a) (\<lambda>x. bind_r (cents b) (\<lambda>y. Inr (from_cents (x - y))))"

definition money_mul :: "js_amount \<Rightarrow> js_amount \<Rightarrow> money_error + js_amount" where
  "money_mul a b =
     bind_r (parse_decimal a) (\<lambda>x. bind_r (parse_decimal b) (\<lambda>y.
       Inr (from_cents (scale_to_cents (d_int x * d_int y) (d_scale x + d_scale y)))))"

definition money_div :: "js_amount \<Rightarrow> js_amount \<Rightarrow> money_error + js_amount" where
  "money_div a b =
     bind_r (parse_decimal a) (\<lambda>x. bind_r (parse_decimal b) (\<lambda>y.
       if d_int y = 0 then Inl DivisionByZero
       else Inr (from_cents (div_round (d_int x * pow10 (d_scale y + 2)) (d_int y * pow10 (d_scale x))))))"

definition within_tolerance :: "js_amount \<Rightarrow> js_amount \<Rightarrow> int \<Rightarrow> money_error + bool" where
  "within_tolerance a b tol =
     bind_r (cents a) (\<lambda>x. bind_r (cents b) (\<lambda>y. Inr (\<bar>x - y\<bar> \<le> tol)))"

definition money_equal :: "js_amount \<Rightarrow> js_amount \<Rightarrow> money_error + bool" where
  "money_equal a b = bind_r (cents a) (\<lambda>x. bind_r (cents b) (\<lambda>y. Inr (x = y)))"

section \<open>Largest-remainder allocation\<close>

text \<open>The shares left to hand out, ordered as the comparator of the source orders them: larger
  remainder first, then smaller index.\<close>

datatype share = Share (sh_index: nat) (sh_rem: int)

instantiation share :: linorder
begin

definition less_eq_share :: "share \<Rightarrow> share \<Rightarrow> bool" where
  "less_eq_share a b \<longleftrightarrow>
     sh_rem b < sh_rem a \<or> sh_rem a = sh_rem b \<and> sh_index a \<le> sh_index b"

definition less_share :: "share \<Rightarrow> share \<Rightarrow> bool" where
  "less_share a b \<longleftrightarrow>
     sh_rem b < sh_rem a \<or> sh_rem a = sh_rem b \<and> sh_index a < sh_index b"

instance
  by standard (auto simp: less_eq_share_def less_share_def share.expand)

end

fun hand_out :: "share list \<Rightarrow> int \<Rightarrow> int list \<Rightarrow> int list" where
  "hand_out [] left parts = parts"
| "hand_out (s # order) left parts =
     (if left \<le> 0 then parts
      else hand_out order (left - 1) (parts[sh_index s := parts ! sh_index s + 1]))"

definition allocate_cents :: "int \<Rightarrow> int list \<Rightarrow> int list" where
  "allocate_cents tot w =
     (let sum = sum_list w
      in if sum = 0 then map (\<lambda>_. 0) w
         else
           (let shares = map (\<lambda>x. tot * x) w;
                floors = map (\<lambda>s. s sdiv sum) shares;
                left = tot - sum_list floors;
                order = sort (map (\<lambda>(i, s). Share i (s smod sum)) (enumerate 0 shares))
            in hand_out order left floors))"

definition allocate :: "js_amount \<Rightarrow> js_amount list \<Rightarrow> money_error + js_amount list" where
  "allocate tot weights =
     bind_r (cents tot) (\<lambda>t. bind_r (map_r cents weights) (\<lambda>w.
       Inr (map from_cents (allocate_cents t w))))"


section \<open>Rounding: at most half a unit off, ties away from zero\<close>

lemma sdiv_nonneg: "0 \<le> (a::int) \<Longrightarrow> 0 < b \<Longrightarrow> a sdiv b = a div b"
  by (cases "a = 0") (simp_all add: signed_divide_int_def)

lemma smod_nonneg: "0 \<le> (a::int) \<Longrightarrow> 0 < b \<Longrightarrow> a smod b = a mod b"
  by (cases "a = 0") (simp_all add: signed_modulo_int_def)

definition half_up :: "int \<Rightarrow> int \<Rightarrow> int" where
  "half_up n d = (2 * n + d) div (2 * d)"

lemma div_round_sign:
  assumes "d \<noteq> 0"
  shows "div_round n d =
    (if (n < 0) \<noteq> (d < 0) then - half_up \<bar>n\<bar> \<bar>d\<bar> else half_up \<bar>n\<bar> \<bar>d\<bar>)"
proof -
  have "(2 * \<bar>n\<bar> + \<bar>d\<bar>) sdiv (2 * \<bar>d\<bar>) = half_up \<bar>n\<bar> \<bar>d\<bar>"
    using assms by (simp add: half_up_def sdiv_nonneg)
  then show ?thesis by (simp add: div_round_def Let_def)
qed

lemma half_up_bounds:
  fixes n d :: int
  assumes "0 \<le> n" and "0 < d"
  shows "2 * (n - half_up n d * d) < d" and "- d \<le> 2 * (n - half_up n d * d)"
    and "0 \<le> half_up n d"
proof -
  define q where "q = half_up n d"
  have "(2 * d) * q + (2 * n + d) mod (2 * d) = 2 * n + d"
    unfolding q_def half_up_def by simp
  moreover have "0 \<le> (2 * n + d) mod (2 * d)" and "(2 * n + d) mod (2 * d) < 2 * d"
    using assms(2) by simp_all
  ultimately show "2 * (n - half_up n d * d) < d" and "- d \<le> 2 * (n - half_up n d * d)"
    by (simp_all add: algebra_simps flip: q_def)
  show "0 \<le> half_up n d"
    using assms by (simp add: half_up_def pos_imp_zdiv_nonneg_iff)
qed

text \<open>\<open>divRound\<close> rounds to a nearest integer, and a tie goes away from zero: the quotient is at
  most half a unit from the exact one, and when it is exactly half a unit away its magnitude is
  the larger of the two candidates.\<close>

theorem div_round_nearest_away:
  assumes "d \<noteq> 0"
  shows "2 * \<bar>n - div_round n d * d\<bar> \<le> \<bar>d\<bar> \<and>
    (2 * \<bar>n - div_round n d * d\<bar> = \<bar>d\<bar> \<longrightarrow> \<bar>n\<bar> < \<bar>div_round n d * d\<bar>)"
proof -
  define q where "q = half_up \<bar>n\<bar> \<bar>d\<bar>"
  have b: "2 * (\<bar>n\<bar> - q * \<bar>d\<bar>) < \<bar>d\<bar>" "- \<bar>d\<bar> \<le> 2 * (\<bar>n\<bar> - q * \<bar>d\<bar>)" "0 \<le> q"
    using half_up_bounds [of "\<bar>n\<bar>" "\<bar>d\<bar>"] assms by (simp_all add: q_def)
  have "\<bar>n - div_round n d * d\<bar> = \<bar>\<bar>n\<bar> - q * \<bar>d\<bar>\<bar>"
    using assms by (cases "n < 0"; cases "d < 0") (auto simp: div_round_sign q_def abs_if algebra_simps)
  moreover have "\<bar>div_round n d * d\<bar> = q * \<bar>d\<bar>"
    using assms b(3) by (simp add: div_round_sign abs_mult flip: q_def)
  moreover have half: "2 * \<bar>x\<bar> \<le> D \<and> (2 * \<bar>x\<bar> = D \<longrightarrow> x < 0)"
    if "2 * x < D" "- D \<le> 2 * x" for x D :: int
    using that by (cases "x < 0") simp_all
  moreover from half [OF b(1,2)] have "2 * \<bar>\<bar>n\<bar> - q * \<bar>d\<bar>\<bar> \<le> \<bar>d\<bar> \<and>
      (2 * \<bar>\<bar>n\<bar> - q * \<bar>d\<bar>\<bar> = \<bar>d\<bar> \<longrightarrow> \<bar>n\<bar> - q * \<bar>d\<bar> < 0)" .
  ultimately show ?thesis by simp
qed


section \<open>Printing and reading an amount\<close>

lemma takeWhile_digits_append:
  "list_all is_digit s \<Longrightarrow> takeWhile is_digit (s @ r) = s @ takeWhile is_digit r"
  "list_all is_digit s \<Longrightarrow> dropWhile is_digit (s @ r) = dropWhile is_digit r"
  by (induction s) auto

lemma minus_not_ws: "\<not> js_ws (CHR ''-'')"
  by (simp add: js_ws_def)

lemma match_decimal_plain:
  assumes "w \<noteq> []" and "list_all is_digit w" and "list_all is_digit f"
  shows "match_decimal ((if neg then ''-'' else []) @ w @ (if f = [] then [] else CHR ''.'' # f)) =
    Some \<lparr>m_neg = neg, m_whole = w, m_frac = (if f = [] then None else Some f), m_exp = None\<rparr>"
proof -
  obtain c cs where w: "w = c # cs" using assms(1) by (cases w) auto
  have nd: "\<not> is_digit (CHR ''.'')" by (simp add: is_digit_def)
  have scan: "scan_sign ((if neg then ''-'' else []) @ w @ r) = (neg, w @ r)" for r
    using assms(2) digit_not_sign [of c] by (cases neg) (auto simp: w)
  have nil: "f \<noteq> [] \<Longrightarrow> dropWhile is_digit f = []"
    using assms(3) by (simp add: list_all_iff)
  show ?thesis
    using assms(2,3) nd nil
    by (simp add: match_decimal_def scan takeWhile_digits_append takeWhile_digits del: dropWhile_eq_Nil_conv)
qed

lemma parse_decimal_plain:
  assumes "w \<noteq> []" and "list_all is_digit w" and "list_all is_digit f"
  shows "parse_decimal (JText ((if neg then ''-'' else []) @ w @ (if f = [] then [] else CHR ''.'' # f))) =
    Inr \<lparr>d_int = (if neg then - int (digits_val (w @ f)) else int (digits_val (w @ f))),
         d_scale = length f\<rparr>"
proof -
  let ?t = "(if neg then ''-'' else []) @ w @ (if f = [] then [] else CHR ''.'' # f)"
  have "\<not> js_ws (hd ?t)"
    using assms(1,2) by (cases w) (auto simp: digit_not_ws minus_not_ws)
  moreover have "is_digit (last ?t)"
    using assms by (auto simp: list_all_iff)
  ultimately have tr: "js_trim ?t = ?t"
    by (intro js_trim_id) (simp_all add: digit_not_ws)
  have ne: "?t \<noteq> []" using assms(1) by simp
  show ?thesis
    using match_decimal_plain [OF assms, of neg] ne assms(1)
    by (simp add: parse_decimal_def amount_text_def tr)
qed

lemma cents_text_shape:
  fixes c :: int
  defines "n \<equiv> nat \<bar>c\<bar>"
  obtains f where "list_all is_digit f" and "length f \<le> 2"
    and "cents_text c =
      (if c < 0 then ''-'' else []) @ show_nat (n div 100) @ (if f = [] then [] else CHR ''.'' # f)"
    and "digits_val (show_nat (n div 100) @ f) * 10 ^ (2 - length f) = n"
proof -
  let ?m = "n mod 100"
  define f where "f = (if ?m = 0 then [] else if ?m mod 10 = 0 then [digit_char (?m div 10)]
      else [digit_char (?m div 10), digit_char (?m mod 10)])"
  have small: "?m div 10 < 10" "?m mod 10 < 10" by auto
  have two: "digits_val (s @ [a, b]) = digits_val s * 100 + digit_val a * 10 + digit_val b" for s a b
    using digits_val_snoc [of "s @ [a]" b] by (simp add: digits_val_snoc)
  have "n = 100 * (n div 100) + 10 * (?m div 10) + ?m mod 10" by simp
  then have "digits_val (show_nat (n div 100) @ f) * 10 ^ (2 - length f) = n"
    using small by (auto simp: f_def digits_val_snoc two)
  moreover have "list_all is_digit f" and "length f \<le> 2"
    using small by (simp_all add: f_def)
  moreover have "cents_text c =
      (if c < 0 then ''-'' else []) @ show_nat (n div 100) @ (if f = [] then [] else CHR ''.'' # f)"
    by (simp add: cents_text_def f_def n_def Let_def)
  ultimately show thesis using that by blast
qed

lemma cents_from_cents [simp]: "cents (from_cents c) = Inr c"
proof -
  define n where "n = nat \<bar>c\<bar>"
  obtain f where f: "list_all is_digit f" "length f \<le> 2"
    "cents_text c = (if c < 0 then ''-'' else []) @ show_nat (n div 100) @
       (if f = [] then [] else CHR ''.'' # f)"
    "digits_val (show_nat (n div 100) @ f) * 10 ^ (2 - length f) = n"
    using cents_text_shape [of c] unfolding n_def by blast
  have "parse_decimal (from_cents c) =
    Inr \<lparr>d_int = (if c < 0 then - int (digits_val (show_nat (n div 100) @ f))
                  else int (digits_val (show_nat (n div 100) @ f))), d_scale = length f\<rparr>"
    using parse_decimal_plain [OF show_nat_nonempty show_nat_digits f(1)]
    by (simp add: from_cents_def f(3))
  moreover have "int (digits_val (show_nat (n div 100) @ f)) * 10 ^ (2 - length f) = \<bar>c\<bar>"
    using arg_cong [OF f(4), of int] by (simp add: n_def)
  ultimately show ?thesis
    using f(2) by (cases "c < 0") (simp_all add: cents_def scale_to_cents_def pow10_def)
qed

text \<open>An amount of whole cents survives storage as a Number: reading back the decimal text of
  \<open>fromCents(c)\<close> gives the same cents, and \<open>round\<close>, \<open>add\<close> and \<open>sub\<close> are exact on such amounts.\<close>

theorem money_roundtrip:
  "cents (from_cents c) = Inr c \<and>
   money_round (from_cents c) = Inr (from_cents c) \<and>
   money_add (map from_cents cs) = Inr (from_cents (sum_list cs)) \<and>
   money_sub (from_cents c) (from_cents d) = Inr (from_cents (c - d))"
proof -
  have "map_r cents (map from_cents cs) = Inr cs"
    by (induction cs) simp_all
  then show ?thesis
    by (simp add: money_round_def money_add_def money_sub_def)
qed

section \<open>Allocation hands out exactly the total\<close>

lemma hand_out_length [simp]: "length (hand_out order left parts) = length parts"
  by (induction order left parts rule: hand_out.induct) auto

lemma sum_list_incr: "k < length xs \<Longrightarrow> sum_list (xs[k := xs ! k + 1]) = sum_list xs + (1::int)"
  by (induction xs arbitrary: k) (auto split: nat.splits)

lemma hand_out_sum:
  assumes "\<forall>s\<in>set order. sh_index s < length parts" and "0 \<le> left"
  shows "sum_list (hand_out order left parts) = sum_list parts + min left (int (length order))"
  using assms
proof (induction order left parts rule: hand_out.induct)
  case (2 s order left parts)
  show ?case
  proof (cases "left \<le> 0")
    case False
    with 2 have "sum_list (hand_out order (left - 1) (parts[sh_index s := parts ! sh_index s + 1])) =
        sum_list (parts[sh_index s := parts ! sh_index s + 1]) + min (left - 1) (int (length order))"
      by simp
    moreover have "sum_list (parts[sh_index s := parts ! sh_index s + 1]) = sum_list parts + 1"
      using 2(2) by (simp add: sum_list_incr)
    ultimately show ?thesis using False by simp
  qed (use 2 in simp)
qed simp

lemma hand_out_nth:
  assumes "distinct (map sh_index order)" and "i < length parts"
  shows "hand_out order left parts ! i =
    parts ! i + (if i \<in> sh_index ` set (take (nat left) order) then 1 else 0)"
  using assms
proof (induction order left parts rule: hand_out.induct)
  case (2 s order left parts)
  show ?case
  proof (cases "left \<le> 0")
    case False
    then have "nat left = Suc (nat (left - 1))" by simp
    moreover have "sh_index s \<notin> sh_index ` set (take (nat (left - 1)) order)"
      using 2(2) by (auto dest: in_set_takeD)
    moreover have "parts[sh_index s := parts ! sh_index s + 1] ! i =
        parts ! i + (if i = sh_index s then 1 else 0)"
      using 2(3) by (simp add: nth_list_update)
    ultimately show ?thesis
      using 2 False by auto
  qed simp
qed simp

text \<open>The integer division behind the floors, for a total and weights that are not negative.\<close>

definition floor_share :: "int \<Rightarrow> int list \<Rightarrow> nat \<Rightarrow> int" where
  "floor_share tot w i = tot * (w ! i) div sum_list w"

definition rem_share :: "int \<Rightarrow> int list \<Rightarrow> nat \<Rightarrow> int" where
  "rem_share tot w i = tot * (w ! i) mod sum_list w"

definition share_order :: "int \<Rightarrow> int list \<Rightarrow> share list" where
  "share_order tot w = sort (map (\<lambda>i. Share i (rem_share tot w i)) [0..<length w])"

definition share_left :: "int \<Rightarrow> int list \<Rightarrow> int" where
  "share_left tot w = tot - sum_list (map (floor_share tot w) [0..<length w])"

lemma map_nth_upt: "map f xs = map (\<lambda>i. f (xs ! i)) [0..<length xs]"
  by (rule nth_equalityI) simp_all

lemma allocate_cents_alt:
  assumes "0 \<le> tot" and "\<forall>x\<in>set w. 0 \<le> x" and "sum_list w \<noteq> 0"
  shows "allocate_cents tot w =
    hand_out (share_order tot w) (share_left tot w) (map (floor_share tot w) [0..<length w])"
proof -
  let ?sum = "sum_list w"
  have pos: "0 < ?sum"
    using assms(2,3) sum_list_nonneg [of w] by simp
  have fl: "map (\<lambda>s. s sdiv ?sum) (map (\<lambda>x. tot * x) w) = map (floor_share tot w) [0..<length w]"
    by (rule nth_equalityI) (use assms pos in \<open>simp_all add: sdiv_nonneg floor_share_def\<close>)
  have rm: "map (\<lambda>(i, s). Share i (s smod ?sum)) (enumerate 0 (map (\<lambda>x. tot * x) w)) =
      map (\<lambda>i. Share i (rem_share tot w i)) [0..<length w]"
    by (rule nth_equalityI)
      (use assms pos in \<open>simp_all add: nth_enumerate_eq smod_nonneg rem_share_def\<close>)
  show ?thesis
    using assms(3) unfolding allocate_cents_def Let_def fl rm share_order_def share_left_def by simp
qed

lemma share_sums:
  assumes "sum_list w \<noteq> 0"
  shows "share_left tot w * sum_list w = sum_list (map (rem_share tot w) [0..<length w])"
proof -
  let ?I = "[0..<length w]" and ?S = "sum_list w"
  have "tot * ?S = sum_list (map (\<lambda>i. tot * (w ! i)) ?I)"
    unfolding map_nth_upt [of "\<lambda>x. tot * x" w, symmetric] by (simp add: sum_list_const_mult)
  also have "(\<lambda>i. tot * (w ! i)) = (\<lambda>i. floor_share tot w i * ?S + rem_share tot w i)"
    by (simp add: floor_share_def rem_share_def)
  also have "sum_list (map (\<lambda>i. floor_share tot w i * ?S + rem_share tot w i) ?I) =
      sum_list (map (floor_share tot w) ?I) * ?S + sum_list (map (rem_share tot w) ?I)"
    unfolding sum_list_addf sum_list_mult_const by (rule refl)
  finally show ?thesis by (simp add: share_left_def left_diff_distrib)
qed

lemma share_left_bounds:
  assumes "\<forall>x\<in>set w. 0 \<le> x" and "sum_list w \<noteq> 0"
  shows "0 \<le> share_left tot w" and "share_left tot w < int (length w)"
proof -
  have pos: "0 < sum_list w"
    using assms sum_list_nonneg [of w] by simp
  let ?R = "sum_list (map (rem_share tot w) [0..<length w])"
  have "0 \<le> ?R" using pos by (intro sum_list_nonneg) (auto simp: rem_share_def)
  then show "0 \<le> share_left tot w"
    using share_sums [OF assms(2), of tot] pos zero_le_mult_iff [of "share_left tot w" "sum_list w"]
    by simp
  have "w \<noteq> []" using assms(2) by auto
  have "?R \<le> sum_list (map (\<lambda>i. sum_list w - 1) [0..<length w])"
    using pos by (intro sum_list_mono) (auto simp: rem_share_def)
  also have "\<dots> = int (length w) * (sum_list w - 1)" by (simp add: sum_list_triv)
  also have "\<dots> < int (length w) * sum_list w" using \<open>w \<noteq> []\<close> pos by simp
  finally show "share_left tot w < int (length w)"
    using pos by (simp flip: share_sums [OF assms(2), of tot])
qed

lemma share_order_facts:
  "length (share_order tot w) = length w"
  "distinct (map sh_index (share_order tot w))"
  "set (share_order tot w) = (\<lambda>i. Share i (rem_share tot w i)) ` {..<length w}"
  "sorted (share_order tot w)"
proof -
  let ?xs = "map (\<lambda>i. Share i (rem_share tot w i)) [0..<length w]"
  have "distinct ?xs \<and> inj_on sh_index (set ?xs)"
    by (auto simp: distinct_map inj_on_def)
  then show "distinct (map sh_index (share_order tot w))"
    by (simp add: share_order_def distinct_map del: set_map)
  show "length (share_order tot w) = length w"
    "set (share_order tot w) = (\<lambda>i. Share i (rem_share tot w i)) ` {..<length w}"
    "sorted (share_order tot w)"
    by (simp_all add: share_order_def atLeast0LessThan)
qed

text \<open>The shares that get one of the cents left over.\<close>

definition gets_cent :: "int \<Rightarrow> int list \<Rightarrow> nat \<Rightarrow> bool" where
  "gets_cent tot w i \<longleftrightarrow> i \<in> sh_index ` set (take (nat (share_left tot w)) (share_order tot w))"

lemma gets_cent_rem:
  assumes "i < length w" and "gets_cent tot w i" and "j < length w" and "\<not> gets_cent tot w j"
  shows "rem_share tot w j \<le> rem_share tot w i"
proof -
  let ?k = "nat (share_left tot w)" and ?o = "share_order tot w"
  have split: "?o = take ?k ?o @ drop ?k ?o" by simp
  obtain a where a: "a \<in> set (take ?k ?o)" "sh_index a = i"
    using assms(2) by (auto simp: gets_cent_def)
  have "a \<in> set ?o" using a(1) by (rule in_set_takeD)
  then have ra: "sh_rem a = rem_share tot w i"
    using a(2) by (auto simp: share_order_facts(3))
  let ?b = "Share j (rem_share tot w j)"
  have "?b \<in> set ?o" using assms(3) by (simp add: share_order_facts(3))
  moreover have "?b \<notin> set (take ?k ?o)"
    using assms(4) by (force simp: gets_cent_def)
  ultimately have b: "?b \<in> set (drop ?k ?o)"
    by (metis split Un_iff set_append)
  have "sorted (take ?k ?o @ drop ?k ?o)" using share_order_facts(4) by simp
  then have "a \<le> ?b"
    using a(1) b unfolding sorted_append by blast
  then show ?thesis using ra by (auto simp: less_eq_share_def)
qed

text \<open>C18: when the total and the weights are not negative and some weight is positive, the parts of
  \<open>allocate\<close> add up to the total to the cent, every part is the rounded-down share or one cent
  more, and a cent left over never goes to a share while a larger remainder goes without.\<close>

theorem allocate_exact:
  assumes "0 \<le> tot" and "\<forall>x\<in>set w. 0 \<le> x" and "sum_list w \<noteq> 0"
  shows "allocate (from_cents tot) (map from_cents w) = Inr (map from_cents (allocate_cents tot w)) \<and>
    length (allocate_cents tot w) = length w \<and>
    sum_list (allocate_cents tot w) = tot \<and>
    (\<forall>i<length w. allocate_cents tot w ! i =
        floor_share tot w i + (if gets_cent tot w i then 1 else 0)) \<and>
    (\<forall>i<length w. \<forall>j<length w. gets_cent tot w i \<longrightarrow> \<not> gets_cent tot w j \<longrightarrow>
        rem_share tot w j \<le> rem_share tot w i)"
proof -
  note alt = allocate_cents_alt [OF assms]
  note left = share_left_bounds [OF assms(2,3), of tot]
  have "map_r cents (map from_cents w) = Inr w" by (induction w) simp_all
  then have 1: "allocate (from_cents tot) (map from_cents w) = Inr (map from_cents (allocate_cents tot w))"
    by (simp add: allocate_def)
  have 2: "sum_list (allocate_cents tot w) = tot"
    unfolding alt using left
    by (subst hand_out_sum) (auto simp: share_order_facts share_left_def)
  have 3: "allocate_cents tot w ! i = floor_share tot w i + (if gets_cent tot w i then 1 else 0)"
    if "i < length w" for i
    using hand_out_nth [OF share_order_facts(2), of i "map (floor_share tot w) [0..<length w]" tot w
        "share_left tot w"] that
    unfolding alt gets_cent_def by simp
  have 4: "length (allocate_cents tot w) = length w" by (simp add: alt)
  from 1 2 3 4 show ?thesis by (auto intro: gets_cent_rem)
qed

theorem allocate_exact_witness:
  "sum_list (allocate_cents 1000 [1, 1, 1]) = 1000 \<and> allocate_cents 1000 [1, 1, 1] = [334, 333, 333]"
  using allocate_exact [of 1000 "[1, 1, 1]"] by (simp add: allocate_cents_def enumerate_eq_zip
    sdiv_nonneg smod_nonneg insort_key.simps less_eq_share_def)

text \<open>The promise of \<open>allocate\<close> that the parts always add up to the total does not extend to
  negative totals: one peso owed back over three equal weights comes out one cent short, because
  the loop that hands out the remainder stops at once.\<close>

theorem allocate_negative_short:
  "allocate (from_cents (- 100)) (map from_cents [1, 1, 1]) =
     Inr (map from_cents [- 33, - 33, - 33]) \<and> sum_list [- 33, - 33, - 33 :: int] \<noteq> - 100"
  by (simp add: allocate_def allocate_cents_def signed_divide_int_def signed_modulo_int_def
    enumerate_eq_zip insort_key.simps less_eq_share_def)

theorem div_round_witness: "div_round 1005 10 = 101 \<and> 2 * \<bar>1005 - div_round 1005 10 * 10\<bar> \<le> (10::int)"
  using div_round_nearest_away [of 10 1005] by (simp add: div_round_def sdiv_nonneg)

end
