(* ===== verification/Float64.thy ===== *)
theory Float64
  imports Complex_Main Vb_Prelude
begin

text \<open>
  Numbers of JavaScript. A finite Number is a rational, and every operation returns its exact
  result rounded to 53 significant bits, ties to even (\<open>fl\<close>). Overflow and subnormal
  numbers are outside the model: the amounts the code computes with are below \<open>10 ^ 12\<close> and are
  either zero or at least a hundredth.

  The lemmas bound the rounding error and show which computations on amounts of whole cents are
  exact: reading a \<open>DECIMAL\<close> column, comparing two amounts, and \<open>Math.round(x * 100) / 100\<close>.
\<close>

section \<open>Rounding to 53 bits\<close>

fun bits :: "nat \<Rightarrow> nat" where
  "bits n = (if n = 0 then 0 else Suc (bits (n div 2)))"

declare bits.simps [simp del]

definition ilog2 :: "rat \<Rightarrow> int" where
  "ilog2 r = (let (p, q) = quotient_of \<bar>r\<bar>; k = int (bits (nat p)) - int (bits (nat q))
     in if 2 powi k \<le> \<bar>r\<bar> then k else k - 1)"

definition round_even :: "rat \<Rightarrow> int" where
  "round_even x = (let f = \<lfloor>x\<rfloor>; d = x - of_int f
     in if d < 1 / 2 then f else if 1 / 2 < d then f + 1 else if even f then f else f + 1)"

definition fl :: "rat \<Rightarrow> rat" where
  "fl r = (if r = 0 then 0
     else let u = 2 powi (ilog2 r - 52) in of_int (round_even (r / u)) * u)"

definition fl_add :: "rat \<Rightarrow> rat \<Rightarrow> rat" where "fl_add a b = fl (a + b)"
definition fl_sub :: "rat \<Rightarrow> rat \<Rightarrow> rat" where "fl_sub a b = fl (a - b)"
definition fl_mul :: "rat \<Rightarrow> rat \<Rightarrow> rat" where "fl_mul a b = fl (a * b)"
definition fl_div :: "rat \<Rightarrow> rat \<Rightarrow> rat" where "fl_div a b = fl (a / b)"

text \<open>\<open>Math.round\<close>: the nearest integer, ties up.\<close>

definition math_round :: "rat \<Rightarrow> int" where
  "math_round x = \<lfloor>x + 1 / 2\<rfloor>"

text \<open>The Number read from a \<open>DECIMAL\<close> column that holds \<open>c\<close> cents.\<close>

definition num_of_cents :: "int \<Rightarrow> rat" where
  "num_of_cents c = fl (of_int c / 100)"

text \<open>\<open>Math.round(x * 100) / 100\<close>.\<close>

definition round2 :: "rat \<Rightarrow> rat" where
  "round2 x = fl_div (of_int (math_round (fl_mul x 100))) 100"

section \<open>The rounding error\<close>

lemma bits_bounds: "0 < n \<Longrightarrow> 2 ^ (bits n - 1) \<le> n \<and> n < 2 ^ bits n \<and> 0 < bits n"
proof (induction n rule: bits.induct)
  case (1 n)
  show ?case
  proof (cases "n div 2 = 0")
    case True
    with 1 have "n = 1" by auto
    then show ?thesis by (simp add: bits.simps)
  next
    case False
    with 1 have ih: "2 ^ (bits (n div 2) - 1) \<le> n div 2" "n div 2 < 2 ^ bits (n div 2)"
      "0 < bits (n div 2)" by auto
    have b: "bits n = Suc (bits (n div 2))" using 1(2) by (subst bits.simps) simp
    obtain k where k: "bits (n div 2) = Suc k" using ih(3) by (cases "bits (n div 2)") auto
    show ?thesis using ih unfolding b k by auto
  qed
qed

lemma round_even_err: "\<bar>of_int (round_even x) - x\<bar> \<le> 1 / 2"
proof -
  define f where "f = \<lfloor>x\<rfloor>"
  have "of_int f \<le> x" and "x < of_int f + 1" unfolding f_def by linarith+
  then show ?thesis
    unfolding round_even_def Let_def f_def [symmetric] by (auto simp: abs_if)
qed

lemma round_even_int [simp]: "round_even (of_int n) = n"
  by (simp add: round_even_def)

lemma bits_rat:
  assumes "0 < p"
  obtains k where "bits (nat p) = Suc k" and "(2 :: rat) ^ k \<le> of_int p"
    and "of_int p < (2 :: rat) ^ Suc k"
proof -
  from assms bits_bounds [of "nat p"] obtain k where k: "bits (nat p) = Suc k"
    "2 ^ k \<le> nat p" "nat p < 2 ^ Suc k"
    by (cases "bits (nat p)") auto
  have p: "of_int p = (of_nat (nat p) :: rat)" using assms by simp
  have "(2 :: rat) ^ k \<le> of_nat (nat p)" "of_nat (nat p) < (2 :: rat) ^ Suc k"
    using k(2,3) by (metis of_nat_le_iff of_nat_numeral of_nat_power,
        metis of_nat_less_iff of_nat_numeral of_nat_power)
  with k(1) show thesis using that unfolding p by blast
qed

lemma ilog2_bounds:
  assumes "r \<noteq> 0"
  shows "2 powi (ilog2 r) \<le> \<bar>r\<bar>" and "\<bar>r\<bar> < 2 powi (ilog2 r + 1)"
proof -
  obtain p q where pq: "quotient_of \<bar>r\<bar> = (p, q)" by force
  have q: "0 < q" using quotient_of_denom_pos [OF pq] .
  have r: "\<bar>r\<bar> = of_int p / of_int q" using quotient_of_div [OF pq] .
  have "0 < \<bar>r\<bar>" using assms by simp
  then have p: "0 < p" using q by (simp add: r zero_less_divide_iff)
  obtain i where i: "bits (nat p) = Suc i" "(2 :: rat) ^ i \<le> of_int p" "of_int p < (2 :: rat) ^ Suc i"
    using bits_rat [OF p] .
  obtain j where j: "bits (nat q) = Suc j" "(2 :: rat) ^ j \<le> of_int q" "of_int q < (2 :: rat) ^ Suc j"
    using bits_rat [OF q] .
  define k where "k = int i - int j"
  have pw: "(2 :: rat) powi (int m - int n) = 2 ^ m / 2 ^ n" for m n
    by (simp add: power_int_diff)
  have "of_int p / of_int q < (2 :: rat) ^ Suc i / 2 ^ j"
    using i j q p by (intro frac_less) auto
  also have "\<dots> = 2 powi (k + 1)"
    using pw [of "Suc i" j] by (simp add: k_def algebra_simps)
  finally have up: "\<bar>r\<bar> < 2 powi (k + 1)" by (simp add: r)
  have "(2 :: rat) ^ i / 2 ^ Suc j \<le> of_int p / of_int q"
    using i j q p by (intro frac_le) auto
  then have low: "2 powi (k - 1) \<le> \<bar>r\<bar>"
    using pw [of i "Suc j"] by (simp add: r k_def algebra_simps)
  have "ilog2 r = (if 2 powi k \<le> \<bar>r\<bar> then k else k - 1)"
    by (simp add: ilog2_def pq i(1) j(1) k_def)
  then show "2 powi (ilog2 r) \<le> \<bar>r\<bar>" and "\<bar>r\<bar> < 2 powi (ilog2 r + 1)"
    using up low by auto
qed

lemma fl_err: "\<bar>fl r - r\<bar> \<le> \<bar>r\<bar> / 2 ^ 53"
proof (cases "r = 0")
  case False
  define u :: rat where "u = 2 powi (ilog2 r - 52)"
  have u: "0 < u" by (simp add: u_def)
  have "\<bar>fl r - r\<bar> = \<bar>of_int (round_even (r / u)) - r / u\<bar> * u"
  proof -
    have "fl r - r = (of_int (round_even (r / u)) - r / u) * u"
      using False u by (simp add: fl_def Let_def left_diff_distrib flip: u_def)
    then show ?thesis using u by (simp add: abs_mult)
  qed
  also have "\<dots> \<le> 1 / 2 * u"
    using round_even_err u by (intro mult_right_mono) auto
  also have "1 / 2 * u = 2 powi ilog2 r / 2 ^ 53"
    by (simp add: u_def power_int_diff)
  also have "\<dots> \<le> \<bar>r\<bar> / 2 ^ 53"
    using ilog2_bounds(1) [OF False] by (intro divide_right_mono) auto
  finally show ?thesis .
qed (simp add: fl_def)

lemma fl_0 [simp]: "fl 0 = 0"
  by (simp add: fl_def)

lemma fl_near:
  assumes "\<bar>r\<bar> \<le> 100000000000"
  shows "\<bar>fl r - r\<bar> \<le> 1 / 10000"
proof -
  have "\<bar>r\<bar> / 2 ^ 53 \<le> 100000000000 / 2 ^ 53" using assms by (intro divide_right_mono) auto
  also have "\<dots> \<le> (1 / 10000 :: rat)" by simp
  finally show ?thesis using fl_err [of r] by linarith
qed

section \<open>Amounts of whole cents\<close>

text \<open>The amounts the columns hold: \<open>DECIMAL(10, 2)\<close>, and sums of a hundred of them.\<close>

definition money_range :: "int \<Rightarrow> bool" where
  "money_range c \<longleftrightarrow> \<bar>c\<bar> \<le> 10 ^ 12"

lemma cents_le: "money_range c \<Longrightarrow> \<bar>of_int c / 100 :: rat\<bar> \<le> 10000000000"
proof -
  assume "money_range c"
  then have "\<bar>of_int c :: rat\<bar> \<le> of_int (10 ^ 12)"
    unfolding money_range_def of_int_abs [symmetric] of_int_le_iff .
  then show ?thesis by simp
qed

lemma num_near: "money_range c \<Longrightarrow> \<bar>num_of_cents c - of_int c / 100\<bar> \<le> 1 / 10000"
  using fl_near [of "of_int c / 100"] cents_le [of c] by (simp add: num_of_cents_def)

lemma near_cents_less:
  assumes "\<bar>x - of_int a / 100\<bar> < 1 / 200" and "\<bar>y - of_int b / 100\<bar> < 1 / 200" and "a < b"
  shows "x < (y :: rat)"
proof -
  have "of_int a + 1 \<le> (of_int b :: rat)" using assms(3) by (metis of_int_1 of_int_add of_int_le_iff zless_imp_add1_zle)
  with assms(1,2) show ?thesis unfolding abs_less_iff by linarith
qed

lemma num_of_cents_less_iff [simp]:
  assumes "money_range a" and "money_range b"
  shows "num_of_cents a < num_of_cents b \<longleftrightarrow> a < b"
proof -
  have "\<bar>num_of_cents a - of_int a / 100\<bar> < 1 / 200" "\<bar>num_of_cents b - of_int b / 100\<bar> < 1 / 200"
    using num_near [OF assms(1)] num_near [OF assms(2)] by simp_all
  then show ?thesis
    using near_cents_less [of "num_of_cents a" a "num_of_cents b" b]
      near_cents_less [of "num_of_cents b" b "num_of_cents a" a]
    by (cases a b rule: linorder_cases) auto
qed

lemma num_of_cents_le_iff [simp]:
  "money_range a \<Longrightarrow> money_range b \<Longrightarrow> num_of_cents a \<le> num_of_cents b \<longleftrightarrow> a \<le> b"
  by (metis linorder_not_le num_of_cents_less_iff)

lemma num_of_cents_0 [simp]: "num_of_cents 0 = 0"
  by (simp add: num_of_cents_def)

text \<open>\<open>Math.round(x * 100)\<close> finds the cents of any Number within a tenth of a cent.\<close>

lemma math_round_near: "\<bar>z - of_int k\<bar> < 1 / 2 \<Longrightarrow> math_round z = k"
  unfolding math_round_def by (intro floor_unique) linarith+

lemma cents_near:
  assumes "money_range c" and "\<bar>x - of_int c / 100\<bar> \<le> 1 / 1000"
  shows "math_round (fl_mul x 100) = c"
proof -
  have c: "\<bar>of_int c / 100 :: rat\<bar> \<le> 10000000000" by (rule cents_le [OF assms(1)])
  have hund: "\<bar>x * 100 - of_int c\<bar> \<le> 1 / 10"
    using assms(2) unfolding abs_le_iff by linarith
  have "\<bar>x * 100\<bar> \<le> 10000000000000"
    using c hund unfolding abs_le_iff by linarith
  then have "\<bar>x * 100\<bar> / 2 ^ 53 \<le> 10000000000000 / 2 ^ 53" by (intro divide_right_mono) auto
  also have "\<dots> \<le> (1 / 100 :: rat)" by simp
  finally have "\<bar>fl (x * 100) - x * 100\<bar> \<le> 1 / 100" using fl_err [of "x * 100"] by linarith
  with hund have "\<bar>fl (x * 100) - of_int c\<bar> < 1 / 2" by linarith
  then show ?thesis unfolding fl_mul_def by (rule math_round_near)
qed

lemma round2_near: "money_range c \<Longrightarrow> \<bar>x - of_int c / 100\<bar> \<le> 1 / 1000 \<Longrightarrow> round2 x = num_of_cents c"
  by (simp add: round2_def cents_near fl_div_def num_of_cents_def)

lemma round2_num [simp]: "money_range c \<Longrightarrow> round2 (num_of_cents c) = num_of_cents c"
  using num_near [of c] by (intro round2_near) auto

text \<open>A sum or difference of two amounts is within a hundredth of a cent of the exact one.\<close>

lemma fl_add_near:
  assumes "money_range a" and "money_range b"
  shows "\<bar>fl_add (num_of_cents a) (num_of_cents b) - of_int (a + b) / 100\<bar> \<le> 3 / 10000"
    and "\<bar>fl_sub (num_of_cents a) (num_of_cents b) - of_int (a - b) / 100\<bar> \<le> 3 / 10000"
proof -
  note na = num_near [OF assms(1)] cents_le [OF assms(1)]
  note nb = num_near [OF assms(2)] cents_le [OF assms(2)]
  have "\<bar>num_of_cents a + num_of_cents b\<bar> \<le> 100000000000"
    and "\<bar>num_of_cents a - num_of_cents b\<bar> \<le> 100000000000"
    using na nb unfolding abs_le_iff by linarith+
  from this [THEN fl_near] show
    "\<bar>fl_add (num_of_cents a) (num_of_cents b) - of_int (a + b) / 100\<bar> \<le> 3 / 10000"
    "\<bar>fl_sub (num_of_cents a) (num_of_cents b) - of_int (a - b) / 100\<bar> \<le> 3 / 10000"
    using na(1) nb(1)
    unfolding fl_add_def fl_sub_def abs_le_iff of_int_add of_int_diff add_divide_distrib diff_divide_distrib
    by linarith+
qed

text \<open>The sum and the difference of two amounts are still told apart from any other amount.\<close>

lemma fl_add_less_iff:
  assumes "money_range a" and "money_range b" and "money_range c" and "a + b \<noteq> c"
  shows "fl_add (num_of_cents a) (num_of_cents b) < num_of_cents c \<longleftrightarrow> a + b < c"
proof -
  let ?s = "fl_add (num_of_cents a) (num_of_cents b)"
  have s: "\<bar>?s - of_int (a + b) / 100\<bar> < 1 / 200"
    using fl_add_near(1) [OF assms(1,2)] by linarith
  have c: "\<bar>num_of_cents c - of_int c / 100\<bar> < 1 / 200"
    using num_near [OF assms(3)] by linarith
  show ?thesis
    using near_cents_less [OF s c] near_cents_less [OF c s] assms(4) by linarith
qed

lemma round2_sub:
  assumes "money_range a" and "money_range b" and "money_range (a - b)"
  shows "round2 (fl_sub (num_of_cents a) (num_of_cents b)) = num_of_cents (a - b)"
proof -
  have "\<bar>fl_sub (num_of_cents a) (num_of_cents b) - of_int (a - b) / 100\<bar> \<le> 1 / 1000"
    using fl_add_near(2) [OF assms(1,2)] by linarith
  with assms(3) show ?thesis by (rule round2_near)
qed

text \<open>Evaluating \<open>fl\<close> at a concrete number: scale it by a power of two into 53 bits.\<close>

lemma fl_at:
  assumes "2 ^ 52 \<le> \<bar>r\<bar> * 2 ^ n" and "\<bar>r\<bar> * 2 ^ n < 2 ^ 53"
  shows "fl r = of_int (round_even (r * 2 ^ n)) / 2 ^ n"
proof -
  have r: "r \<noteq> 0" using assms(1) by auto
  let ?k = "52 - int n"
  have pw: "(2 :: rat) powi (int a - int n) = 2 ^ a / 2 ^ n" for a
    by (simp add: power_int_diff)
  have "2 powi ?k \<le> \<bar>r\<bar>" and "\<bar>r\<bar> < 2 powi (?k + 1)"
    using assms pw [of 52] pw [of 53] by (simp_all add: pos_divide_le_eq pos_less_divide_eq)
  moreover note ilog2_bounds [OF r]
  ultimately have "(2 :: rat) powi (ilog2 r) < 2 powi (?k + 1)" and "(2 :: rat) powi ?k < 2 powi (ilog2 r + 1)"
    by linarith+
  then have "ilog2 r < ?k + 1" and "?k < ilog2 r + 1"
    using power_int_increasing [of "?k + 1" "ilog2 r" "2 :: rat"]
      power_int_increasing [of "ilog2 r + 1" ?k "2 :: rat"]
    by (auto simp: not_less [symmetric])
  then have "ilog2 r - 52 = - int n" by linarith
  then show ?thesis
    using r by (simp add: fl_def Let_def power_int_minus divide_inverse)
qed

lemma floor_numerals: "\<lfloor>numeral a / numeral b :: rat\<rfloor> = numeral a div numeral b"
  by (metis floor_divide_of_int_eq of_int_numeral)

lemma seventy_plus_ten_cents:
  "fl_add (num_of_cents 70) (num_of_cents 10) < num_of_cents 80"
proof -
  have 1: "num_of_cents 70 = 6305039478318694 / 2 ^ 53"
    using fl_at [of "7 / 10" 53] by (simp add: num_of_cents_def round_even_def Let_def floor_numerals)
  have 2: "num_of_cents 10 = 7205759403792794 / 2 ^ 56"
    using fl_at [of "1 / 10" 56] by (simp add: num_of_cents_def round_even_def Let_def floor_numerals)
  have 3: "num_of_cents 80 = 7205759403792794 / 2 ^ 53"
    using fl_at [of "4 / 5" 53] by (simp add: num_of_cents_def round_even_def Let_def floor_numerals)
  have 4: "fl_add (num_of_cents 70) (num_of_cents 10) = 7205759403792793 / 2 ^ 53"
    using fl_at [of "6305039478318694 / 2 ^ 53 + 7205759403792794 / 2 ^ 56" 53]
    by (simp add: fl_add_def 1 2 round_even_def Let_def floor_numerals)
  show ?thesis unfolding 4 3 by simp
qed

section \<open>Rounding twice\<close>

lemma round_even_bounds:
  assumes "of_int a \<le> x" and "x \<le> of_int b"
  shows "a \<le> round_even x" and "round_even x \<le> b"
proof -
  define f where "f = \<lfloor>x\<rfloor>"
  have f: "of_int f \<le> x" "x < of_int f + 1" unfolding f_def by linarith+
  from assms(1) f(2) have "of_int a < (of_int (f + 1) :: rat)" by simp
  then have a: "a \<le> f" unfolding of_int_less_iff by simp
  from assms(2) f(1) have "of_int f \<le> (of_int b :: rat)" by linarith
  then have b: "f \<le> b" unfolding of_int_le_iff .
  have top: "f + 1 \<le> b" if "f \<noteq> b" using b that by simp
  show "a \<le> round_even x" and "round_even x \<le> b"
    using a b top assms(2) f
    unfolding round_even_def Let_def f_def [symmetric] by (auto split: if_splits)
qed

text \<open>A result of \<open>fl\<close> is a 53-bit number, so rounding it again changes nothing.\<close>

lemma fl_idem [simp]: "fl (fl r) = fl r"
proof (cases "r = 0")
  case False
  define u :: rat where "u = 2 powi (ilog2 r - 52)"
  define m where "m = round_even (r / u)"
  have u: "0 < u" by (simp add: u_def)
  have two: "(2 :: rat) powi ilog2 r = 2 ^ 52 * u" "(2 :: rat) powi (ilog2 r + 1) = 2 ^ 53 * u"
    by (simp_all add: u_def power_int_diff power_int_add)
  have b: "2 ^ 52 \<le> \<bar>r / u\<bar>" "\<bar>r / u\<bar> \<le> 2 ^ 53"
    using ilog2_bounds [OF False] u by (simp_all add: two abs_divide pos_le_divide_eq pos_divide_le_eq)
  have m: "2 ^ 52 \<le> \<bar>m\<bar>" "\<bar>m\<bar> \<le> 2 ^ 53"
    using b round_even_bounds [of "2 ^ 52" "r / u" "2 ^ 53"]
      round_even_bounds [of "- (2 ^ 53)" "r / u" "- (2 ^ 52)"]
    by (auto simp: m_def abs_if split: if_splits)
  have fl: "fl r = of_int m * u" using False by (simp add: fl_def Let_def m_def u_def)
  have nz: "fl r \<noteq> 0" using m(1) u by (auto simp: fl)
  have M: "(2 :: rat) ^ 52 \<le> \<bar>of_int m\<bar>" "\<bar>of_int m :: rat\<bar> \<le> 2 ^ 53"
    using m by (metis of_int_abs of_int_le_iff of_int_numeral of_int_power)+
  have le: "(2 :: rat) powi ilog2 r \<le> \<bar>fl r\<bar>" "\<bar>fl r\<bar> \<le> 2 powi (ilog2 r + 1)"
    using M u by (simp_all add: two fl abs_mult)
  note fb = ilog2_bounds [OF nz]
  have "ilog2 r < ilog2 (fl r) + 1"
    using le(1) fb(2) power_int_increasing [of "ilog2 (fl r) + 1" "ilog2 r" "2 :: rat"] by force
  moreover have "ilog2 (fl r) \<le> ilog2 r + 1"
    using le(2) fb(1) power_int_strict_increasing [of "ilog2 r + 1" "ilog2 (fl r)" "2 :: rat"] by force
  ultimately consider "ilog2 (fl r) = ilog2 r" | "ilog2 (fl r) = ilog2 r + 1" by linarith
  then show ?thesis
  proof cases
    case 1
    with nz u show ?thesis
      by (simp add: fl_def [of "fl r"] Let_def flip: u_def) (simp add: fl)
  next
    case 2
    then have "2 ^ 53 * u \<le> \<bar>fl r\<bar>" using fb(1) two(2) by simp
    then have "(2 :: rat) ^ 53 \<le> \<bar>of_int m\<bar>"
      using u by (simp add: fl abs_mult)
    then have "(of_int (2 ^ 53) :: rat) \<le> of_int \<bar>m\<bar>" by simp
    then have "\<bar>m\<bar> = 2 ^ 53" using m(2) unfolding of_int_le_iff by simp
    then have q: "fl r / (2 * u) = of_int (sgn m * 2 ^ 52)"
      using u by (auto simp: fl abs_if sgn_if split: if_splits)
    have v: "(2 :: rat) powi (ilog2 (fl r) - 52) = 2 * u"
      by (simp add: 2 u_def power_int_diff power_int_add)
    have "fl (fl r) = of_int (round_even (fl r / (2 * u))) * (2 * u)"
      unfolding fl_def [of "fl r"] Let_def v using nz by simp
    also have "\<dots> = of_int (sgn m * 2 ^ 52) * (2 * u)"
      by (simp only: q round_even_int)
    also have "\<dots> = fl r"
      using u by (simp only: q [symmetric]) simp
    finally show ?thesis .
  qed
qed simp

lemma fl_num [simp]: "fl (num_of_cents c) = num_of_cents c"
  by (simp add: num_of_cents_def)

end
