(* ===== verification/Billing_Db.thy ===== *)
theory Billing_Db
  imports Float64
begin

text \<open>
  The billing tables the money-moving services share (\<open>database/schema.sql\<close>), with the triggers
  and unique keys the services rely on. A table is the list of its rows in primary-key order, a
  \<open>DECIMAL(10, 2)\<close> column is its number of cents, and \<open>deleted_at IS NULL\<close> is the boolean
  \<open>live\<close>. A statement that MySQL refuses leaves the table unchanged and returns the error.

  \<open>cap_guard\<close> is the contract of a pair of guard triggers: rows of one key never add up to more
  than the cap of that key. It is interpreted for the payment side and the invoice side of
  \<open>payment_allocations\<close> and for the invoice side of \<open>credit_notes\<close>.
\<close>

section \<open>Rows\<close>

datatype invoice_status =
  Inv_draft | Inv_issued | Inv_sent | Inv_paid | Inv_overdue | Inv_cancelled | Inv_void

record invoice_row =
  inv_id :: nat
  inv_org :: "nat option"
  inv_client :: nat
  inv_contract :: "nat option"
  inv_issue_date :: nat
  inv_total :: int
  inv_currency :: string
  inv_status :: invoice_status
  inv_paid_at :: "nat option"
  inv_live :: bool

datatype payment_status =
  Pay_pending | Pay_completed | Pay_failed | Pay_refunded | Pay_cancelled

record payment_row =
  pay_id :: nat
  pay_org :: "nat option"
  pay_client :: nat
  pay_amount :: int
  pay_currency :: string
  pay_status :: payment_status

record alloc_row =
  al_id :: nat
  al_payment :: nat
  al_invoice :: nat
  al_amount :: int
  al_live :: bool

datatype note_status = Cn_draft | Cn_issued | Cn_applied | Cn_cancelled

record note_row =
  cn_id :: nat
  cn_client :: nat
  cn_invoice :: "nat option"
  cn_total :: int
  cn_status :: note_status
  cn_live :: bool

record capp_row =
  ca_id :: nat
  ca_note :: nat
  ca_invoice :: nat
  ca_amount :: int
  ca_live :: bool

datatype entry_type = Entry_debit | Entry_credit | Entry_other

record ledger_row =
  lg_client :: nat
  lg_type :: entry_type
  lg_ref_type :: string
  lg_ref_id :: nat
  lg_amount :: int
  lg_debit :: int
  lg_credit :: int

datatype sat_status = Sat_draft | Sat_vigente | Sat_cancel_pending | Sat_cancelado

record cfdi_row =
  cf_invoice :: nat
  cf_org :: nat
  cf_status :: sat_status
  cf_sandbox :: bool

record billing_db =
  db_invoices :: "invoice_row list"
  db_payments :: "payment_row list"
  db_allocs :: "alloc_row list"
  db_notes :: "note_row list"
  db_capps :: "capp_row list"
  db_ledger :: "ledger_row list"
  db_cfdi :: "cfdi_row list"

datatype db_error = Over_payment | Over_invoice | Over_credit | Dup_entry | No_parent

definition upd_where :: "('a \<Rightarrow> bool) \<Rightarrow> ('a \<Rightarrow> 'a) \<Rightarrow> 'a list \<Rightarrow> 'a list" where
  "upd_where P f rows = map (\<lambda>r. if P r then f r else r) rows"

definition next_id :: "('a \<Rightarrow> nat) \<Rightarrow> 'a list \<Rightarrow> nat" where
  "next_id ident rows = Suc (fold max (map ident rows) 0)"

lemma fold_max_ge: "(x::nat) \<in> set xs \<or> x \<le> a \<Longrightarrow> x \<le> fold max xs a"
proof (induction xs arbitrary: a)
  case (Cons y xs)
  from Cons.prems have "x \<in> set xs \<or> x \<le> max y a" by auto
  with Cons.IH [of "max y a"] show ?case by simp
qed simp

lemma next_id_fresh: "r \<in> set rows \<Longrightarrow> ident r < next_id ident rows"
  by (simp add: next_id_def less_Suc_eq_le fold_max_ge)

definition live_sum :: "('r \<Rightarrow> 'k) \<Rightarrow> ('r \<Rightarrow> int) \<Rightarrow> ('r \<Rightarrow> bool) \<Rightarrow> 'r list \<Rightarrow> 'k \<Rightarrow> int" where
  "live_sum key amt live rows k = sum_list (map amt (filter (\<lambda>r. key r = k \<and> live r) rows))"

section \<open>Guard triggers\<close>

text \<open>\<open>SELECT amount INTO v_payment_total\<close> leaves NULL when there is no such row, and a comparison
  with NULL does not signal.\<close>

definition payment_cap :: "billing_db \<Rightarrow> nat \<Rightarrow> int option" where
  "payment_cap db k = map_option pay_amount (find (\<lambda>p. pay_id p = k) (db_payments db))"

definition invoice_cap :: "billing_db \<Rightarrow> nat \<Rightarrow> int option" where
  "invoice_cap db k = map_option inv_total (find (\<lambda>i. inv_id i = k) (db_invoices db))"

definition within_cap :: "int \<Rightarrow> int option \<Rightarrow> bool" where
  "within_cap x c = (case c of None \<Rightarrow> True | Some t \<Rightarrow> x \<le> t)"

definition alloc_payment_bi :: "(nat \<Rightarrow> int option) \<Rightarrow> alloc_row list \<Rightarrow> alloc_row \<Rightarrow> bool" where
  "alloc_payment_bi cap rows new \<longleftrightarrow>
     within_cap (live_sum al_payment al_amount al_live rows (al_payment new) + al_amount new)
       (cap (al_payment new))"

definition alloc_payment_bu ::
  "(nat \<Rightarrow> int option) \<Rightarrow> alloc_row list \<Rightarrow> alloc_row \<Rightarrow> alloc_row \<Rightarrow> bool" where
  "alloc_payment_bu cap rows old new \<longleftrightarrow>
     within_cap (live_sum al_payment al_amount al_live (filter (\<lambda>r. al_id r \<noteq> al_id old) rows)
       (al_payment new) + al_amount new) (cap (al_payment new))"

definition alloc_invoice_bi :: "(nat \<Rightarrow> int option) \<Rightarrow> alloc_row list \<Rightarrow> alloc_row \<Rightarrow> bool" where
  "alloc_invoice_bi cap rows new \<longleftrightarrow>
     within_cap (live_sum al_invoice al_amount al_live rows (al_invoice new) + al_amount new)
       (cap (al_invoice new))"

definition alloc_invoice_bu ::
  "(nat \<Rightarrow> int option) \<Rightarrow> alloc_row list \<Rightarrow> alloc_row \<Rightarrow> alloc_row \<Rightarrow> bool" where
  "alloc_invoice_bu cap rows old new \<longleftrightarrow>
     within_cap (live_sum al_invoice al_amount al_live (filter (\<lambda>r. al_id r \<noteq> al_id old) rows)
       (al_invoice new) + al_amount new) (cap (al_invoice new))"

definition note_counts :: "note_row \<Rightarrow> bool" where
  "note_counts n \<longleftrightarrow> cn_status n \<noteq> Cn_cancelled \<and> cn_live n"

definition opt_cap :: "(nat \<Rightarrow> int option) \<Rightarrow> nat option \<Rightarrow> int option" where
  "opt_cap cap k = (case k of None \<Rightarrow> None | Some i \<Rightarrow> cap i)"

definition note_cap_bi :: "(nat option \<Rightarrow> int option) \<Rightarrow> note_row list \<Rightarrow> note_row \<Rightarrow> bool" where
  "note_cap_bi cap rows new \<longleftrightarrow> (note_counts new \<longrightarrow>
     within_cap (live_sum cn_invoice cn_total note_counts rows (cn_invoice new) + cn_total new)
       (cap (cn_invoice new)))"

definition note_cap_bu ::
  "(nat option \<Rightarrow> int option) \<Rightarrow> note_row list \<Rightarrow> note_row \<Rightarrow> note_row \<Rightarrow> bool" where
  "note_cap_bu cap rows old new \<longleftrightarrow> (note_counts new \<longrightarrow>
     within_cap (live_sum cn_invoice cn_total note_counts (filter (\<lambda>r. cn_id r \<noteq> cn_id old) rows)
       (cn_invoice new) + cn_total new) (cap (cn_invoice new)))"

section \<open>The contract of a guard trigger pair\<close>

definition capped ::
  "('r \<Rightarrow> 'k) \<Rightarrow> ('r \<Rightarrow> int) \<Rightarrow> ('r \<Rightarrow> bool) \<Rightarrow> ('k \<Rightarrow> int option) \<Rightarrow> 'r list \<Rightarrow> bool" where
  "capped key amt live cap rows \<longleftrightarrow>
     (\<forall>k\<in>key ` set rows. within_cap (live_sum key amt live rows k) (cap k))"

locale cap_guard =
  fixes key :: "'r \<Rightarrow> 'k" and amt :: "'r \<Rightarrow> int" and live :: "'r \<Rightarrow> bool" and ident :: "'r \<Rightarrow> nat"
    and bi :: "('k \<Rightarrow> int option) \<Rightarrow> 'r list \<Rightarrow> 'r \<Rightarrow> bool"
    and bu :: "('k \<Rightarrow> int option) \<Rightarrow> 'r list \<Rightarrow> 'r \<Rightarrow> 'r \<Rightarrow> bool"
  assumes bi_law: "bi cap rows new \<Longrightarrow> live new \<Longrightarrow>
      within_cap (live_sum key amt live rows (key new) + amt new) (cap (key new))"
    and bu_law: "bu cap rows old new \<Longrightarrow> live new \<Longrightarrow>
      within_cap (live_sum key amt live (filter (\<lambda>r. ident r \<noteq> ident old) rows) (key new) + amt new)
        (cap (key new))"
    and bu_complete: "within_cap (live_sum key amt live (filter (\<lambda>r. ident r \<noteq> ident old) rows) (key new)
        + amt new) (cap (key new)) \<Longrightarrow> bu cap rows old new"
begin

lemma sum_append: "live_sum key amt live (xs @ ys) k = live_sum key amt live xs k + live_sum key amt live ys k"
  by (simp add: live_sum_def)

lemma sum_Cons: "live_sum key amt live (x # ys) k =
    (if key x = k \<and> live x then amt x else 0) + live_sum key amt live ys k"
  by (simp add: live_sum_def)

lemma sum_no_key: "k \<notin> key ` set rows \<Longrightarrow> live_sum key amt live rows k = 0"
  by (induction rows) (auto simp: live_sum_def)

lemma insert_keeps:
  assumes "capped key amt live cap rows" and "bi cap rows new"
    and "live new"
  shows "capped key amt live cap (rows @ [new])"
  unfolding capped_def
proof
  fix k assume k: "k \<in> key ` set (rows @ [new])"
  have s: "live_sum key amt live (rows @ [new]) k =
      live_sum key amt live rows k + (if key new = k then amt new else 0)"
    using assms(3) by (simp add: sum_append) (simp add: live_sum_def)
  show "within_cap (live_sum key amt live (rows @ [new]) k) (cap k)"
  proof (cases "key new = k")
    case True
    with bi_law [OF assms(2,3)] s show ?thesis by simp
  next
    case False
    with k have "k \<in> key ` set rows" by auto
    with assms(1) have "within_cap (live_sum key amt live rows k) (cap k)"
      unfolding capped_def by (rule bspec)
    with s False show ?thesis by simp
  qed
qed

lemma others:
  assumes "distinct (map ident (xs @ r # ys))"
  shows "filter (\<lambda>q. ident q \<noteq> ident r) (xs @ r # ys) = xs @ ys"
proof -
  note distinct_key_others [OF assms]
  then show ?thesis by simp
qed

lemma update_keeps:
  assumes "capped key amt live cap (xs @ r # ys)" and "distinct (map ident (xs @ r # ys))"
    and "bu cap (xs @ r # ys) r new" and "key new = key r" and "\<not> live r \<or> 0 \<le> amt r"
  shows "capped key amt live cap (xs @ new # ys)"
  unfolding capped_def
proof
  fix k assume k: "k \<in> key ` set (xs @ new # ys)"
  have old: "within_cap (live_sum key amt live (xs @ r # ys) k) (cap k)"
    using assms(1,4) k by (auto simp: capped_def)
  show "within_cap (live_sum key amt live (xs @ new # ys) k) (cap k)"
  proof (cases "key new = k \<and> live new")
    case True
    with bu_law [OF assms(3)] show ?thesis
      unfolding others [OF assms(2)]
      by (simp add: sum_append sum_Cons add.commute add.left_commute)
  next
    case False
    then have "live_sum key amt live (xs @ new # ys) k \<le> live_sum key amt live (xs @ r # ys) k"
      using assms(5) by (auto simp: sum_append sum_Cons)
    with old show ?thesis by (auto simp: within_cap_def split: option.splits)
  qed
qed

text \<open>Deleting a live row is never refused.\<close>

lemma delete_allowed:
  assumes "capped key amt live cap (xs @ r # ys)" and "distinct (map ident (xs @ r # ys))"
    and "live r" and "key new = key r" and "amt new = amt r"
  shows "bu cap (xs @ r # ys) r new"
proof -
  have "within_cap (live_sum key amt live (xs @ r # ys) (key r)) (cap (key r))"
    using assms(1) by (auto simp: capped_def)
  with assms(3-5) show ?thesis
    by (intro bu_complete, unfold others [OF assms(2)])
      (simp add: sum_append sum_Cons add.commute add.left_commute)
qed

end

interpretation pay_guard: cap_guard al_payment al_amount al_live al_id alloc_payment_bi alloc_payment_bu
  by unfold_locales (simp_all add: alloc_payment_bi_def alloc_payment_bu_def)

interpretation inv_guard: cap_guard al_invoice al_amount al_live al_id alloc_invoice_bi alloc_invoice_bu
  by unfold_locales (simp_all add: alloc_invoice_bi_def alloc_invoice_bu_def)

interpretation note_guard: cap_guard cn_invoice cn_total note_counts cn_id note_cap_bi note_cap_bu
  by unfold_locales (simp_all add: note_cap_bi_def note_cap_bu_def)

end
