(* ===== verification/Allocation.thy ===== *)
theory Allocation
  imports Billing_Db
begin

text \<open>
  Applying payments to invoices: \<open>src/services/paymentAllocationService.js\<close>, and the parts of
  \<open>src/services/billingService.js\<close> that release, reverse and restore allocations.

  An operation takes the database and returns it changed, or the error it throws; the caller's
  transaction then rolls back, so the database of an error is the one before. \<open>now\<close> is \<open>NOW()\<close>.
  A Number that \<open>money.js\<close> produced is its number of cents (theory \<open>Money\<close>); a Number read by
  \<open>parseFloat\<close> is a float (theory \<open>Float64\<close>).
\<close>

record entry =
  en_id :: nat
  en_payment :: nat
  en_invoice :: nat
  en_amount :: int

record contract_row =
  ct_id :: nat
  ct_org :: "nat option"
  ct_client :: nat
  ct_status :: string
  ct_live :: bool

datatype app_error = App_error nat string | Sql_error db_error

section \<open>Statements on the tables\<close>

definition al_pair :: "alloc_row \<Rightarrow> nat \<times> nat" where
  "al_pair r = (al_payment r, al_invoice r)"

text \<open>\<open>INSERT INTO payment_allocations\<close>: the BEFORE triggers, then the unique key, then the
  foreign keys.\<close>

definition insert_alloc :: "billing_db \<Rightarrow> nat \<Rightarrow> nat \<Rightarrow> int \<Rightarrow> db_error + billing_db \<times> nat" where
  "insert_alloc db p i amount =
     (let rows = db_allocs db;
          new = \<lparr>al_id = next_id al_id rows, al_payment = p, al_invoice = i, al_amount = amount,
                 al_live = True\<rparr>
      in if \<not> alloc_payment_bi (payment_cap db) rows new then Inl Over_payment
         else if \<not> alloc_invoice_bi (invoice_cap db) rows new then Inl Over_invoice
         else if list_ex (\<lambda>r. al_live r \<and> al_pair r = (p, i)) rows then Inl Dup_entry
         else if payment_cap db p = None \<or> invoice_cap db i = None then Inl No_parent
         else Inr (db\<lparr>db_allocs := rows @ [new]\<rparr>, al_id new))"

text \<open>\<open>UPDATE payment_allocations SET ... WHERE ...\<close>, row by row in key order; each row fires the
  BEFORE UPDATE triggers against the rows as they are at that point.\<close>

fun update_allocs_from :: "billing_db \<Rightarrow> (alloc_row \<Rightarrow> bool) \<Rightarrow> (alloc_row \<Rightarrow> alloc_row) \<Rightarrow>
    alloc_row list \<Rightarrow> alloc_row list \<Rightarrow> db_error + alloc_row list" where
  "update_allocs_from db P f don [] = Inr don"
| "update_allocs_from db P f don (r # rest) =
     (if \<not> P r then update_allocs_from db P f (don @ [r]) rest
      else if \<not> alloc_payment_bu (payment_cap db) (don @ r # rest) r (f r) then Inl Over_payment
      else if \<not> alloc_invoice_bu (invoice_cap db) (don @ r # rest) r (f r) then Inl Over_invoice
      else if al_live (f r) \<and> list_ex (\<lambda>q. al_live q \<and> al_pair q = al_pair (f r)) (don @ rest)
      then Inl Dup_entry
      else update_allocs_from db P f (don @ [f r]) rest)"

definition update_allocs :: "billing_db \<Rightarrow> (alloc_row \<Rightarrow> bool) \<Rightarrow> (alloc_row \<Rightarrow> alloc_row) \<Rightarrow>
    db_error + billing_db" where
  "update_allocs db P f =
     bind_r (update_allocs_from db P f [] (db_allocs db)) (\<lambda>rows. Inr (db\<lparr>db_allocs := rows\<rparr>))"

definition update_invoices :: "(invoice_row \<Rightarrow> bool) \<Rightarrow> (invoice_row \<Rightarrow> invoice_row) \<Rightarrow>
    billing_db \<Rightarrow> billing_db" where
  "update_invoices P f db = db\<lparr>db_invoices := upd_where P f (db_invoices db)\<rparr>"

definition mark_paid :: "nat \<Rightarrow> invoice_row \<Rightarrow> invoice_row" where
  "mark_paid now i = i\<lparr>inv_status := Inv_paid, inv_paid_at := Some now\<rparr>"

definition mark_issued :: "invoice_row \<Rightarrow> invoice_row" where
  "mark_issued i = i\<lparr>inv_status := Inv_issued, inv_paid_at := None\<rparr>"

text \<open>\<open>SUM(amount)\<close> of the live allocations and of the live credit applications of an invoice.\<close>

definition allocated :: "billing_db \<Rightarrow> nat \<Rightarrow> int" where
  "allocated db i = live_sum al_invoice al_amount al_live (db_allocs db) i"

definition credited :: "billing_db \<Rightarrow> nat \<Rightarrow> int" where
  "credited db i = live_sum ca_invoice ca_amount ca_live (db_capps db) i"

definition covered :: "billing_db \<Rightarrow> nat \<Rightarrow> int" where
  "covered db i = allocated db i + credited db i"

definition find_invoice :: "billing_db \<Rightarrow> nat \<Rightarrow> invoice_row option" where
  "find_invoice db i = find (\<lambda>v. inv_id v = i) (db_invoices db)"

section \<open>Refusals\<close>

definition payable_statuses :: "invoice_status list" where
  "payable_statuses = [Inv_issued, Inv_sent, Inv_overdue]"

definition is_payment_settled :: "payment_row option \<Rightarrow> bool" where
  "is_payment_settled p = (case p of None \<Rightarrow> False | Some p \<Rightarrow> pay_status p = Pay_completed)"

text \<open>\<open>toUpperCase\<close> of the letters of a currency code.\<close>

definition upper_char :: "char \<Rightarrow> char" where
  "upper_char c = (let n = code_unit c in if 97 \<le> n \<and> n \<le> 122 then char_of (n - 32) else c)"

definition same_currency :: "string \<Rightarrow> string \<Rightarrow> bool" where
  "same_currency a b \<longleftrightarrow> a = [] \<or> b = [] \<or> map upper_char a = map upper_char b"

text \<open>\<open>Number(null)\<close> is 0.\<close>

definition org_number :: "nat option \<Rightarrow> nat" where
  "org_number x = (case x of None \<Rightarrow> 0 | Some n \<Rightarrow> n)"

definition allocation_refusal :: "payment_row \<Rightarrow> invoice_row \<Rightarrow> bool \<Rightarrow> string option" where
  "allocation_refusal p i any_client =
     (if org_number (inv_org i) \<noteq> org_number (pay_org p) then Some ''NOT_FOUND''
      else if inv_status i \<notin> set payable_statuses then Some ''INVOICE_NOT_PAYABLE''
      else if \<not> any_client \<and> inv_client i \<noteq> pay_client p then Some ''CROSS_CLIENT_ALLOCATION''
      else if \<not> same_currency (pay_currency p) (inv_currency i) then Some ''CURRENCY_MISMATCH''
      else None)"

section \<open>Allocating\<close>

text \<open>\<open>parseFloat\<close> of the two sums, added as floats, against \<open>parseFloat\<close> of the total.\<close>

definition finalize_if_fully_paid :: "billing_db \<Rightarrow> invoice_row \<Rightarrow> nat \<Rightarrow> billing_db \<times> bool" where
  "finalize_if_fully_paid db i now =
     (let total_allocated = fl_add (num_of_cents (allocated db (inv_id i)))
                                   (num_of_cents (credited db (inv_id i)))
      in if total_allocated < num_of_cents (inv_total i) then (db, False)
         else (update_invoices (\<lambda>v. inv_id v = inv_id i) (mark_paid now) db, True))"

definition apply_allocation :: "billing_db \<Rightarrow> payment_row \<Rightarrow> invoice_row \<Rightarrow> int \<Rightarrow> bool \<Rightarrow> bool \<Rightarrow>
    nat \<Rightarrow> app_error + billing_db \<times> nat \<times> bool" where
  "apply_allocation db p i amount any_client finalize now =
     (case allocation_refusal p i any_client of
        Some code \<Rightarrow> Inl (App_error (if code = ''NOT_FOUND'' then 404 else 422) code)
      | None \<Rightarrow>
          (case insert_alloc db (pay_id p) (inv_id i) amount of
             Inl Over_payment \<Rightarrow> Inl (App_error 422 ''OVER_ALLOCATION'')
           | Inl Over_invoice \<Rightarrow> Inl (App_error 422 ''OVER_ALLOCATION'')
           | Inl Dup_entry \<Rightarrow> Inl (App_error 422 ''ALLOCATION_EXISTS'')
           | Inl e \<Rightarrow> Inl (Sql_error e)
           | Inr (db', aid) \<Rightarrow>
               (if finalize then (let (db'', paid) = finalize_if_fully_paid db' i now in Inr (db'', aid, paid))
                else Inr (db', aid, False))))"

text \<open>An invoice row of \<open>getInvoicesWithBalance\<close> is the row and its \<open>balance_due\<close>.\<close>

definition invoices_with_balance :: "billing_db \<Rightarrow> nat \<Rightarrow> nat \<Rightarrow> nat list \<Rightarrow> (invoice_row \<times> int) list" where
  "invoices_with_balance db org client ids =
     map (\<lambda>i. (i, inv_total i - allocated db (inv_id i) - credited db (inv_id i)))
       (sort_key inv_issue_date (sort_key inv_id
          (filter (\<lambda>i. inv_client i = client \<and> inv_org i = Some org \<and> inv_live i \<and>
              inv_status i \<in> set payable_statuses \<and> (ids = [] \<or> inv_id i \<in> set ids))
            (db_invoices db))))"

fun allocate_loop :: "payment_row \<Rightarrow> nat \<Rightarrow> (invoice_row \<times> int) list \<Rightarrow> billing_db \<Rightarrow> int \<Rightarrow>
    entry list \<Rightarrow> nat list \<Rightarrow> app_error + billing_db \<times> entry list \<times> nat list \<times> int" where
  "allocate_loop p now [] db remainder entries paid = Inr (db, entries, paid, remainder)"
| "allocate_loop p now ((i, due) # rest) db remainder entries paid =
     (if remainder \<le> 0 then Inr (db, entries, paid, remainder)
      else
        (let balance = max 0 due; amount = min remainder balance
         in if balance \<le> 0 \<or> amount \<le> 0 then allocate_loop p now rest db remainder entries paid
            else (case apply_allocation db p i amount False True now of
                Inl e \<Rightarrow> (if e = App_error 422 ''ALLOCATION_EXISTS''
                          then allocate_loop p now rest db remainder entries paid else Inl e)
              | Inr (db', aid, became_paid) \<Rightarrow>
                  allocate_loop p now rest db' (remainder - amount)
                    (entries @ [\<lparr>en_id = aid, en_payment = pay_id p, en_invoice = inv_id i, en_amount = amount\<rparr>])
                    (if became_paid then paid @ [inv_id i] else paid))))"

definition allocate_across_invoices :: "billing_db \<Rightarrow> payment_row \<Rightarrow> int \<Rightarrow> (invoice_row \<times> int) list \<Rightarrow>
    nat \<Rightarrow> app_error + billing_db \<times> entry list \<times> nat list \<times> int" where
  "allocate_across_invoices db p amount invs now = allocate_loop p now invs db amount [] []"

section \<open>Releasing, reversing and restoring\<close>

definition refresh_invoice_paid_status :: "billing_db \<Rightarrow> nat \<Rightarrow> nat \<Rightarrow> billing_db" where
  "refresh_invoice_paid_status db i now =
     (case find (\<lambda>v. inv_id v = i \<and> inv_live v) (db_invoices db) of
        None \<Rightarrow> db
      | Some v \<Rightarrow>
          (if num_of_cents (inv_total v) \<le> num_of_cents (covered db i)
           then update_invoices (\<lambda>w. inv_id w = i \<and> inv_status w \<noteq> Inv_paid) (mark_paid now) db
           else update_invoices (\<lambda>w. inv_id w = i \<and> inv_status w = Inv_paid) mark_issued db))"

definition refresh_all :: "billing_db \<Rightarrow> nat list \<Rightarrow> nat \<Rightarrow> billing_db" where
  "refresh_all db is now = fold (\<lambda>i d. refresh_invoice_paid_status d i now) is db"

definition release_invoice_allocations :: "billing_db \<Rightarrow> nat \<Rightarrow> db_error + billing_db" where
  "release_invoice_allocations db i =
     update_allocs db (\<lambda>r. al_invoice r = i \<and> al_live r) (al_live_update (\<lambda>_. False))"

definition reverse_payment_allocations :: "billing_db \<Rightarrow> nat \<Rightarrow> nat \<Rightarrow> db_error + billing_db" where
  "reverse_payment_allocations db p now =
     (let touched = remdups (map al_invoice (filter (\<lambda>r. al_payment r = p \<and> al_live r) (db_allocs db)))
      in if touched = [] then Inr db
         else bind_r (update_allocs db (\<lambda>r. al_payment r = p \<and> al_live r) (al_live_update (\<lambda>_. False)))
           (\<lambda>db'. Inr (refresh_all db' touched now)))"

definition restore_payment_allocations :: "billing_db \<Rightarrow> nat \<Rightarrow> nat \<Rightarrow> db_error + billing_db" where
  "restore_payment_allocations db p now =
     (let touched = remdups (map al_invoice (filter (\<lambda>r. al_payment r = p \<and> \<not> al_live r) (db_allocs db)))
      in if touched = [] then Inr db
         else bind_r (update_allocs db (\<lambda>r. al_payment r = p \<and> \<not> al_live r) (al_live_update (\<lambda>_. True)))
           (\<lambda>db'. Inr (refresh_all db' touched now)))"

section \<open>Reconnection\<close>

text \<open>The contract \<open>reconnectIfSuspended\<close> hands to \<open>reconnectContract\<close>, if any.\<close>

definition reconnect_target :: "contract_row list \<Rightarrow> invoice_row \<Rightarrow> nat option \<Rightarrow> nat option" where
  "reconnect_target contracts i org =
     (case inv_contract i of
        None \<Rightarrow> None
      | Some c \<Rightarrow>
          map_option ct_id (find (\<lambda>k. ct_id k = c \<and> ct_org k = org \<and> ct_client k = inv_client i \<and>
            ct_status k = ''suspended'' \<and> ct_live k) contracts))"

section \<open>The allocation invariant\<close>

text \<open>No payment and no invoice is over-allocated, and a payment has at most one live allocation to
  an invoice.\<close>

definition live_pairs :: "alloc_row list \<Rightarrow> (nat \<times> nat) list" where
  "live_pairs rows = map al_pair (filter al_live rows)"

lemma live_pairs_simps:
  "live_pairs [] = []"
  "live_pairs (r # rows) = (if al_live r then al_pair r # live_pairs rows else live_pairs rows)"
  "live_pairs (xs @ ys) = live_pairs xs @ live_pairs ys"
  by (simp_all add: live_pairs_def)

lemma list_ex_live_pairs:
  "list_ex (\<lambda>q. al_live q \<and> al_pair q = x) rows \<longleftrightarrow> x \<in> set (live_pairs rows)"
  by (auto simp: list_ex_iff live_pairs_def)

definition rows_ok :: "(nat \<Rightarrow> int option) \<Rightarrow> (nat \<Rightarrow> int option) \<Rightarrow> alloc_row list \<Rightarrow> bool" where
  "rows_ok pcap icap rows \<longleftrightarrow>
     distinct (map al_id rows) \<and> (\<forall>r\<in>set rows. 0 \<le> al_amount r) \<and>
     capped al_payment al_amount al_live pcap rows \<and>
     capped al_invoice al_amount al_live icap rows \<and>
     distinct (live_pairs rows)"

definition alloc_inv :: "billing_db \<Rightarrow> bool" where
  "alloc_inv db \<longleftrightarrow> rows_ok (payment_cap db) (invoice_cap db) (db_allocs db)"

lemma find_map_same:
  assumes "\<And>x. Q (f x) = Q x"
  shows "find Q (map f xs) = map_option f (find Q xs)"
  by (induction xs) (auto simp: assms)

lemma caps_update_invoices [simp]:
  assumes "\<And>v. inv_id (f v) = inv_id v" and "\<And>v. inv_total (f v) = inv_total v"
  shows "invoice_cap (update_invoices P f db) = invoice_cap db"
proof
  fix k
  have "find (\<lambda>i. inv_id i = k) (upd_where P f (db_invoices db)) =
      map_option (\<lambda>r. if P r then f r else r) (find (\<lambda>i. inv_id i = k) (db_invoices db))"
    unfolding upd_where_def by (rule find_map_same) (simp add: assms)
  then show "invoice_cap (update_invoices P f db) k = invoice_cap db k"
    by (simp add: invoice_cap_def update_invoices_def option.map_comp comp_def assms if_distrib cong: if_cong)
qed

lemma update_invoices_simps [simp]:
  "payment_cap (update_invoices P f db) = payment_cap db"
  "db_allocs (update_invoices P f db) = db_allocs db"
  "db_capps (update_invoices P f db) = db_capps db"
  "db_notes (update_invoices P f db) = db_notes db"
  "db_ledger (update_invoices P f db) = db_ledger db"
  "db_cfdi (update_invoices P f db) = db_cfdi db"
  "db_payments (update_invoices P f db) = db_payments db"
  by (simp_all add: payment_cap_def [abs_def] update_invoices_def)

lemma mark_simps [simp]:
  "inv_id (mark_paid now v) = inv_id v" "inv_total (mark_paid now v) = inv_total v"
  "inv_id (mark_issued v) = inv_id v" "inv_total (mark_issued v) = inv_total v"
  "inv_status (mark_paid now v) = Inv_paid" "inv_status (mark_issued v) = Inv_issued"
  "inv_live (mark_paid now v) = inv_live v" "inv_live (mark_issued v) = inv_live v"
  by (simp_all add: mark_paid_def mark_issued_def)

lemma caps_allocs_update [simp]:
  "payment_cap (db\<lparr>db_allocs := rows\<rparr>) = payment_cap db"
  "invoice_cap (db\<lparr>db_allocs := rows\<rparr>) = invoice_cap db"
  by (simp_all add: payment_cap_def [abs_def] invoice_cap_def [abs_def])

lemma alloc_inv_update_invoices [simp]:
  assumes "\<And>v. inv_id (f v) = inv_id v" and "\<And>v. inv_total (f v) = inv_total v"
  shows "alloc_inv (update_invoices P f db) = alloc_inv db"
  using assms by (simp add: alloc_inv_def)

lemma insert_alloc_result:
  assumes "insert_alloc db p i amount = Inr (db', aid)"
  shows "db' = db\<lparr>db_allocs := db_allocs db @ [\<lparr>al_id = aid, al_payment = p, al_invoice = i,
      al_amount = amount, al_live = True\<rparr>]\<rparr>"
  using assms by (auto simp: insert_alloc_def Let_def split: if_splits)

lemma insert_alloc_inv [step_inv]:
  assumes "alloc_inv db" and "0 \<le> amount" and "insert_alloc db p i amount = Inr (db', aid)"
  shows "alloc_inv db'"
proof -
  define new where "new = \<lparr>al_id = next_id al_id (db_allocs db), al_payment = p, al_invoice = i,
    al_amount = amount, al_live = True\<rparr>"
  have g: "alloc_payment_bi (payment_cap db) (db_allocs db) new"
    "alloc_invoice_bi (invoice_cap db) (db_allocs db) new"
    "\<not> list_ex (\<lambda>r. al_live r \<and> al_pair r = (p, i)) (db_allocs db)"
    and db': "db' = db\<lparr>db_allocs := db_allocs db @ [new]\<rparr>"
    using assms(3) unfolding insert_alloc_def Let_def new_def [symmetric]
    by (simp_all only: split: if_splits) simp_all
  have ok: "rows_ok (payment_cap db) (invoice_cap db) (db_allocs db)"
    using assms(1) by (simp add: alloc_inv_def)
  have ids: "al_id new \<notin> al_id ` set (db_allocs db)"
  proof
    assume "al_id new \<in> al_id ` set (db_allocs db)"
    then obtain r where "r \<in> set (db_allocs db)" "al_id r = next_id al_id (db_allocs db)"
      by (auto simp: new_def)
    with next_id_fresh [of r "db_allocs db" al_id] show False by simp
  qed
  have prs: "al_pair new \<notin> set (live_pairs (db_allocs db))"
    using g(3) unfolding list_ex_live_pairs by (simp add: new_def al_pair_def)
  have pc: "capped al_payment al_amount al_live (payment_cap db) (db_allocs db @ [new])"
    by (rule pay_guard.insert_keeps) (use ok g(1) in \<open>simp_all add: rows_ok_def new_def\<close>)
  have ic: "capped al_invoice al_amount al_live (invoice_cap db) (db_allocs db @ [new])"
    by (rule inv_guard.insert_keeps) (use ok g(2) in \<open>simp_all add: rows_ok_def new_def\<close>)
  have am: "al_live new" "0 \<le> al_amount new" using assms(2) by (simp_all add: new_def)
  have "rows_ok (payment_cap db) (invoice_cap db) (db_allocs db @ [new])"
    using ok ids prs pc ic am by (simp add: rows_ok_def live_pairs_simps)
  then show ?thesis by (simp add: alloc_inv_def db')
qed

text \<open>An update keeps the columns the triggers read; it may change \<open>deleted_at\<close>.\<close>

definition keeps_alloc :: "(alloc_row \<Rightarrow> alloc_row) \<Rightarrow> bool" where
  "keeps_alloc f \<longleftrightarrow> (\<forall>r. al_id (f r) = al_id r \<and> al_payment (f r) = al_payment r \<and>
     al_invoice (f r) = al_invoice r \<and> al_amount (f r) = al_amount r)"

lemma update_step_ok:
  assumes ok: "rows_ok pcap icap (don @ r # rest)" and f: "keeps_alloc f"
    and p: "alloc_payment_bu pcap (don @ r # rest) r (f r)"
    and i: "alloc_invoice_bu icap (don @ r # rest) r (f r)"
    and u: "al_live (f r) \<longrightarrow> \<not> list_ex (\<lambda>q. al_live q \<and> al_pair q = al_pair (f r)) (don @ rest)"
  shows "rows_ok pcap icap (don @ f r # rest)"
proof -
  have k: "al_id (f r) = al_id r" "al_payment (f r) = al_payment r" "al_invoice (f r) = al_invoice r"
    "al_amount (f r) = al_amount r" using f by (simp_all add: keeps_alloc_def)
  have d: "distinct (map al_id (don @ r # rest))" and a: "0 \<le> al_amount r"
    using ok by (simp_all add: rows_ok_def)
  have "capped al_payment al_amount al_live pcap (don @ f r # rest)"
    by (rule pay_guard.update_keeps [where r = r and cap = pcap and xs = don and ys = rest])
      (use ok a k p d in \<open>simp_all add: rows_ok_def\<close>)
  moreover have "capped al_invoice al_amount al_live icap (don @ f r # rest)"
    by (rule inv_guard.update_keeps [where r = r and cap = icap and xs = don and ys = rest])
      (use ok a k i d in \<open>simp_all add: rows_ok_def\<close>)
  moreover have "distinct (live_pairs (don @ f r # rest))"
  proof -
    have "distinct (live_pairs don @ live_pairs rest)"
      using ok by (cases "al_live r") (simp_all add: rows_ok_def live_pairs_simps)
    moreover have "al_live (f r) \<longrightarrow> al_pair (f r) \<notin> set (live_pairs don @ live_pairs rest)"
      using u unfolding list_ex_live_pairs live_pairs_simps .
    ultimately show ?thesis by (cases "al_live (f r)") (simp_all add: live_pairs_simps)
  qed
  ultimately show ?thesis using ok k by (simp add: rows_ok_def)
qed

lemma update_allocs_from_ok:
  assumes "rows_ok (payment_cap db) (invoice_cap db) (don @ todo)" and "keeps_alloc f"
    and "update_allocs_from db P f don todo = Inr rows"
  shows "rows_ok (payment_cap db) (invoice_cap db) rows"
  using assms
proof (induction db P f don todo rule: update_allocs_from.induct)
  case (2 db P f don r rest)
  show ?case
  proof (cases "P r")
    case True
    with 2 update_step_ok [of "payment_cap db" "invoice_cap db" don r rest f] show ?thesis
      by (auto split: if_splits)
  qed (use 2 in simp)
qed simp

lemma update_allocs_inv [step_inv]:
  "alloc_inv db \<Longrightarrow> keeps_alloc f \<Longrightarrow> update_allocs db P f = Inr db' \<Longrightarrow> alloc_inv db'"
  using update_allocs_from_ok [of db "[]"] by (auto simp: alloc_inv_def update_allocs_def bind_r_Inr_conv)

lemma keeps_live [simp]: "keeps_alloc (al_live_update g)"
  by (simp add: keeps_alloc_def)

text \<open>Soft-deleting live allocations is never refused, although the triggers run for them too.\<close>

lemma delete_allocs_from:
  assumes "rows_ok (payment_cap db) (invoice_cap db) (don @ todo)"
  shows "update_allocs_from db (\<lambda>r. Q r \<and> al_live r) (al_live_update (\<lambda>_. False)) don todo =
    Inr (don @ upd_where (\<lambda>r. Q r \<and> al_live r) (al_live_update (\<lambda>_. False)) todo)"
  using assms
proof (induction todo arbitrary: don)
  case Nil
  then show ?case by (simp add: upd_where_def)
next
  case (Cons r rest)
  let ?f = "al_live_update (\<lambda>_. False)"
  show ?case
  proof (cases "Q r \<and> al_live r")
    case True
    have p: "alloc_payment_bu (payment_cap db) (don @ r # rest) r (?f r)"
      by (rule pay_guard.delete_allowed) (use True Cons.prems in \<open>simp_all add: rows_ok_def\<close>)
    have i: "alloc_invoice_bu (invoice_cap db) (don @ r # rest) r (?f r)"
      by (rule inv_guard.delete_allowed) (use True Cons.prems in \<open>simp_all add: rows_ok_def\<close>)
    have "rows_ok (payment_cap db) (invoice_cap db) (don @ ?f r # rest)"
      by (rule update_step_ok) (use Cons.prems p i in \<open>simp_all\<close>)
    with True p i Cons.IH [of "don @ [?f r]"] show ?thesis by (simp add: upd_where_def)
  next
    case False
    with Cons.IH [of "don @ [r]"] Cons.prems show ?thesis by (auto simp: upd_where_def)
  qed
qed

lemma delete_allocs:
  "alloc_inv db \<Longrightarrow> update_allocs db (\<lambda>r. Q r \<and> al_live r) (al_live_update (\<lambda>_. False)) =
    Inr (db\<lparr>db_allocs := upd_where (\<lambda>r. Q r \<and> al_live r) (al_live_update (\<lambda>_. False)) (db_allocs db)\<rparr>)"
  using delete_allocs_from [of db "[]"] by (simp add: alloc_inv_def update_allocs_def)

section \<open>Every operation keeps the invariant\<close>

lemma finalize_frame [simp]:
  "db_allocs (fst (finalize_if_fully_paid db i now)) = db_allocs db"
  "alloc_inv (fst (finalize_if_fully_paid db i now)) = alloc_inv db"
  by (simp_all add: finalize_if_fully_paid_def Let_def)

lemma apply_allocation_result:
  assumes "apply_allocation db p i amount ac fin now = Inr (db', aid, paid)"
  obtains mid where "allocation_refusal p i ac = None"
    and "insert_alloc db (pay_id p) (inv_id i) amount = Inr (mid, aid)"
    and "(db', paid) = (if fin then finalize_if_fully_paid mid i now else (mid, False))"
proof -
  have ref: "allocation_refusal p i ac = None"
    using assms by (cases "allocation_refusal p i ac") (auto simp: apply_allocation_def)
  show thesis
  proof (cases "insert_alloc db (pay_id p) (inv_id i) amount")
    case (Inl e)
    with assms ref show thesis by (cases e) (simp_all add: apply_allocation_def)
  next
    case (Inr b)
    obtain mid a where b: "b = (mid, a)" by force
    with assms ref Inr have "a = aid"
      and "(db', paid) = (if fin then finalize_if_fully_paid mid i now else (mid, False))"
      by (auto simp: apply_allocation_def split: prod.splits if_splits)
    with that ref Inr b show thesis by blast
  qed
qed

lemma apply_allocation_allocs:
  assumes "apply_allocation db p i amount ac fin now = Inr (db', aid, paid)"
  shows "db_allocs db' = db_allocs db @ [\<lparr>al_id = aid, al_payment = pay_id p, al_invoice = inv_id i,
      al_amount = amount, al_live = True\<rparr>]"
  using assms
proof (rule apply_allocation_result)
  fix mid
  assume mid: "insert_alloc db (pay_id p) (inv_id i) amount = Inr (mid, aid)"
    and db': "(db', paid) = (if fin then finalize_if_fully_paid mid i now else (mid, False))"
  from db' have "db_allocs db' = db_allocs mid"
    using finalize_frame(1) [of mid i now] by (metis fst_conv)
  with insert_alloc_result [OF mid] show ?thesis by simp
qed

lemma apply_allocation_inv [step_inv]:
  assumes "alloc_inv db" and "0 \<le> amount"
    and "apply_allocation db p i amount ac fin now = Inr (db', aid, paid)"
  shows "alloc_inv db'"
  using assms(3)
proof (rule apply_allocation_result)
  fix mid
  assume "insert_alloc db (pay_id p) (inv_id i) amount = Inr (mid, aid)"
    and db': "(db', paid) = (if fin then finalize_if_fully_paid mid i now else (mid, False))"
  then have "alloc_inv mid" using assms(1,2) by (auto intro: step_inv)
  with db' show ?thesis
    using finalize_frame(2) [of mid i now] by (metis fst_conv)
qed

lemma allocate_loop_inv:
  "alloc_inv db \<Longrightarrow> allocate_loop p now invs db rm es paid = Inr (db', es', paid', rm') \<Longrightarrow> alloc_inv db'"
proof (induction p now invs db rm es paid rule: allocate_loop.induct)
  case (2 p now i due rest db rm es paid)
  show ?case
  proof (cases "apply_allocation db p i (min rm (max 0 due)) False True now")
    case (Inl e)
    with 2 show ?thesis by (auto simp: Let_def split: if_splits)
  next
    case (Inr b)
    obtain mid aid bp where b: "b = (mid, aid, bp)" by (cases b) auto
    show ?thesis
    proof (cases "rm \<le> 0 \<or> due \<le> 0")
      case True
      with 2 show ?thesis by (auto simp: Let_def split: if_splits)
    next
      case False
      with 2(4) Inr b have "alloc_inv mid"
        by (auto dest: apply_allocation_inv [rotated 2])
      with 2 False Inr b show ?thesis by (auto simp: Let_def split: if_splits)
    qed
  qed
qed simp

lemma refresh_frame [simp]:
  "db_allocs (refresh_invoice_paid_status db i now) = db_allocs db"
  "alloc_inv (refresh_invoice_paid_status db i now) = alloc_inv db"
  by (simp_all add: refresh_invoice_paid_status_def split: option.splits)

lemma refresh_all_frame [simp]:
  "db_allocs (refresh_all db is now) = db_allocs db"
  "alloc_inv (refresh_all db is now) = alloc_inv db"
proof -
  have "db_allocs (fold (\<lambda>i d. refresh_invoice_paid_status d i now) is db) = db_allocs db \<and>
    alloc_inv (fold (\<lambda>i d. refresh_invoice_paid_status d i now) is db) = alloc_inv db"
    by (induction "is" arbitrary: db) simp_all
  then show "db_allocs (refresh_all db is now) = db_allocs db"
    "alloc_inv (refresh_all db is now) = alloc_inv db"
    by (simp_all add: refresh_all_def)
qed

lemma release_inv [step_inv]:
  "alloc_inv db \<Longrightarrow> release_invoice_allocations db i = Inr db' \<Longrightarrow> alloc_inv db'"
  unfolding release_invoice_allocations_def by (rule update_allocs_inv) simp_all

lemma reverse_inv [step_inv]:
  "alloc_inv db \<Longrightarrow> reverse_payment_allocations db p now = Inr db' \<Longrightarrow> alloc_inv db'"
  by (auto simp: reverse_payment_allocations_def Let_def bind_r_Inr_conv split: if_splits
      intro: update_allocs_inv [OF _ keeps_live])

lemma restore_inv [step_inv]:
  "alloc_inv db \<Longrightarrow> restore_payment_allocations db p now = Inr db' \<Longrightarrow> alloc_inv db'"
  by (auto simp: restore_payment_allocations_def Let_def bind_r_Inr_conv split: if_splits
      intro: update_allocs_inv [OF _ keeps_live])

text \<open>The allocation events; a refused one rolls back. The routes admit positive amounts only.\<close>

datatype alloc_event =
    Ev_apply payment_row invoice_row nat bool bool
  | Ev_auto payment_row nat "(invoice_row \<times> int) list"
  | Ev_release nat
  | Ev_reverse nat
  | Ev_restore nat

definition commit :: "'s \<Rightarrow> 'e + 's \<Rightarrow> 's" where
  "commit db r = (case r of Inl e \<Rightarrow> db | Inr db' \<Rightarrow> db')"

fun alloc_step :: "billing_db \<Rightarrow> alloc_event \<times> nat \<Rightarrow> billing_db" where
  "alloc_step db (Ev_apply p i amount ac fin, now) =
     commit db (map_sum id fst (apply_allocation db p i (int amount) ac fin now))"
| "alloc_step db (Ev_auto p amount invs, now) =
     commit db (map_sum id fst (allocate_across_invoices db p (int amount) invs now))"
| "alloc_step db (Ev_release i, now) = commit db (release_invoice_allocations db i)"
| "alloc_step db (Ev_reverse p, now) = commit db (reverse_payment_allocations db p now)"
| "alloc_step db (Ev_restore p, now) = commit db (restore_payment_allocations db p now)"

lemma alloc_step_inv: "alloc_inv db \<Longrightarrow> alloc_inv (alloc_step db e)"
proof (induction db e rule: alloc_step.induct)
  case (1 db p i amount ac fin now)
  then show ?case
    by (cases "apply_allocation db p i (int amount) ac fin now")
      (auto simp: commit_def dest: apply_allocation_inv [rotated 2])
next
  case (2 db p amount invs now)
  then show ?case
    by (cases "allocate_across_invoices db p (int amount) invs now")
      (auto simp: commit_def allocate_across_invoices_def intro: allocate_loop_inv)
qed (auto simp: commit_def split: sum.splits intro: step_inv)

interpretation alloc_sys: step_system alloc_step alloc_inv
  by unfold_locales (rule alloc_step_inv)

text \<open>C1: whatever sequence of allocations, automatic allocations, releases, payment deletions
  and payment restorations runs against the tables, no payment ever has more allocated than its
  amount, no invoice more than its total, and no payment two live allocations to one invoice.\<close>

theorem no_over_allocation:
  assumes "alloc_inv db" and "r \<in> set (db_allocs (foldl alloc_step db events))"
  defines "final \<equiv> foldl alloc_step db events"
  shows "within_cap (live_sum al_payment al_amount al_live (db_allocs final) (al_payment r))
      (payment_cap final (al_payment r)) \<and>
    within_cap (allocated final (al_invoice r)) (invoice_cap final (al_invoice r)) \<and>
    distinct (live_pairs (db_allocs final))"
proof -
  have "alloc_inv final"
    unfolding final_def by (rule alloc_sys.run_keeps [OF assms(1)])
  with assms(2) show ?thesis
    by (auto simp: alloc_inv_def rows_ok_def capped_def allocated_def final_def)
qed

section \<open>The waterfall of automatic allocation\<close>







lemma refusal_None:
  assumes "allocation_refusal p i any_client = None"
  shows "org_number (inv_org i) = org_number (pay_org p)"
    and "inv_status i \<in> {Inv_issued, Inv_sent, Inv_overdue}"
    and "any_client \<or> inv_client i = pay_client p"
    and "same_currency (pay_currency p) (inv_currency i)"
proof -
  note d = assms [unfolded allocation_refusal_def payable_statuses_def]
  from d show 1: "org_number (inv_org i) = org_number (pay_org p)" by (rule contrapos_pp) simp
  from d show 2: "inv_status i \<in> {Inv_issued, Inv_sent, Inv_overdue}" by (rule contrapos_pp) simp
  from d show 3: "any_client \<or> inv_client i = pay_client p" by (rule contrapos_pp) simp
  from d show "same_currency (pay_currency p) (inv_currency i)" by (rule contrapos_pp) simp
qed


text \<open>An allocation that goes through is between a payment and an invoice of the same
  organization and currency, of the same client unless group billing asked otherwise, the invoice
  is issued, sent or overdue, and exactly one row is added.\<close>

theorem apply_allocation_admitted:
  assumes "apply_allocation db p i amount any_client fin now = Inr (db', aid, paid)"
  shows "org_number (inv_org i) = org_number (pay_org p) \<and>
    inv_status i \<in> {Inv_issued, Inv_sent, Inv_overdue} \<and>
    (any_client \<or> inv_client i = pay_client p) \<and> same_currency (pay_currency p) (inv_currency i) \<and>
    db_allocs db' = db_allocs db @ [\<lparr>al_id = aid, al_payment = pay_id p, al_invoice = inv_id i,
      al_amount = amount, al_live = True\<rparr>]"
proof -
  have "allocation_refusal p i any_client = None"
    by (rule apply_allocation_result [OF assms])
  note refusal_None [OF this]
  with apply_allocation_allocs [OF assms] show ?thesis by blast
qed

text \<open>Marking an invoice paid is safe although the sums are floats: an invoice whose
  allocations and credit do not reach its total is never marked paid, and one that is covered by
  allocations alone, or more than covered, is.\<close>

theorem finalize_safe:
  assumes "money_range (allocated db (inv_id i))" and "money_range (credited db (inv_id i))"
    and "money_range (inv_total i)" and "finalize_if_fully_paid db i now = (db', became_paid)"
  shows "(covered db (inv_id i) < inv_total i \<longrightarrow> db' = db \<and> \<not> became_paid) \<and>
    (inv_total i < covered db (inv_id i) \<longrightarrow> became_paid) \<and>
    (credited db (inv_id i) = 0 \<and> inv_total i \<le> allocated db (inv_id i) \<longrightarrow> became_paid)"
proof -
  let ?a = "allocated db (inv_id i)" and ?c = "credited db (inv_id i)" and ?t = "inv_total i"
  have less: "?a + ?c \<noteq> ?t \<Longrightarrow>
      fl_add (num_of_cents ?a) (num_of_cents ?c) < num_of_cents ?t \<longleftrightarrow> ?a + ?c < ?t"
    using assms(1-3) by (rule fl_add_less_iff)
  have alone: "fl_add (num_of_cents ?a) (num_of_cents 0) = num_of_cents ?a"
    by (simp add: fl_add_def)
  show ?thesis
    using assms less alone
    by (auto simp: finalize_if_fully_paid_def covered_def Let_def split: if_splits)
qed

section \<open>Concrete tables\<close>

definition sample_invoice :: invoice_row where
  "sample_invoice = \<lparr>inv_id = 1, inv_org = Some 1, inv_client = 7, inv_contract = Some 4,
     inv_issue_date = 10, inv_total = 80, inv_currency = ''MXN'', inv_status = Inv_issued,
     inv_paid_at = None, inv_live = True\<rparr>"

definition sample_payment :: payment_row where
  "sample_payment = \<lparr>pay_id = 5, pay_org = Some 1, pay_client = 7, pay_amount = 100,
     pay_currency = ''mxn'', pay_status = Pay_completed\<rparr>"

definition sample_db :: billing_db where
  "sample_db = \<lparr>db_invoices = [sample_invoice], db_payments = [sample_payment], db_allocs = [],
     db_notes = [], db_capps = [], db_ledger = [], db_cfdi = []\<rparr>"

lemma sample_simps [simp]:
  "inv_id sample_invoice = 1" "inv_org sample_invoice = Some 1" "inv_client sample_invoice = 7"
  "inv_total sample_invoice = 80" "inv_currency sample_invoice = ''MXN''"
  "inv_status sample_invoice = Inv_issued" "inv_live sample_invoice = True"
  "pay_id sample_payment = 5" "pay_org sample_payment = Some 1" "pay_client sample_payment = 7"
  "pay_amount sample_payment = 100" "pay_currency sample_payment = ''mxn''"
  "db_invoices sample_db = [sample_invoice]" "db_payments sample_db = [sample_payment]"
  "db_allocs sample_db = []" "db_capps sample_db = []" "db_notes sample_db = []"
  by (simp_all add: sample_invoice_def sample_payment_def sample_db_def)

lemma sample_inv: "alloc_inv sample_db"
  by (simp add: alloc_inv_def rows_ok_def capped_def live_pairs_def)

lemma sample_apply:
  "apply_allocation sample_db sample_payment sample_invoice 30 False False now =
    Inr (sample_db\<lparr>db_allocs := [\<lparr>al_id = 1, al_payment = 5, al_invoice = 1, al_amount = 30,
      al_live = True\<rparr>]\<rparr>, 1, False)"
  by (simp add: apply_allocation_def allocation_refusal_def org_number_def payable_statuses_def
      same_currency_def upper_char_def char_of_eq_iff insert_alloc_def next_id_def alloc_payment_bi_def
      alloc_invoice_bi_def live_sum_def within_cap_def payment_cap_def invoice_cap_def)

theorem no_over_allocation_witness:
  "distinct (live_pairs (db_allocs (foldl alloc_step sample_db
     [(Ev_apply sample_payment sample_invoice 30 False False, 0)])))"
proof -
  let ?r = "\<lparr>al_id = 1, al_payment = 5, al_invoice = 1, al_amount = 30, al_live = True\<rparr>"
  have "?r \<in> set (db_allocs (foldl alloc_step sample_db
     [(Ev_apply sample_payment sample_invoice 30 False False, 0)]))"
    by (simp add: sample_apply commit_def)
  from no_over_allocation [OF sample_inv this] show ?thesis by simp
qed

theorem apply_allocation_admitted_witness:
  "org_number (inv_org sample_invoice) = org_number (pay_org sample_payment) \<and>
   same_currency ''mxn'' ''MXN''"
  using apply_allocation_admitted [OF sample_apply [of 0]] by simp



theorem finalize_safe_witness:
  "finalize_if_fully_paid sample_db sample_invoice 0 = (sample_db, False)"
proof -
  have a: "allocated sample_db (inv_id sample_invoice) = 0" "credited sample_db (inv_id sample_invoice) = 0"
    by (simp_all add: allocated_def credited_def live_sum_def)
  obtain db' b where r: "finalize_if_fully_paid sample_db sample_invoice 0 = (db', b)" by force
  have "money_range (inv_total sample_invoice)" "money_range 0" by (simp_all add: money_range_def)
  with finalize_safe [OF _ _ _ r] a have "db' = sample_db \<and> \<not> b" by (simp add: covered_def)
  with r show ?thesis by simp
qed

text \<open>The float sum loses one case: an 0.80 invoice covered by a 0.70 allocation and a 0.10
  credit application is exactly covered and is nevertheless not marked paid, because the floats
  0.7 and 0.1 add up to less than 0.8.\<close>

theorem finalize_credit_gap:
  "covered (sample_db\<lparr>db_allocs := [\<lparr>al_id = 1, al_payment = 5, al_invoice = 1, al_amount = 70,
       al_live = True\<rparr>], db_capps := [\<lparr>ca_id = 1, ca_note = 2, ca_invoice = 1, ca_amount = 10,
       ca_live = True\<rparr>]\<rparr>) 1 = inv_total sample_invoice \<and>
   snd (finalize_if_fully_paid (sample_db\<lparr>db_allocs := [\<lparr>al_id = 1, al_payment = 5, al_invoice = 1,
       al_amount = 70, al_live = True\<rparr>], db_capps := [\<lparr>ca_id = 1, ca_note = 2, ca_invoice = 1,
       ca_amount = 10, ca_live = True\<rparr>]\<rparr>) sample_invoice now) = False"
  using seventy_plus_ten_cents
  by (simp add: covered_def allocated_def credited_def live_sum_def finalize_if_fully_paid_def)

text \<open>Restoring a deleted payment revives every allocation it ever lost, not only the ones
  its deletion removed: an invoice cancelled at SAT, whose allocation was released then, is turned
  \<open>paid\<close> when the payment is deleted and restored.\<close>

theorem restore_revives_cancelled:
  "let i = sample_invoice\<lparr>inv_status := Inv_cancelled\<rparr>;
       db = sample_db\<lparr>db_invoices := [i], db_allocs := [\<lparr>al_id = 1, al_payment = 5, al_invoice = 1,
         al_amount = 80, al_live = False\<rparr>]\<rparr>
   in reverse_payment_allocations db 5 now = Inr db \<and>
      restore_payment_allocations db 5 now =
        Inr (db\<lparr>db_invoices := [mark_paid now i], db_allocs := [\<lparr>al_id = 1, al_payment = 5,
          al_invoice = 1, al_amount = 80, al_live = True\<rparr>]\<rparr>)"
  by (simp add: Let_def reverse_payment_allocations_def restore_payment_allocations_def
      update_allocs_def alloc_payment_bu_def alloc_invoice_bu_def live_sum_def within_cap_def
      payment_cap_def invoice_cap_def refresh_all_def refresh_invoice_paid_status_def covered_def
      allocated_def credited_def update_invoices_def upd_where_def money_range_def)

text \<open>Only a suspended, live contract of the caller's own organization and of the invoice's
  own client is ever handed to the reconnection service.\<close>

theorem reconnect_own_contract:
  assumes "reconnect_target contracts i org = Some c"
  shows "\<exists>k\<in>set contracts. ct_id k = c \<and> inv_contract i = Some c \<and> ct_org k = org \<and>
    ct_client k = inv_client i \<and> ct_status k = ''suspended'' \<and> ct_live k"
  using assms by (auto simp: reconnect_target_def find_Some_iff split: option.splits)

theorem reconnect_own_contract_witness:
  "\<exists>k\<in>set [\<lparr>ct_id = 4, ct_org = Some 1, ct_client = 7, ct_status = ''suspended'', ct_live = True\<rparr>].
     ct_client k = inv_client sample_invoice"
  using reconnect_own_contract [of "[\<lparr>ct_id = 4, ct_org = Some 1, ct_client = 7,
    ct_status = ''suspended'', ct_live = True\<rparr>]" sample_invoice "Some 1" 4]
  by (simp add: reconnect_target_def sample_invoice_def)

end
