(* ===== verification/Settlement.thy ===== *)
theory Settlement
  imports Allocation
begin

text \<open>
  Ending an invoice and applying credit notes: \<open>voidInvoiceById\<close>, \<open>cancelInvoiceForSat\<close> and
  \<open>settleInvoiceTerminal\<close> of \<open>src/services/billingService.js\<close>, and
  \<open>src/services/creditNoteApplicationService.js\<close>.

  Settlement runs outside a transaction: it returns the database as it stands, with the error that
  stopped it, if any. Credit application runs in its caller's transaction and returns a sum.
  Amounts the code computes with \<open>Number\<close> are floats; the lemmas show they come out as the exact
  cents.
\<close>

section \<open>Credit-note applications\<close>

definition posted :: "note_status \<Rightarrow> bool" where
  "posted s \<longleftrightarrow> s \<in> {Cn_issued, Cn_applied}"

definition creditable_statuses :: "invoice_status list" where
  "creditable_statuses = [Inv_issued, Inv_sent, Inv_overdue, Inv_paid]"

text \<open>The literal \<open>0.005\<close>, and a Number stored in a \<open>DECIMAL(10, 2)\<close> column.\<close>

definition half_cent :: rat where
  "half_cent = fl (1 / 200)"

definition store_decimal :: "rat \<Rightarrow> int" where
  "store_decimal x = \<lfloor>x * 100 + 1 / 2\<rfloor>"

definition update_note_status :: "billing_db \<Rightarrow> nat \<Rightarrow> note_status list \<Rightarrow> note_status \<Rightarrow>
    db_error + billing_db" where
  "update_note_status db n froms next =
     (case find (\<lambda>c. cn_id c = n) (db_notes db) of
        None \<Rightarrow> Inr db
      | Some c \<Rightarrow>
          (if cn_status c \<notin> set froms then Inr db
           else if \<not> note_cap_bu (opt_cap (invoice_cap db)) (db_notes db) c (c\<lparr>cn_status := next\<rparr>)
           then Inl Over_credit
           else Inr (db\<lparr>db_notes := upd_where (\<lambda>d. cn_id d = n) (cn_status_update (\<lambda>_. next)) (db_notes db)\<rparr>)))"

definition delete_capps :: "(capp_row \<Rightarrow> bool) \<Rightarrow> billing_db \<Rightarrow> billing_db" where
  "delete_capps P db = db\<lparr>db_capps := upd_where P (ca_live_update (\<lambda>_. False)) (db_capps db)\<rparr>"

definition insert_capp :: "billing_db \<Rightarrow> nat \<Rightarrow> nat \<Rightarrow> int \<Rightarrow> db_error + billing_db" where
  "insert_capp db n i amount =
     (if list_ex (\<lambda>c. ca_note c = n \<and> ca_live c) (db_capps db) then Inl Dup_entry
      else if \<not> list_ex (\<lambda>c. cn_id c = n) (db_notes db) \<or> invoice_cap db i = None then Inl No_parent
      else Inr (db\<lparr>db_capps := db_capps db @ [\<lparr>ca_id = next_id ca_id (db_capps db), ca_note = n,
        ca_invoice = i, ca_amount = amount, ca_live = True\<rparr>]\<rparr>))"

definition refresh_paid_status :: "billing_db \<Rightarrow> nat \<Rightarrow> nat \<Rightarrow> billing_db" where
  "refresh_paid_status db i now =
     (case find (\<lambda>v. inv_id v = i \<and> inv_live v) (db_invoices db) of
        None \<Rightarrow> db
      | Some v \<Rightarrow>
          (if fl_sub (num_of_cents (inv_total v)) half_cent \<le> num_of_cents (covered db i)
           then update_invoices (\<lambda>w. inv_id w = i \<and> inv_status w \<in> set payable_statuses) (mark_paid now) db
           else update_invoices (\<lambda>w. inv_id w = i \<and> inv_status w = Inv_paid) mark_issued db))"

text \<open>What the note should have applied, and to which invoice. \<open>current\<close> is its live application.\<close>

definition credit_target :: "billing_db \<Rightarrow> note_row \<Rightarrow> nat option \<Rightarrow> bool \<Rightarrow> capp_row option \<Rightarrow>
    rat \<times> nat option" where
  "credit_target db note org release current =
     (case cn_invoice note of
        None \<Rightarrow> (0, None)
      | Some iid \<Rightarrow>
          (if release \<or> \<not> cn_live note \<or> \<not> posted (cn_status note) then (0, Some iid)
           else (case find (\<lambda>v. inv_id v = iid \<and> inv_org v = org \<and> inv_client v = cn_client note \<and>
                   inv_live v \<and> inv_status v \<in> set creditable_statuses) (db_invoices db) of
                None \<Rightarrow> (0, None)
              | Some v \<Rightarrow>
                  (let own = (case current of
                         None \<Rightarrow> 0
                       | Some c \<Rightarrow> (if ca_invoice c = inv_id v then num_of_cents (ca_amount c) else 0));
                       owed = round2 (fl_add (fl_sub (num_of_cents (inv_total v))
                         (num_of_cents (covered db iid))) own)
                   in (max 0 (min (round2 (num_of_cents (cn_total note))) owed), Some iid)))))"

definition credit_unchanged :: "capp_row option \<Rightarrow> rat \<Rightarrow> nat option \<Rightarrow> bool" where
  "credit_unchanged current target iid =
     (case current of
        None \<Rightarrow> target < half_cent
      | Some c \<Rightarrow> \<bar>fl_sub (num_of_cents (ca_amount c)) target\<bar> < half_cent \<and> Some (ca_invoice c) = iid)"

definition opt_list :: "'a option \<Rightarrow> 'a list" where
  "opt_list x = (case x of None \<Rightarrow> [] | Some a \<Rightarrow> [a])"

definition rewrite_application :: "billing_db \<Rightarrow> note_row \<Rightarrow> capp_row option \<Rightarrow> rat \<Rightarrow> nat option \<Rightarrow>
    nat \<Rightarrow> db_error + billing_db" where
  "rewrite_application db note current target iid now =
     (let db1 = (case current of None \<Rightarrow> db | Some c \<Rightarrow> delete_capps (\<lambda>r. ca_id r = ca_id c) db)
      in bind_r (if half_cent \<le> target
                 then (case iid of None \<Rightarrow> Inl No_parent
                       | Some i \<Rightarrow> insert_capp db1 (cn_id note) i (store_decimal target))
                 else Inr db1)
           (\<lambda>db2. Inr (fold (\<lambda>i d. refresh_paid_status d i now)
              (remdups (opt_list (map_option ca_invoice current) @ opt_list iid)) db2)))"

definition next_note_status :: "note_row \<Rightarrow> rat \<Rightarrow> note_status" where
  "next_note_status note target =
     (if fl_sub (round2 (num_of_cents (cn_total note))) half_cent \<le> target \<and> half_cent \<le> target
      then Cn_applied else Cn_issued)"

definition live_application :: "billing_db \<Rightarrow> nat \<Rightarrow> capp_row option" where
  "live_application db n = find (\<lambda>c. ca_note c = n \<and> ca_live c) (db_capps db)"

definition sync_application :: "billing_db \<Rightarrow> note_row \<Rightarrow> nat option \<Rightarrow> bool \<Rightarrow> nat \<Rightarrow>
    db_error + billing_db \<times> rat" where
  "sync_application db note org release now =
     (let current = live_application db (cn_id note);
          (target, iid) = credit_target db note org release current
      in bind_r (if credit_unchanged current target iid then Inr db
                 else rewrite_application db note current target iid now)
           (\<lambda>db1.
             if posted (cn_status note) \<and> \<not> release \<and> cn_live note \<and>
                next_note_status note target \<noteq> cn_status note
             then bind_r (update_note_status db1 (cn_id note) [Cn_issued, Cn_applied]
                    (next_note_status note target)) (\<lambda>db2. Inr (db2, target))
             else Inr (db1, target)))"

definition release_for_invoice :: "billing_db \<Rightarrow> nat \<Rightarrow> billing_db \<times> db_error option" where
  "release_for_invoice db i =
     (let notes = map ca_note (filter (\<lambda>c. ca_invoice c = i \<and> ca_live c) (db_capps db))
      in if notes = [] then (db, None)
         else fold (\<lambda>n (d, err). case err of
                Some e \<Rightarrow> (d, Some e)
              | None \<Rightarrow> (case update_note_status d n [Cn_applied] Cn_issued of
                    Inl e \<Rightarrow> (d, Some e) | Inr d' \<Rightarrow> (d', None)))
              notes (delete_capps (\<lambda>c. ca_invoice c = i \<and> ca_live c) db, None))"

section \<open>Terminal settlement of an invoice\<close>

definition find_invoice_org :: "billing_db \<Rightarrow> nat \<Rightarrow> nat \<Rightarrow> invoice_row option" where
  "find_invoice_org db i org =
     find (\<lambda>v. inv_id v = i \<and> inv_org v = Some org \<and> inv_live v) (db_invoices db)"

definition invoice_entry :: "nat \<Rightarrow> nat \<Rightarrow> ledger_row \<Rightarrow> bool" where
  "invoice_entry i client l \<longleftrightarrow>
     lg_ref_type l = ''invoice'' \<and> lg_ref_id l = i \<and> lg_client l = client"

definition zero_invoice_ledger :: "nat \<Rightarrow> nat \<Rightarrow> billing_db \<Rightarrow> billing_db" where
  "zero_invoice_ledger i client db =
     (let kept = filter (\<lambda>l. \<not> (invoice_entry i client l \<and> lg_type l = Entry_credit)) (db_ledger db)
      in db\<lparr>db_ledger := upd_where (invoice_entry i client) (\<lambda>l. l\<lparr>lg_amount := 0, lg_debit := 0, lg_credit := 0\<rparr>) kept\<rparr>)"

definition settle_invoice_terminal :: "billing_db \<Rightarrow> nat \<Rightarrow> nat \<Rightarrow> invoice_status \<Rightarrow>
    invoice_status list \<Rightarrow> billing_db \<times> app_error option" where
  "settle_invoice_terminal db i org status forbid_from =
     (case find_invoice_org db i org of
        None \<Rightarrow> (db, Some (App_error 404 ''NOT_FOUND''))
      | Some existing \<Rightarrow>
          (if inv_status existing \<in> set forbid_from then (db, Some (App_error 422 ''INVOICE_CANCELLED''))
           else
             (let db1 = update_invoices (\<lambda>v. inv_id v = i \<and> inv_org v = Some org \<and> inv_live v)
                          (inv_status_update (\<lambda>_. status)) db
              in if inv_status existing \<in> {Inv_void, Inv_cancelled} then (db1, None)
                 else (case (if list_ex (\<lambda>r. al_invoice r = i \<and> al_live r) (db_allocs db1)
                             then release_invoice_allocations db1 i else Inr db1) of
                     Inl e \<Rightarrow> (db1, Some (Sql_error e))
                   | Inr db2 \<Rightarrow>
                       (case release_for_invoice db2 i of
                          (db3, Some e) \<Rightarrow> (db3, Some (Sql_error e))
                        | (db3, None) \<Rightarrow> (zero_invoice_ledger i (inv_client existing) db3, None))))))"

definition blocks_void :: "cfdi_row \<Rightarrow> bool" where
  "blocks_void c \<longleftrightarrow> cf_status c = Sat_draft \<or>
     cf_status c \<in> {Sat_vigente, Sat_cancel_pending} \<and> \<not> cf_sandbox c"

definition void_invoice_by_id :: "billing_db \<Rightarrow> nat \<Rightarrow> nat \<Rightarrow> billing_db \<times> app_error option" where
  "void_invoice_by_id db i org =
     (if list_ex (\<lambda>c. cf_invoice c = i \<and> cf_org c = org \<and> blocks_void c) (db_cfdi db)
      then (db, Some (App_error 422 ''INVOICE_STAMPED''))
      else if list_ex (\<lambda>r. al_invoice r = i \<and> al_live r \<and>
                list_ex (\<lambda>v. inv_id v = i \<and> inv_org v = Some org) (db_invoices db)) (db_allocs db)
      then (db, Some (App_error 422 ''INVOICE_HAS_PAYMENTS''))
      else settle_invoice_terminal db i org Inv_void [Inv_cancelled])"


section \<open>The floats come out as whole cents\<close>

lemma half_cent_near: "\<bar>half_cent - 1 / 200\<bar> \<le> 1 / 10000"
  unfolding half_cent_def by (rule fl_near) simp

lemma half_le_num: "money_range t \<Longrightarrow> half_cent \<le> num_of_cents t \<longleftrightarrow> 0 < t"
proof -
  assume "money_range t"
  then have n: "\<bar>num_of_cents t - of_int t / 100\<bar> \<le> 1 / 10000" by (rule num_near)
  consider "(1 :: rat) \<le> of_int t" "0 < t" | "(of_int t :: rat) \<le> 0" "\<not> 0 < t" by force
  then show ?thesis
    using n half_cent_near unfolding abs_le_iff by cases linarith+
qed

lemma sub_half_le_num:
  assumes "money_range a" and "money_range t"
  shows "fl_sub (num_of_cents a) half_cent \<le> num_of_cents t \<longleftrightarrow> a \<le> t"
proof -
  note na = num_near [OF assms(1)] and nt = num_near [OF assms(2)]
  have "\<bar>num_of_cents a - half_cent\<bar> \<le> 100000000000"
    using na cents_le [OF assms(1)] half_cent_near unfolding abs_le_iff by linarith
  then have f: "\<bar>fl_sub (num_of_cents a) half_cent - (num_of_cents a - half_cent)\<bar> \<le> 1 / 10000"
    unfolding fl_sub_def by (rule fl_near)
  have "(of_int a :: rat) \<le> of_int t \<and> a \<le> t \<or> of_int t + 1 \<le> (of_int a :: rat) \<and> \<not> a \<le> t"
  proof (cases "a \<le> t")
    case False
    then have "t + 1 \<le> a" by simp
    then have "(of_int (t + 1) :: rat) \<le> of_int a" unfolding of_int_le_iff .
    with False show ?thesis by simp
  qed simp
  then show ?thesis
    using f na nt half_cent_near unfolding abs_le_iff by (elim disjE conjE) linarith+
qed

lemma diff_less_half:
  assumes "money_range a" and "money_range t"
  shows "\<bar>fl_sub (num_of_cents a) (num_of_cents t)\<bar> < half_cent \<longleftrightarrow> a = t"
proof -
  have f: "\<bar>fl_sub (num_of_cents a) (num_of_cents t) - (of_int a / 100 - of_int t / 100)\<bar> \<le> 3 / 10000"
    using fl_add_near(2) [OF assms] by (simp add: diff_divide_distrib)
  consider "a = t" | "1 \<le> (of_int a :: rat) - of_int t" "a \<noteq> t" | "1 \<le> (of_int t :: rat) - of_int a" "a \<noteq> t"
  proof (cases a t rule: linorder_cases)
    case less
    then have "1 \<le> t - a" by simp
    then have "(1 :: rat) \<le> of_int (t - a)" by (metis of_int_1 of_int_le_iff)
    with less that(3) show ?thesis by simp
  next
    case greater
    then have "1 \<le> a - t" by simp
    then have "(1 :: rat) \<le> of_int (a - t)" by (metis of_int_1 of_int_le_iff)
    with greater that(2) show ?thesis by simp
  qed (use that in blast)
  then show ?thesis
  proof cases
    case 1
    with f half_cent_near show ?thesis unfolding abs_le_iff abs_less_iff by simp
  next
    case 2
    with f half_cent_near have "half_cent \<le> fl_sub (num_of_cents a) (num_of_cents t)"
      unfolding abs_le_iff by linarith
    with 2 show ?thesis by simp
  next
    case 3
    with f half_cent_near have "half_cent \<le> - fl_sub (num_of_cents a) (num_of_cents t)"
      unfolding abs_le_iff by linarith
    with 3 show ?thesis by simp
  qed
qed

lemma round2_owed:
  assumes "money_range a" and "money_range b" and "money_range c" and "money_range (a - b + c)"
  shows "round2 (fl_add (fl_sub (num_of_cents a) (num_of_cents b)) (num_of_cents c)) =
    num_of_cents (a - b + c)"
proof (rule round2_near [OF assms(4)])
  let ?d = "fl_sub (num_of_cents a) (num_of_cents b)"
  have d: "\<bar>?d - (of_int a / 100 - of_int b / 100)\<bar> \<le> 3 / 10000"
    using fl_add_near(2) [OF assms(1,2)] by (simp add: diff_divide_distrib)
  note c = num_near [OF assms(3)]
  have "\<bar>?d + num_of_cents c\<bar> \<le> 100000000000"
    using d c cents_le [OF assms(1)] cents_le [OF assms(2)] cents_le [OF assms(3)]
    unfolding abs_le_iff by linarith
  then have f: "\<bar>fl_add ?d (num_of_cents c) - (?d + num_of_cents c)\<bar> \<le> 1 / 10000"
    unfolding fl_add_def by (rule fl_near)
  show "\<bar>fl_add ?d (num_of_cents c) - of_int (a - b + c) / 100\<bar> \<le> 1 / 1000"
    using d c f unfolding abs_le_iff of_int_add of_int_diff add_divide_distrib diff_divide_distrib
    by linarith
qed

lemma num_min: "money_range a \<Longrightarrow> money_range b \<Longrightarrow> min (num_of_cents a) (num_of_cents b) = num_of_cents (min a b)"
  by (simp add: min_def)

lemma num_max0: "money_range a \<Longrightarrow> max 0 (num_of_cents a) = num_of_cents (max 0 a)"
  using num_of_cents_le_iff [of 0 a] by (simp add: max_def money_range_def)

lemma store_num: "money_range t \<Longrightarrow> store_decimal (num_of_cents t) = t"
proof -
  assume "money_range t"
  then have "\<bar>num_of_cents t - of_int t / 100\<bar> \<le> 1 / 10000" by (rule num_near)
  then show ?thesis
    unfolding store_decimal_def abs_le_iff by (intro floor_unique; linarith)
qed

section \<open>What a credit-note synchronisation leaves applied\<close>

text \<open>The target in cents: up to what the invoice owes apart from the note's own application.\<close>

definition credit_cents :: "billing_db \<Rightarrow> note_row \<Rightarrow> nat option \<Rightarrow> bool \<Rightarrow> capp_row option \<Rightarrow>
    int \<times> nat option" where
  "credit_cents db note org release current =
     (case cn_invoice note of
        None \<Rightarrow> (0, None)
      | Some iid \<Rightarrow>
          (if release \<or> \<not> cn_live note \<or> \<not> posted (cn_status note) then (0, Some iid)
           else (case find (\<lambda>v. inv_id v = iid \<and> inv_org v = org \<and> inv_client v = cn_client note \<and>
                   inv_live v \<and> inv_status v \<in> set creditable_statuses) (db_invoices db) of
                None \<Rightarrow> (0, None)
              | Some v \<Rightarrow>
                  (let own = (case current of None \<Rightarrow> 0
                        | Some c \<Rightarrow> (if ca_invoice c = inv_id v then ca_amount c else 0))
                   in (max 0 (min (cn_total note) (inv_total v - covered db iid + own)), Some iid)))))"

text \<open>The amounts a synchronisation computes with are in range.\<close>

definition credit_range :: "billing_db \<Rightarrow> note_row \<Rightarrow> capp_row option \<Rightarrow> bool" where
  "credit_range db note current \<longleftrightarrow>
     \<bar>cn_total note\<bar> \<le> 10 ^ 11 \<and>
     (\<forall>v\<in>set (db_invoices db). \<bar>inv_total v\<bar> \<le> 10 ^ 11 \<and> \<bar>covered db (inv_id v)\<bar> \<le> 10 ^ 11) \<and>
     (\<forall>c\<in>set (opt_list current). \<bar>ca_amount c\<bar> \<le> 10 ^ 11)"

lemma range11: "\<bar>x\<bar> \<le> 10 ^ 11 \<Longrightarrow> money_range x"
  by (simp add: money_range_def)

lemma credit_target_cents:
  assumes "credit_range db note current"
  shows "credit_target db note org release current =
    map_prod num_of_cents id (credit_cents db note org release current)"
    and "money_range (fst (credit_cents db note org release current))"
proof -
  have tot: "money_range (cn_total note)" using assms by (simp add: credit_range_def range11)
  have owed: "round2 (fl_add (fl_sub (num_of_cents (inv_total v)) (num_of_cents (covered db (inv_id v))))
      (num_of_cents x)) = num_of_cents (inv_total v - covered db (inv_id v) + x) \<and>
      money_range (inv_total v - covered db (inv_id v) + x)"
    if "v \<in> set (db_invoices db)" "\<bar>x\<bar> \<le> 10 ^ 11" for v x
  proof -
    have "\<bar>inv_total v\<bar> \<le> 10 ^ 11" "\<bar>covered db (inv_id v)\<bar> \<le> 10 ^ 11"
      using assms that(1) by (auto simp: credit_range_def)
    with that(2) have "money_range (inv_total v - covered db (inv_id v) + x)"
      "money_range (inv_total v)" "money_range (covered db (inv_id v))" "money_range x"
      by (simp_all add: money_range_def)
    with round2_owed show ?thesis by blast
  qed
  have own: "\<bar>case current of None \<Rightarrow> 0 | Some c \<Rightarrow> (if ca_invoice c = i then ca_amount c else 0)\<bar> \<le> 10 ^ 11"
    and own_num: "(case current of None \<Rightarrow> 0 | Some c \<Rightarrow>
        (if ca_invoice c = i then num_of_cents (ca_amount c) else 0)) =
      num_of_cents (case current of None \<Rightarrow> 0 | Some c \<Rightarrow> (if ca_invoice c = i then ca_amount c else 0))" for i
    using assms by (auto simp: credit_range_def opt_list_def split: option.splits)
  have mm: "max 0 (min (round2 (num_of_cents (cn_total note))) (num_of_cents y)) =
      num_of_cents (max 0 (min (cn_total note) y)) \<and> money_range (max 0 (min (cn_total note) y))"
    if "money_range y" for y
  proof -
    have "money_range (min (cn_total note) y)" "money_range (max 0 (min (cn_total note) y))"
      using that tot by (auto simp: money_range_def min_def max_def abs_le_iff)
    with that tot show ?thesis by (simp only: round2_num num_min num_max0 simp_thms)
  qed
  let ?Q = "\<lambda>iid v. inv_id v = iid \<and> inv_org v = org \<and> inv_client v = cn_client note \<and>
    inv_live v \<and> inv_status v \<in> set creditable_statuses"
  have "credit_target db note org release current =
      map_prod num_of_cents id (credit_cents db note org release current) \<and>
    money_range (fst (credit_cents db note org release current))"
  proof (cases "cn_invoice note")
    case None
    then show ?thesis by (simp add: credit_target_def credit_cents_def money_range_def)
  next
    case (Some iid)
    show ?thesis
    proof (cases "release \<or> \<not> cn_live note \<or> \<not> posted (cn_status note)")
      case True
      with Some show ?thesis by (simp add: credit_target_def credit_cents_def money_range_def)
    next
      case False
      show ?thesis
      proof (cases "find (?Q iid) (db_invoices db)")
        case None
        with False Some show ?thesis by (simp add: credit_target_def credit_cents_def money_range_def)
      next
        case inv: (Some v)
        then have v: "v \<in> set (db_invoices db)" "inv_id v = iid"
          by (auto simp: find_Some_iff)
        note o = owed [OF v(1) own [of "inv_id v"]]
        note m = mm [OF conjunct2 [OF o]]
        show ?thesis
          using False Some inv v(2) [symmetric] m
          unfolding credit_target_def credit_cents_def
          by (simp add: own_num Let_def conjunct1 [OF o])
      qed
    qed
  qed
  then show "credit_target db note org release current =
      map_prod num_of_cents id (credit_cents db note org release current)"
    and "money_range (fst (credit_cents db note org release current))" by blast+
qed

text \<open>One live application per note, each of a positive amount (the unique key, and the code
  never stores less than half a cent).\<close>

definition capps_ok :: "capp_row list \<Rightarrow> bool" where
  "capps_ok cs \<longleftrightarrow> distinct (map ca_id cs) \<and> (\<forall>c\<in>set cs. ca_live c \<longrightarrow> 0 < ca_amount c) \<and>
     distinct (map ca_note (filter ca_live cs))"

lemma refresh_paid_status_frame [simp]:
  "db_capps (refresh_paid_status db i now) = db_capps db"
  "db_allocs (refresh_paid_status db i now) = db_allocs db"
  "db_notes (refresh_paid_status db i now) = db_notes db"
  by (simp_all add: refresh_paid_status_def split: option.splits)

lemma refresh_paid_fold_frame [simp]:
  "db_capps (fold (\<lambda>i d. refresh_paid_status d i now) is db) = db_capps db"
  "db_allocs (fold (\<lambda>i d. refresh_paid_status d i now) is db) = db_allocs db"
  "db_notes (fold (\<lambda>i d. refresh_paid_status d i now) is db) = db_notes db"
  by (induction "is" arbitrary: db) simp_all

lemma update_note_frame:
  "update_note_status db n froms next = Inr db' \<Longrightarrow>
    db_capps db' = db_capps db \<and> db_allocs db' = db_allocs db \<and> db_invoices db' = db_invoices db"
  by (auto simp: update_note_status_def split: option.splits if_splits)

text \<open>The applications of a synchronisation: the note's live one replaced by the target.\<close>

definition without :: "capp_row option \<Rightarrow> capp_row list \<Rightarrow> capp_row list" where
  "without current cs = (case current of None \<Rightarrow> cs
     | Some c \<Rightarrow> upd_where (\<lambda>r. ca_id r = ca_id c) (ca_live_update (\<lambda>_. False)) cs)"

lemma rewrite_application_capps:
  assumes "rewrite_application db note current (num_of_cents t) iid now = Inr db'" and "money_range t"
  shows "db_allocs db' = db_allocs db"
    and "t \<le> 0 \<Longrightarrow> db_capps db' = without current (db_capps db)"
    and "0 < t \<Longrightarrow> \<exists>i k. iid = Some i \<and> k = next_id ca_id (without current (db_capps db)) \<and>
      db_capps db' = without current (db_capps db) @
        [\<lparr>ca_id = k, ca_note = cn_id note, ca_invoice = i, ca_amount = t, ca_live = True\<rparr>]"
proof -
  define db1 where "db1 = (case current of None \<Rightarrow> db | Some c \<Rightarrow> delete_capps (\<lambda>r. ca_id r = ca_id c) db)"
  have c1: "db_capps db1 = without current (db_capps db)" "db_allocs db1 = db_allocs db"
    by (simp_all add: db1_def without_def delete_capps_def split: option.splits)
  have h: "half_cent \<le> num_of_cents t \<longleftrightarrow> 0 < t" using assms(2) by (rule half_le_num)
  have s: "store_decimal (num_of_cents t) = t" using assms(2) by (rule store_num)
  note r = assms(1) [unfolded rewrite_application_def Let_def db1_def [symmetric] h s]
  show "db_allocs db' = db_allocs db"
    using r c1 by (auto simp: bind_r_Inr_conv insert_capp_def split: if_splits option.splits)
  show "t \<le> 0 \<Longrightarrow> db_capps db' = without current (db_capps db)"
    using r c1 by (auto simp: bind_r_Inr_conv)
  show "0 < t \<Longrightarrow> \<exists>i k. iid = Some i \<and> k = next_id ca_id (without current (db_capps db)) \<and>
      db_capps db' = without current (db_capps db) @
        [\<lparr>ca_id = k, ca_note = cn_id note, ca_invoice = i, ca_amount = t, ca_live = True\<rparr>]"
    using r c1 by (auto simp: bind_r_Inr_conv insert_capp_def split: if_splits option.splits)
qed

lemma sync_capps:
  assumes sync: "sync_application db note org release now = Inr (db', target)"
    and range: "credit_range db note (live_application db (cn_id note))"
    and cents: "credit_cents db note org release (live_application db (cn_id note)) = (t, iid)"
  shows "target = num_of_cents t" and "db_allocs db' = db_allocs db"
    and "db_capps db' = db_capps db \<and> credit_unchanged (live_application db (cn_id note)) (num_of_cents t) iid \<or>
      (t \<le> 0 \<and> db_capps db' = without (live_application db (cn_id note)) (db_capps db)) \<or>
      (\<exists>i k. iid = Some i \<and> k = next_id ca_id (without (live_application db (cn_id note)) (db_capps db)) \<and>
        0 < t \<and> db_capps db' = without (live_application db (cn_id note)) (db_capps db) @
        [\<lparr>ca_id = k, ca_note = cn_id note, ca_invoice = i, ca_amount = t, ca_live = True\<rparr>])"
proof -
  let ?cur = "live_application db (cn_id note)"
  have tg: "credit_target db note org release ?cur = (num_of_cents t, iid)" and mt: "money_range t"
    using credit_target_cents [OF range, of org release] cents by simp_all
  from sync obtain db1 where
    mid: "(if credit_unchanged ?cur (num_of_cents t) iid then Inr db
        else rewrite_application db note ?cur (num_of_cents t) iid now) = Inr db1"
    and fr: "db_capps db' = db_capps db1" "db_allocs db' = db_allocs db1"
    and tgt: "target = num_of_cents t"
    by (auto simp: sync_application_def Let_def tg bind_r_Inr_conv dest: update_note_frame
        split: if_splits)
  show "target = num_of_cents t" by (rule tgt)
  show "db_allocs db' = db_allocs db"
    using mid fr rewrite_application_capps(1) [OF _ mt] by (auto split: if_splits)
  show "db_capps db' = db_capps db \<and> credit_unchanged ?cur (num_of_cents t) iid \<or>
      (t \<le> 0 \<and> db_capps db' = without ?cur (db_capps db)) \<or>
      (\<exists>i k. iid = Some i \<and> k = next_id ca_id (without ?cur (db_capps db)) \<and>
        0 < t \<and> db_capps db' = without ?cur (db_capps db) @
        [\<lparr>ca_id = k, ca_note = cn_id note, ca_invoice = i, ca_amount = t, ca_live = True\<rparr>])"
    using mid fr rewrite_application_capps(2,3) [OF _ mt]
    by (cases "t \<le> 0") (auto split: if_splits)
qed

definition live_of :: "nat \<Rightarrow> capp_row list \<Rightarrow> capp_row list" where
  "live_of n cs = filter (\<lambda>c. ca_note c = n) (filter ca_live cs)"

definition live_others :: "nat \<Rightarrow> capp_row list \<Rightarrow> capp_row list" where
  "live_others n cs = filter (\<lambda>c. ca_note c \<noteq> n) (filter ca_live cs)"

lemma live_of_find:
  "distinct (map ca_note (filter ca_live cs)) \<Longrightarrow>
    live_of n cs = opt_list (find (\<lambda>c. ca_note c = n \<and> ca_live c) cs)"
proof (induction cs)
  case Nil
  then show ?case by (simp add: live_of_def opt_list_def)
next
  case (Cons c cs)
  show ?case
  proof (cases "ca_note c = n \<and> ca_live c")
    case True
    with Cons.prems have "\<forall>d\<in>set (filter ca_live cs). ca_note d \<noteq> n"
      by (auto simp del: filter_set) (metis (mono_tags, lifting) image_eqI mem_Collect_eq)
    then have "filter (\<lambda>c. ca_note c = n) (filter ca_live cs) = []" by (simp add: filter_empty_conv)
    with True show ?thesis by (simp add: live_of_def opt_list_def)
  next
    case False
    with Cons show ?thesis by (cases "ca_live c") (auto simp: live_of_def)
  qed
qed

lemma live_without:
  assumes "capps_ok cs"
  shows "filter ca_live (without (find (\<lambda>c. ca_note c = n \<and> ca_live c) cs) cs) = live_others n cs"
proof (cases "find (\<lambda>c. ca_note c = n \<and> ca_live c) cs")
  case None
  then have "\<forall>c\<in>set cs. ca_live c \<longrightarrow> ca_note c \<noteq> n" by (auto simp: find_None_iff)
  then have "filter (\<lambda>c. ca_note c \<noteq> n) (filter ca_live cs) = filter ca_live cs"
    by (induction cs) simp_all
  with None show ?thesis by (simp add: without_def live_others_def)
next
  case (Some c)
  then have c: "c \<in> set cs" "ca_note c = n" "ca_live c" by (auto simp: find_Some_iff)
  have same: "r = c" if "r \<in> set cs" "ca_id r = ca_id c" for r
    using assms that c(1) by (auto simp: capps_ok_def distinct_map inj_on_def)
  have sole: "r = c" if "r \<in> set cs" "ca_live r" "ca_note r = n" for r
    using assms that c by (auto simp: capps_ok_def distinct_map inj_on_def)
  have "filter ca_live (upd_where (\<lambda>r. ca_id r = ca_id c) (ca_live_update (\<lambda>_. False)) xs) =
      filter (\<lambda>r. ca_note r \<noteq> n) (filter ca_live xs)" if "set xs \<subseteq> set cs" for xs
    using that
  proof (induction xs)
    case (Cons r xs)
    then have r: "r \<in> set cs" and "set xs \<subseteq> set cs" by simp_all
    with Cons.IH have ih: "filter ca_live (upd_where (\<lambda>r. ca_id r = ca_id c) (ca_live_update (\<lambda>_. False)) xs) =
      filter (\<lambda>r. ca_note r \<noteq> n) (filter ca_live xs)" by simp
    show ?case
    proof (cases "ca_id r = ca_id c")
      case True
      with same [OF r] ih c show ?thesis by (simp add: upd_where_def)
    next
      case False
      with sole [OF r] ih show ?thesis by (cases "ca_live r") (auto simp: upd_where_def)
    qed
  qed (simp add: upd_where_def)
  with Some show ?thesis by (simp add: without_def live_others_def)
qed

lemma without_ids: "map ca_id (without current cs) = map ca_id cs"
  by (simp add: without_def upd_where_def comp_def if_distrib cong: if_cong split: option.splits)

lemma sync_exact:
  assumes ok: "capps_ok (db_capps db)"
    and range: "credit_range db note (live_application db (cn_id note))"
    and sync: "sync_application db note org release now = Inr (db', target)"
    and cents: "credit_cents db note org release (live_application db (cn_id note)) = (t, iid)"
  shows "target = num_of_cents t \<and> 0 \<le> t \<and>
    map (\<lambda>c. (Some (ca_invoice c), ca_amount c)) (live_of (cn_id note) (db_capps db')) =
      (if t = 0 then [] else [(iid, t)]) \<and>
    live_others (cn_id note) (db_capps db') = live_others (cn_id note) (db_capps db) \<and>
    capps_ok (db_capps db')"
proof -
  let ?n = "cn_id note" and ?cs = "db_capps db"
  let ?cur = "live_application db ?n"
  have t0: "0 \<le> t"
    using cents by (auto simp: credit_cents_def Let_def split: option.splits if_splits)
  have mt: "money_range t" using credit_target_cents(2) [OF range, of org release] cents by simp
  note cases = sync_capps [OF sync range cents]
  have old: "live_of ?n ?cs = opt_list ?cur"
    using ok live_of_find [of ?cs ?n] by (simp add: capps_ok_def live_application_def)
  have wo: "filter ca_live (without ?cur ?cs) = live_others ?n ?cs"
    using live_without [OF ok, of ?n] by (simp add: live_application_def)
  then have wo_of: "live_of ?n (without ?cur ?cs) = []"
    and wo_oth: "live_others ?n (without ?cur ?cs) = live_others ?n ?cs"
    by (simp_all add: live_of_def live_others_def)
  have wo_pos: "\<forall>c\<in>set (without ?cur ?cs). ca_live c \<longrightarrow> 0 < ca_amount c"
  proof -
    have "set (filter ca_live (without ?cur ?cs)) \<subseteq> set (filter ca_live ?cs)"
      by (auto simp: wo live_others_def)
    with ok show ?thesis by (auto simp: capps_ok_def)
  qed
  have wo_dist: "distinct (map ca_note (filter ca_live (without ?cur ?cs)))"
    using ok unfolding wo live_others_def capps_ok_def
    by (metis distinct_map_filter)
  have wo_ok: "capps_ok (without ?cur ?cs)"
    using ok wo_pos wo_dist by (simp add: capps_ok_def without_ids)
  from cases(3) consider
      (same) "db_capps db' = ?cs" "credit_unchanged ?cur (num_of_cents t) iid"
    | (gone) "t \<le> 0" "db_capps db' = without ?cur ?cs"
    | (new) i k where "iid = Some i" "0 < t" "k = next_id ca_id (without ?cur ?cs)"
        "db_capps db' = without ?cur ?cs @
          [\<lparr>ca_id = k, ca_note = ?n, ca_invoice = i, ca_amount = t, ca_live = True\<rparr>]"
    by blast
  then show ?thesis
  proof cases
    case same
    have "map (\<lambda>c. (Some (ca_invoice c), ca_amount c)) (opt_list ?cur) = (if t = 0 then [] else [(iid, t)])"
    proof (cases ?cur)
      case None
      with same(2) half_le_num [OF mt] t0 show ?thesis
        by (simp add: credit_unchanged_def opt_list_def not_le [symmetric])
    next
      case (Some c)
      then have "c \<in> set ?cs" "ca_live c" by (auto simp: live_application_def find_Some_iff)
      with ok have "0 < ca_amount c" by (simp add: capps_ok_def)
      moreover have "money_range (ca_amount c)"
        using range Some by (simp add: credit_range_def opt_list_def range11)
      ultimately show ?thesis
        using same(2) Some diff_less_half [OF _ mt, of "ca_amount c"]
        by (simp add: credit_unchanged_def opt_list_def)
    qed
    with same cases(1) t0 ok old show ?thesis by simp
  next
    case gone
    with cases(1) t0 wo_of wo_oth wo_ok show ?thesis by simp
  next
    case new
    let ?w = "\<lparr>ca_id = k, ca_note = ?n, ca_invoice = i, ca_amount = t, ca_live = True\<rparr>"
    have "k \<notin> ca_id ` set (without ?cur ?cs)"
      using next_id_fresh [of _ "without ?cur ?cs" ca_id] new(3) by force
    moreover have "?n \<notin> ca_note ` set (filter ca_live (without ?cur ?cs))"
      unfolding wo live_others_def by auto
    ultimately have "capps_ok (without ?cur ?cs @ [?w])"
      using wo_ok new(2) by (auto simp: capps_ok_def)
    moreover have "live_of ?n (without ?cur ?cs @ [?w]) = [?w]"
      using wo_of by (simp add: live_of_def)
    moreover have "live_others ?n (without ?cur ?cs @ [?w]) = live_others ?n ?cs"
      using wo_oth by (simp add: live_others_def)
    ultimately show ?thesis using new cases(1) t0 by simp
  qed
qed

definition credit_on :: "nat \<Rightarrow> (nat option \<times> int) list \<Rightarrow> int" where
  "credit_on j ps = sum_list (map snd (filter (\<lambda>p. fst p = Some j) ps))"

lemma credited_split:
  "credited db j = credit_on j (map (\<lambda>c. (Some (ca_invoice c), ca_amount c)) (live_of n (db_capps db))) +
     credit_on j (map (\<lambda>c. (Some (ca_invoice c), ca_amount c)) (live_others n (db_capps db)))"
proof -
  have "live_sum ca_invoice ca_amount ca_live cs j =
      credit_on j (map (\<lambda>c. (Some (ca_invoice c), ca_amount c)) (live_of n cs)) +
      credit_on j (map (\<lambda>c. (Some (ca_invoice c), ca_amount c)) (live_others n cs))" for cs
    by (induction cs) (auto simp: live_sum_def credit_on_def live_of_def live_others_def)
  then show ?thesis by (simp add: credited_def)
qed

text \<open>C20: synchronising a credit note leaves exactly the right credit applied, although it is
  computed with floats: nothing for a note that is released, deleted, a draft or cancelled, or
  whose invoice cannot take it; otherwise the smaller of the note's total and what the invoice
  owes apart from this note. The note has at most one live application, the applications of other
  notes are untouched, the amount returned is the amount stored, and no invoice becomes covered
  beyond its total by it.\<close>

theorem sync_application_exact:
  assumes ok: "capps_ok (db_capps db)" and ids: "distinct (map inv_id (db_invoices db))"
    and range: "credit_range db note (live_application db (cn_id note))"
    and sync: "sync_application db note org release now = Inr (db', target)"
    and cents: "credit_cents db note org release (live_application db (cn_id note)) = (t, iid)"
  shows "target = num_of_cents t \<and> 0 \<le> t \<and>
    map (\<lambda>c. (Some (ca_invoice c), ca_amount c)) (live_of (cn_id note) (db_capps db')) =
      (if t = 0 then [] else [(iid, t)]) \<and>
    live_others (cn_id note) (db_capps db') = live_others (cn_id note) (db_capps db) \<and>
    (\<forall>v\<in>set (db_invoices db). covered db' (inv_id v) \<le> max (inv_total v) (covered db (inv_id v)))"
proof -
  let ?n = "cn_id note" and ?cs = "db_capps db"
  let ?cur = "live_application db ?n"
  note ex = sync_exact [OF ok range sync cents]
  have old: "live_of ?n ?cs = opt_list ?cur"
    using ok live_of_find [of ?cs ?n] by (simp add: capps_ok_def live_application_def)
  define own where "own j = credit_on j (map (\<lambda>c. (Some (ca_invoice c), ca_amount c)) (opt_list ?cur))" for j
  have own0: "0 \<le> own j" for j
    using ok by (auto simp: own_def credit_on_def opt_list_def capps_ok_def live_application_def
        find_Some_iff split: option.splits dest!: nth_mem)
  have own_eq: "own j = (case ?cur of None \<Rightarrow> 0 | Some c \<Rightarrow> (if ca_invoice c = j then ca_amount c else 0))" for j
    by (simp add: own_def credit_on_def opt_list_def split: option.splits)
  have diff: "covered db' j = covered db j - own j + (if iid = Some j then t else 0)" for j
  proof -
    have "credit_on j (if t = 0 then [] else [(iid, t)]) = (if iid = Some j then t else 0)"
      by (simp add: credit_on_def)
    with ex old sync_capps(2) [OF sync range cents] show ?thesis
      unfolding covered_def allocated_def credited_split [of _ j ?n] own_def by simp
  qed
  have "covered db' (inv_id v) \<le> max (inv_total v) (covered db (inv_id v))"
    if v: "v \<in> set (db_invoices db)" for v
  proof (cases "iid = Some (inv_id v) \<and> t \<noteq> 0")
    case True
    with cents obtain w where w: "w \<in> set (db_invoices db)" "inv_id w = inv_id v"
      "t \<le> max 0 (inv_total w - covered db (inv_id v) + own (inv_id w))"
      unfolding own_eq
      by (auto simp: credit_cents_def Let_def find_Some_iff split: option.splits if_splits dest!: nth_mem)
    with ids v have "w = v" by (metis distinct_map inj_onD)
    with True w(3) diff [of "inv_id v"] own0 [of "inv_id v"] show ?thesis by (auto simp: max_def split: if_splits)
  next
    case False
    with diff [of "inv_id v"] own0 [of "inv_id v"] show ?thesis by (auto split: if_splits)
  qed
  with ex show ?thesis by blast
qed

section \<open>Settling an invoice\<close>












text \<open>A void never strips a payment off an invoice and never touches a stamped one. When the
  void of an open invoice succeeds there was no draft or valid CFDI and no live allocation; when
  there is one, the void is refused and nothing changes; a SAT-cancelled invoice keeps its status.\<close>

theorem void_guards:
  assumes "find_invoice_org db i org = Some v"
  shows "(snd (void_invoice_by_id db i org) = None \<longrightarrow>
      (\<forall>c\<in>set (db_cfdi db). cf_invoice c = i \<and> cf_org c = org \<longrightarrow> \<not> blocks_void c) \<and>
      (\<forall>r\<in>set (db_allocs db). al_invoice r = i \<longrightarrow> \<not> al_live r) \<and> inv_status v \<noteq> Inv_cancelled) \<and>
    ((\<exists>c\<in>set (db_cfdi db). cf_invoice c = i \<and> cf_org c = org \<and> blocks_void c) \<longrightarrow>
      void_invoice_by_id db i org = (db, Some (App_error 422 ''INVOICE_STAMPED''))) \<and>
    ((\<forall>c\<in>set (db_cfdi db). \<not> (cf_invoice c = i \<and> cf_org c = org \<and> blocks_void c)) \<longrightarrow>
      (\<exists>r\<in>set (db_allocs db). al_invoice r = i \<and> al_live r) \<longrightarrow>
      void_invoice_by_id db i org = (db, Some (App_error 422 ''INVOICE_HAS_PAYMENTS'')))"
proof -
  have "v \<in> set (db_invoices db)" "inv_id v = i" "inv_org v = Some org"
    using assms by (auto simp: find_invoice_org_def find_Some_iff)
  then have own: "list_ex (\<lambda>v. inv_id v = i \<and> inv_org v = Some org) (db_invoices db) = True"
    by (auto simp: list_ex_iff)
  have canc: "snd (settle_invoice_terminal db i org Inv_void [Inv_cancelled]) \<noteq> None"
    if "inv_status v = Inv_cancelled"
    using that assms by (simp add: settle_invoice_terminal_def)
  have "void_invoice_by_id db i org =
     (if list_ex (\<lambda>c. cf_invoice c = i \<and> cf_org c = org \<and> blocks_void c) (db_cfdi db)
      then (db, Some (App_error 422 ''INVOICE_STAMPED''))
      else if list_ex (\<lambda>r. al_invoice r = i \<and> al_live r) (db_allocs db)
      then (db, Some (App_error 422 ''INVOICE_HAS_PAYMENTS''))
      else settle_invoice_terminal db i org Inv_void [Inv_cancelled])"
    unfolding void_invoice_by_id_def own by simp
  then show ?thesis
    using canc by (auto simp: list_ex_iff split: if_splits)
qed

section \<open>Concrete tables\<close>

definition sample_note :: note_row where
  "sample_note = \<lparr>cn_id = 2, cn_client = 7, cn_invoice = Some 1, cn_total = 30, cn_status = Cn_issued,
     cn_live = True\<rparr>"

definition noted_db :: billing_db where
  "noted_db = sample_db\<lparr>db_notes := [sample_note]\<rparr>"

lemma sample_note_simps [simp]:
  "cn_id sample_note = 2" "cn_client sample_note = 7" "cn_invoice sample_note = Some 1"
  "cn_total sample_note = 30" "cn_status sample_note = Cn_issued" "cn_live sample_note = True"
  "db_notes noted_db = [sample_note]" "db_invoices noted_db = [sample_invoice]"
  "db_capps noted_db = []" "db_allocs noted_db = []" "db_payments noted_db = [sample_payment]"
  "live_application noted_db n = None" "covered noted_db i = 0"
  by (simp_all add: sample_note_def noted_db_def live_application_def covered_def allocated_def
      credited_def live_sum_def)

lemma sample_credit_range: "credit_range noted_db sample_note (live_application noted_db 2)"
  by (simp add: credit_range_def opt_list_def)

lemma sample_credit_cents:
  "credit_cents noted_db sample_note (Some 1) False (live_application noted_db 2) = (30, Some 1)"
  by (simp add: credit_cents_def posted_def creditable_statuses_def)

lemma small_range: "money_range 0" "money_range 30" "money_range 80"
  by (simp_all add: money_range_def)

lemma sample_sync:
  "\<exists>db'. sync_application noted_db sample_note (Some 1) False now = Inr (db', num_of_cents 30)"
proof -
  note h = half_le_num [OF small_range(2)] and s = store_num [OF small_range(2)]
  have t: "credit_target noted_db sample_note (Some 1) False None = (num_of_cents 30, Some 1)"
    using credit_target_cents(1) [OF sample_credit_range, of "Some 1" False] sample_credit_cents by simp
  have u: "\<not> credit_unchanged None (num_of_cents 30) (Some 1)"
    using h by (simp add: credit_unchanged_def not_less)
  have n: "next_note_status sample_note (num_of_cents 30) = Cn_applied"
    using h sub_half_le_num [OF small_range(2) small_range(2)]
    by (simp add: next_note_status_def small_range)
  define d where "d = noted_db\<lparr>db_capps := [\<lparr>ca_id = 1, ca_note = 2, ca_invoice = 1, ca_amount = 30,
    ca_live = True\<rparr>]\<rparr>"
  have r: "rewrite_application noted_db sample_note None (num_of_cents 30) (Some 1) now =
      Inr (refresh_paid_status d 1 now)"
    using h s by (simp add: rewrite_application_def insert_capp_def next_id_def opt_list_def
        invoice_cap_def d_def)
  have "invoice_cap (refresh_paid_status d 1 now) = invoice_cap d"
    by (simp add: refresh_paid_status_def split: option.splits)
  moreover have "db_notes d = [sample_note]" by (simp add: d_def)
  moreover have "invoice_cap d 1 = Some 80" by (simp add: d_def invoice_cap_def)
  ultimately have "\<exists>db'. update_note_status (refresh_paid_status d 1 now) 2 [Cn_issued, Cn_applied] Cn_applied = Inr db'"
    by (simp add: update_note_status_def note_cap_bu_def opt_cap_def within_cap_def live_sum_def)
  then show ?thesis
    by (auto simp: sync_application_def t u n r posted_def simp del: One_nat_def)
qed

theorem sync_application_exact_witness:
  "\<exists>db'. sync_application noted_db sample_note (Some 1) False 0 = Inr (db', num_of_cents 30) \<and>
    map (\<lambda>c. (Some (ca_invoice c), ca_amount c)) (live_of 2 (db_capps db')) = [(Some 1, 30)]"
proof -
  obtain db' where s: "sync_application noted_db sample_note (Some 1) False 0 = Inr (db', num_of_cents 30)"
    using sample_sync by blast
  have "capps_ok (db_capps noted_db)" "distinct (map inv_id (db_invoices noted_db))"
    by (simp_all add: capps_ok_def)
  from sync_application_exact [OF this, of sample_note "Some 1" False 0 db' "num_of_cents 30" 30 "Some 1"]
    s sample_credit_range sample_credit_cents show ?thesis by auto
qed



theorem void_guards_witness:
  "void_invoice_by_id (noted_db\<lparr>db_cfdi := [\<lparr>cf_invoice = 1, cf_org = 1, cf_status = Sat_vigente,
     cf_sandbox = False\<rparr>]\<rparr>) 1 1 =
   (noted_db\<lparr>db_cfdi := [\<lparr>cf_invoice = 1, cf_org = 1, cf_status = Sat_vigente, cf_sandbox = False\<rparr>]\<rparr>,
     Some (App_error 422 ''INVOICE_STAMPED''))"
  using void_guards [of "noted_db\<lparr>db_cfdi := [\<lparr>cf_invoice = 1, cf_org = 1, cf_status = Sat_vigente,
     cf_sandbox = False\<rparr>]\<rparr>" 1 1 sample_invoice]
  by (simp add: find_invoice_org_def blocks_void_def)

end
