(* ===== verification/Outbox.thy ===== *)
theory Outbox
  imports Vb_Prelude "HOL-Library.Multiset"
begin

text \<open>
  The message outbox: \<open>src/services/messageOutbox.js\<close> over the table \<open>message_outbox\<close>.

  A row is a record; time is in seconds; \<open>claimed_at IS NULL\<close> and the other nullable columns are
  options. A statement is an atomic function on the row or the table, so interleavings of workers
  are sequences of statements. \<open>outbox_step\<close> is the step relation of one row with any number of
  workers between their statements, each of which may stop at any point; \<open>deliver_row\<close>,
  \<open>process_current_queue\<close> and the staff operations are the handlers run to their end.

  The delivery state of the owning organization, the verdict of the client's communication
  preferences and the transports are arguments. \<open>unsent\<close> and \<open>skipped\<close> in a transport's result
  promise that the provider was not reached.
\<close>

section \<open>Rows\<close>

datatype channel = Ch_email | Ch_sms | Ch_whatsapp | Ch_push

datatype ob_status = Ob_queued | Ob_claimed | Ob_sending | Ob_sent | Ob_skipped | Ob_failed
  | Ob_unknown | Ob_cancelled

datatype message_class = Mc_marketing | Mc_transactional | Mc_security | Mc_support_reply

record outbox_row =
  ob_id :: nat
  ob_org :: "nat option"
  ob_org_epoch :: nat
  ob_client :: "nat option"
  ob_contact_epoch :: nat
  ob_channel :: channel
  ob_class :: "message_class option"
  ob_priority :: nat
  ob_recipient :: "string option"
  ob_subject :: "string option"
  ob_text :: "string option"
  ob_html :: "string option"
  ob_payload :: "string option"
  ob_sensitive :: bool
  ob_source_type :: "string option"
  ob_source_id :: "nat option"
  ob_dedupe :: "string option"
  ob_status :: ob_status
  ob_attempts :: nat
  ob_max :: nat
  ob_next_at :: nat
  ob_claimed_at :: "nat option"
  ob_sent_at :: "nat option"
  ob_provider_id :: "string option"
  ob_code :: "string option"

datatype outcome = Out_sent | Out_skipped | Out_retry | Out_failed | Out_unknown

record delivery =
  dl_outcome :: outcome
  dl_provider_id :: "string option"
  dl_code :: "string option"

record send_result =
  sr_success :: bool
  sr_skipped :: bool
  sr_unsent :: bool
  sr_permanent :: bool
  sr_message_id :: "string option"
  sr_code :: "string option"

record owner_state =
  ow_active :: bool
  ow_epoch :: nat

datatype ob_error = Validation string | App nat string | Not_found

record message =
  ms_channel :: channel
  ms_org :: "nat option"
  ms_client :: "nat option"
  ms_class :: "message_class option"
  ms_recipient :: "string option"
  ms_subject :: "string option"
  ms_text :: "string option"
  ms_html :: "string option"
  ms_payload :: "string option"
  ms_event_type :: "string option"
  ms_source_type :: "string option"
  ms_source_id :: "nat option"
  ms_dedupe :: "string option"
  ms_max :: "nat option"
  ms_sensitive :: bool

datatype enqueue_result = Enqueued nat | Enqueue_duplicate bool "nat option" | Enqueue_skipped string nat

record totals =
  tt_sent :: nat
  tt_skipped :: nat
  tt_retried :: nat
  tt_failed :: nat
  tt_unknown :: nat
  tt_deferred :: nat
  tt_total :: nat

datatype worker = W_claimed nat | W_skipping nat | W_sending nat

record outbox_sys =
  os_row :: outbox_row
  os_workers :: "worker multiset"
  os_reached :: nat
  os_retries :: nat

section \<open>Constants\<close>

definition backoff_table :: "nat list" where
  "backoff_table = [1, 5, 15, 60, 240]"

definition claim_stale :: nat where "claim_stale = 5 * 60"
definition sending_stale :: nat where "sending_stale = 15 * 60"
definition batch_size :: nat where "batch_size = 100"

fun priority :: "message_class option \<Rightarrow> nat" where
  "priority (Some Mc_security) = 1"
| "priority (Some Mc_transactional) = 3"
| "priority (Some Mc_support_reply) = 4"
| "priority (Some Mc_marketing) = 8"
| "priority None = 2"

text \<open>\<open>OUTBOX_RATE_<CHANNEL>_PER_MINUTE\<close> parsed by \<open>parseInt\<close>, or the default.\<close>

fun default_rate :: "channel \<Rightarrow> nat" where
  "default_rate Ch_email = 120"
| "default_rate Ch_sms = 30"
| "default_rate Ch_whatsapp = 30"
| "default_rate Ch_push = 300"

definition rate_limit :: "(channel \<Rightarrow> string) \<Rightarrow> channel \<Rightarrow> nat" where
  "rate_limit env c = (case parse_int10 (env c) of
     Some n \<Rightarrow> (if 0 < n \<and> n \<le> 2 ^ 53 - 1 then nat n else default_rate c)
   | None \<Rightarrow> default_rate c)"

definition retryable_from :: "ob_status list" where
  "retryable_from = [Ob_failed, Ob_unknown, Ob_cancelled]"

definition cancellable_from :: "ob_status list" where
  "cancellable_from = [Ob_queued, Ob_failed, Ob_unknown]"

section \<open>Enqueue\<close>

definition truthy :: "string option \<Rightarrow> bool" where
  "truthy s \<longleftrightarrow> s \<noteq> None \<and> s \<noteq> Some []"

definition validate :: "message \<Rightarrow> ob_error option" where
  "validate m =
     (let has_client = (ms_client m \<noteq> None) in
      if has_client \<and> ms_org m = None then Some (Validation ''A client message needs its organization'')
      else if has_client \<and> ms_class m = None then Some (Validation ''messageClass must be one of'')
      else if \<not> has_client \<and> ms_class m \<noteq> None
      then Some (Validation ''An operational message has no messageClass'')
      else if ms_channel m = Ch_push \<and> \<not> has_client then Some (Validation ''A push message is for a client'')
      else if ms_channel m = Ch_push \<and> \<not> truthy (ms_event_type m)
      then Some (Validation ''A push message needs payload.event_type'')
      else if ms_channel m \<noteq> Ch_push \<and> \<not> truthy (ms_recipient m)
      then Some (Validation ''A message needs a recipient'')
      else if ms_channel m \<noteq> Ch_email \<and> ms_channel m \<noteq> Ch_push \<and> \<not> has_client
      then Some (Validation ''A message is for a client'')
      else if ms_channel m \<noteq> Ch_push \<and> \<not> truthy (ms_text m) \<and> \<not> truthy (ms_html m)
      then Some (Validation ''A message needs a body'')
      else None)"

definition org_inactive :: string where "org_inactive = ''ORGANIZATION_INACTIVE''"

text \<open>Status, block code and contact epoch at enqueue. \<open>pref\<close> is the verdict of the preferences:
  a block code or the client's contact epoch.\<close>

definition admission :: "message \<Rightarrow> owner_state \<Rightarrow> string + nat \<Rightarrow> ob_status \<times> string option \<times> nat" where
  "admission m owner pref =
     (if \<not> ow_active owner then (Ob_skipped, Some org_inactive, 0)
      else if ms_client m \<noteq> None \<and> ms_channel m \<noteq> Ch_push
      then (case pref of Inl code \<Rightarrow> (Ob_skipped, Some code, 0) | Inr epoch \<Rightarrow> (Ob_queued, None, epoch))
      else (Ob_queued, None, 0))"

definition new_row :: "message \<Rightarrow> owner_state \<Rightarrow> string + nat \<Rightarrow> nat \<Rightarrow> nat \<Rightarrow> outbox_row" where
  "new_row m owner pref rid now =
     (case admission m owner pref of (status, code, contact_epoch) \<Rightarrow>
      \<lparr>ob_id = rid, ob_org = ms_org m, ob_org_epoch = ow_epoch owner, ob_client = ms_client m,
       ob_contact_epoch = contact_epoch, ob_channel = ms_channel m, ob_class = ms_class m,
       ob_priority = priority (ms_class m), ob_recipient = ms_recipient m,
       ob_subject = (if truthy (ms_subject m) then map_option (take 500) (ms_subject m) else None),
       ob_text = ms_text m, ob_html = ms_html m, ob_payload = ms_payload m,
       ob_sensitive = ms_sensitive m, ob_source_type = ms_source_type m,
       ob_source_id = ms_source_id m, ob_dedupe = ms_dedupe m, ob_status = status, ob_attempts = 0,
       ob_max = (case ms_max m of Some n \<Rightarrow> (if n = 0 then length backoff_table else n)
                 | None \<Rightarrow> length backoff_table),
       ob_next_at = now, ob_claimed_at = None, ob_sent_at = None, ob_provider_id = None, ob_code = code\<rparr>)"

text \<open>\<open>INSERT IGNORE\<close>: a row whose \<open>dedupe_key\<close> is taken is not inserted (NULL keys never clash).\<close>

definition enqueue :: "outbox_row list \<Rightarrow> message \<Rightarrow> owner_state \<Rightarrow> string + nat \<Rightarrow> nat \<Rightarrow> nat \<Rightarrow>
    ob_error + outbox_row list \<times> enqueue_result" where
  "enqueue tbl m owner pref rid now =
     (case validate m of
        Some e \<Rightarrow> Inl e
      | None \<Rightarrow>
          (case (if ms_dedupe m = None then None else find (\<lambda>r. ob_dedupe r = ms_dedupe m) tbl) of
             Some r \<Rightarrow> Inr (tbl, Enqueue_duplicate (ob_status r \<noteq> Ob_skipped) (Some (ob_id r)))
           | None \<Rightarrow>
               (let row = new_row m owner pref rid now
                in Inr (tbl @ [row],
                     (if ob_status row = Ob_skipped
                      then Enqueue_skipped (case ob_code row of None \<Rightarrow> [] | Some c \<Rightarrow> c) rid
                      else Enqueued rid)))))"

section \<open>Channel adapters\<close>

definition email_permanent :: "string list" where
  "email_permanent = [''ORGANIZATION_INACTIVE'', ''CLIENT_ATTRIBUTION_REQUIRED'', ''UNSAFE_HOST'']"

definition email_adapter :: "send_result \<Rightarrow> delivery" where
  "email_adapter r =
     (if sr_success r then \<lparr>dl_outcome = Out_sent, dl_provider_id = sr_message_id r, dl_code = None\<rparr>
      else if sr_skipped r then \<lparr>dl_outcome = Out_skipped, dl_provider_id = None, dl_code = sr_code r\<rparr>
      else \<lparr>dl_outcome = (if \<exists>c\<in>set email_permanent. sr_code r = Some c then Out_failed else Out_retry),
            dl_provider_id = None, dl_code = sr_code r\<rparr>)"

definition sms_adapter :: "send_result \<Rightarrow> delivery" where
  "sms_adapter r =
     (if sr_success r then \<lparr>dl_outcome = Out_sent, dl_provider_id = sr_message_id r, dl_code = None\<rparr>
      else if sr_skipped r then \<lparr>dl_outcome = Out_skipped, dl_provider_id = None, dl_code = sr_code r\<rparr>
      else if sr_unsent r
      then \<lparr>dl_outcome = (if sr_permanent r then Out_failed else Out_retry), dl_provider_id = None,
            dl_code = sr_code r\<rparr>
      else \<lparr>dl_outcome = Out_unknown, dl_provider_id = None, dl_code = sr_code r\<rparr>)"

definition push_adapter :: "nat \<Rightarrow> nat \<Rightarrow> delivery" where
  "push_adapter sent failed =
     (if 0 < sent then \<lparr>dl_outcome = Out_sent, dl_provider_id = None, dl_code = None\<rparr>
      else if failed = 0
      then \<lparr>dl_outcome = Out_skipped, dl_provider_id = None, dl_code = Some ''NO_PUSH_SUBSCRIPTION''\<rparr>
      else \<lparr>dl_outcome = Out_retry, dl_provider_id = None, dl_code = Some ''PUSH_DELIVERY_FAILED''\<rparr>)"

text \<open>An adapter that throws may have reached the provider.\<close>

definition adapter_threw :: "string option \<Rightarrow> delivery" where
  "adapter_threw code = \<lparr>dl_outcome = Out_unknown, dl_provider_id = None,
     dl_code = Some (case code of None \<Rightarrow> ''DELIVERY_FAILED'' | Some c \<Rightarrow> c)\<rparr>"

section \<open>Statements of a delivery\<close>

definition backoff_minutes :: "nat \<Rightarrow> nat" where
  "backoff_minutes attempts = backoff_table ! (min (max attempts 1) (length backoff_table) - 1)"

definition claim_row :: "nat \<Rightarrow> outbox_row \<Rightarrow> outbox_row \<times> bool" where
  "claim_row now r =
     (if ob_status r = Ob_queued
      then (r\<lparr>ob_status := Ob_claimed, ob_claimed_at := Some now, ob_attempts := ob_attempts r + 1\<rparr>, True)
      else (r, False))"

definition start_sending :: "outbox_row \<Rightarrow> outbox_row \<times> bool" where
  "start_sending r =
     (if ob_status r = Ob_claimed then (r\<lparr>ob_status := Ob_sending\<rparr>, True) else (r, False))"

definition final_status :: "nat \<Rightarrow> nat \<Rightarrow> outcome \<Rightarrow> ob_status" where
  "final_status attempts limit out =
     (case out of
        Out_sent \<Rightarrow> Ob_sent
      | Out_skipped \<Rightarrow> Ob_skipped
      | Out_unknown \<Rightarrow> Ob_unknown
      | Out_retry \<Rightarrow> (if attempts < limit then Ob_queued else Ob_failed)
      | Out_failed \<Rightarrow> Ob_failed)"

definition clear_sensitive :: "outbox_row \<Rightarrow> outbox_row" where
  "clear_sensitive r =
     (if ob_sensitive r then r\<lparr>ob_text := None, ob_html := None, ob_payload := None\<rparr> else r)"

text \<open>\<open>attempts\<close> and \<open>limit\<close> are those of the worker's copy of the row.\<close>

definition finish_update :: "nat \<Rightarrow> nat \<Rightarrow> nat \<Rightarrow> delivery \<Rightarrow> outbox_row \<Rightarrow> outbox_row \<times> bool" where
  "finish_update now attempts limit d r =
     (let status = final_status attempts limit (dl_outcome d) in
      if ob_status r \<noteq> Ob_sending then (r, False)
      else (r\<lparr>ob_status := status,
              ob_sent_at := (if status = Ob_sent then Some now else ob_sent_at r),
              ob_next_at := (if status = Ob_queued then now + 60 * backoff_minutes attempts else ob_next_at r),
              ob_provider_id := dl_provider_id d,
              ob_code := (if status = Ob_sent then None else dl_code d),
              ob_claimed_at := None\<rparr>, True))"

definition finish :: "nat \<Rightarrow> nat \<Rightarrow> nat \<Rightarrow> delivery \<Rightarrow> outbox_row \<Rightarrow> outbox_row \<times> ob_status option" where
  "finish now attempts limit d r =
     (case finish_update now attempts limit d r of
        (r', False) \<Rightarrow> (r', None)
      | (r', True) \<Rightarrow>
          (let status = final_status attempts limit (dl_outcome d)
           in (if status \<noteq> Ob_queued then clear_sensitive r' else r', Some status)))"

definition owner_changed :: "owner_state \<Rightarrow> outbox_row \<Rightarrow> bool" where
  "owner_changed owner r \<longleftrightarrow> \<not> ow_active owner \<or> ow_epoch owner \<noteq> ob_org_epoch r"

definition org_skip :: delivery where
  "org_skip = \<lparr>dl_outcome = Out_skipped, dl_provider_id = None, dl_code = Some org_inactive\<rparr>"

text \<open>One delivery, run to its end: \<open>row\<close> is the copy the caller read, \<open>r\<close> the stored row. None is
  the status \<open>lost\<close>.\<close>

definition deliver_row :: "nat \<Rightarrow> owner_state \<Rightarrow> (outbox_row \<Rightarrow> delivery) \<Rightarrow> outbox_row \<Rightarrow>
    outbox_row \<Rightarrow> outbox_row \<times> ob_status option" where
  "deliver_row now owner adapter row r =
     (case claim_row now r of
        (r1, False) \<Rightarrow> (r1, None)
      | (r1, True) \<Rightarrow>
          (let attempts = ob_attempts row + 1; claimed = row\<lparr>ob_attempts := attempts\<rparr> in
           if owner_changed owner row
           then finish now attempts (ob_max row) org_skip (fst (start_sending r1))
           else (case start_sending r1 of
               (r2, False) \<Rightarrow> (r2, None)
             | (r2, True) \<Rightarrow> finish now attempts (ob_max row) (adapter claimed) r2)))"

definition requeue_stale :: "nat \<Rightarrow> outbox_row \<Rightarrow> outbox_row" where
  "requeue_stale now r =
     (if ob_status r = Ob_claimed \<and> (case ob_claimed_at r of None \<Rightarrow> False | Some t \<Rightarrow> t + claim_stale < now)
      then r\<lparr>ob_status := Ob_queued, ob_claimed_at := None\<rparr> else r)"

definition mark_stale_unknown :: "nat \<Rightarrow> outbox_row \<Rightarrow> outbox_row" where
  "mark_stale_unknown now r =
     (if ob_status r = Ob_sending \<and> (case ob_claimed_at r of None \<Rightarrow> False | Some t \<Rightarrow> t + sending_stale < now)
      then r\<lparr>ob_status := Ob_unknown, ob_code := Some ''DELIVERY_OUTCOME_UNKNOWN''\<rparr> else r)"

definition recover_stale :: "nat \<Rightarrow> outbox_row \<Rightarrow> outbox_row" where
  "recover_stale now r = mark_stale_unknown now (requeue_stale now r)"

section \<open>Staff operations\<close>

definition retry_update :: "nat \<Rightarrow> outbox_row \<Rightarrow> outbox_row" where
  "retry_update now r = r\<lparr>ob_status := Ob_queued, ob_attempts := 0, ob_next_at := now,
     ob_claimed_at := None, ob_code := None\<rparr>"

definition retry_refusal :: "bool \<Rightarrow> outbox_row \<Rightarrow> ob_error option" where
  "retry_refusal confirm r =
     (if ob_status r \<notin> set retryable_from then Some (App 409 ''OUTBOX_NOT_RETRYABLE'')
      else if ob_sensitive r then Some (App 409 ''OUTBOX_NOT_RETRYABLE'')
      else if ob_status r = Ob_unknown \<and> \<not> confirm then Some (App 409 ''OUTBOX_POSSIBLE_DUPLICATE'')
      else None)"

definition update_row :: "nat \<Rightarrow> (outbox_row \<Rightarrow> outbox_row) \<Rightarrow> outbox_row list \<Rightarrow> outbox_row list" where
  "update_row rid f tbl = map (\<lambda>r. if ob_id r = rid then f r else r) tbl"

text \<open>The staff view of a row: a message with a secret shows no body.\<close>

definition get :: "outbox_row list \<Rightarrow> nat \<Rightarrow> nat \<Rightarrow> ob_error + outbox_row" where
  "get tbl rid org =
     (case find (\<lambda>r. ob_id r = rid \<and> ob_org r = Some org) tbl of
        None \<Rightarrow> Inl Not_found
      | Some r \<Rightarrow> Inr (clear_sensitive r))"

definition retry :: "outbox_row list \<Rightarrow> nat \<Rightarrow> nat \<Rightarrow> bool \<Rightarrow> nat \<Rightarrow> ob_error + outbox_row list" where
  "retry tbl rid org confirm now =
     bind_r (get tbl rid org) (\<lambda>r.
       case retry_refusal confirm r of
         Some e \<Rightarrow> Inl e
       | None \<Rightarrow> Inr (update_row rid (retry_update now) tbl))"

definition cancel_update :: "outbox_row \<Rightarrow> outbox_row" where
  "cancel_update r = r\<lparr>ob_status := Ob_cancelled, ob_claimed_at := None\<rparr>"

definition cancel :: "outbox_row list \<Rightarrow> nat \<Rightarrow> nat \<Rightarrow> ob_error + outbox_row list" where
  "cancel tbl rid org =
     bind_r (get tbl rid org) (\<lambda>r.
       if ob_status r \<notin> set cancellable_from then Inl (App 409 ''OUTBOX_NOT_CANCELLABLE'')
       else Inr (update_row rid (\<lambda>r. clear_sensitive (cancel_update r)) tbl))"

definition from_source :: "nat \<Rightarrow> string \<Rightarrow> nat list \<Rightarrow> outbox_row \<Rightarrow> bool" where
  "from_source org src ids r \<longleftrightarrow> ob_org r = Some org \<and> ob_source_type r = Some src \<and>
     ob_status r = Ob_queued \<and> (case ob_source_id r of None \<Rightarrow> False | Some i \<Rightarrow> i \<in> set ids)"

definition cancel_queued_by_source :: "outbox_row list \<Rightarrow> nat \<Rightarrow> string \<Rightarrow> nat list \<Rightarrow>
    outbox_row list \<times> nat" where
  "cancel_queued_by_source tbl org src ids =
     (map (\<lambda>r. if from_source org src ids r then clear_sensitive (r\<lparr>ob_status := Ob_cancelled\<rparr>) else r) tbl,
      length (filter (from_source org src ids) tbl))"

section \<open>One pass over the queue\<close>

type_synonym rate_key = "nat option \<times> channel"

definition rate_key_of :: "outbox_row \<Rightarrow> rate_key" where
  "rate_key_of r = (ob_org r, ob_channel r)"

definition in_scope :: "nat option \<Rightarrow> nat list \<Rightarrow> outbox_row \<Rightarrow> bool" where
  "in_scope org excluded r \<longleftrightarrow>
     (case org of
        Some o' \<Rightarrow> ob_org r = Some o'
      | None \<Rightarrow> (case ob_org r of None \<Rightarrow> True | Some x \<Rightarrow> x \<notin> set excluded))"

definition due_rows :: "nat \<Rightarrow> (outbox_row \<Rightarrow> bool) \<Rightarrow> outbox_row list \<Rightarrow> outbox_row list" where
  "due_rows now scope tbl =
     take batch_size (sort_key ob_priority (sort_key ob_next_at (sort_key ob_id
       (filter (\<lambda>r. ob_status r = Ob_queued \<and> ob_next_at r \<le> now \<and> scope r) tbl))))"

definition sent_recently :: "nat \<Rightarrow> (outbox_row \<Rightarrow> bool) \<Rightarrow> outbox_row list \<Rightarrow> rate_key \<Rightarrow> nat" where
  "sent_recently now scope tbl k =
     length (filter (\<lambda>r. ob_status r = Ob_sent \<and>
       (case ob_sent_at r of None \<Rightarrow> False | Some t \<Rightarrow> now \<le> t + 60) \<and> scope r \<and> rate_key_of r = k) tbl)"

definition deliver_in :: "nat \<Rightarrow> (outbox_row \<Rightarrow> owner_state) \<Rightarrow> (outbox_row \<Rightarrow> delivery) \<Rightarrow> outbox_row \<Rightarrow>
    outbox_row list \<Rightarrow> outbox_row list \<times> ob_status option" where
  "deliver_in now owner adapter row tbl =
     (case find (\<lambda>r. ob_id r = ob_id row) tbl of
        None \<Rightarrow> (tbl, None)
      | Some r \<Rightarrow>
          (case deliver_row now (owner row) adapter row r of
             (r', st) \<Rightarrow> (update_row (ob_id row) (\<lambda>_. r') tbl, st)))"

definition defer_row :: "nat \<Rightarrow> outbox_row \<Rightarrow> outbox_row" where
  "defer_row now r = (if ob_status r = Ob_queued then r\<lparr>ob_next_at := now + 60\<rparr> else r)"

definition count_status :: "ob_status option \<Rightarrow> totals \<Rightarrow> totals" where
  "count_status st t =
     (case st of
        None \<Rightarrow> t
      | Some Ob_sent \<Rightarrow> t\<lparr>tt_sent := tt_sent t + 1\<rparr>
      | Some Ob_queued \<Rightarrow> t\<lparr>tt_retried := tt_retried t + 1\<rparr>
      | Some Ob_skipped \<Rightarrow> t\<lparr>tt_skipped := tt_skipped t + 1\<rparr>
      | Some Ob_failed \<Rightarrow> t\<lparr>tt_failed := tt_failed t + 1\<rparr>
      | Some Ob_unknown \<Rightarrow> t\<lparr>tt_unknown := tt_unknown t + 1\<rparr>
      | Some _ \<Rightarrow> t)"

fun process_loop :: "nat \<Rightarrow> (channel \<Rightarrow> nat) \<Rightarrow> (outbox_row \<Rightarrow> owner_state) \<Rightarrow> (outbox_row \<Rightarrow> delivery) \<Rightarrow>
    outbox_row list \<Rightarrow> outbox_row list \<Rightarrow> (rate_key \<Rightarrow> nat) \<Rightarrow> totals \<Rightarrow>
    outbox_row list \<times> (rate_key \<Rightarrow> nat) \<times> totals" where
  "process_loop now limit owner adapter [] tbl sent t = (tbl, sent, t)"
| "process_loop now limit owner adapter (row # due) tbl sent t =
     (if limit (ob_channel row) \<le> sent (rate_key_of row)
      then process_loop now limit owner adapter due (update_row (ob_id row) (defer_row now) tbl) sent
             (t\<lparr>tt_deferred := tt_deferred t + 1\<rparr>)
      else (case deliver_in now owner adapter row tbl of
          (tbl', st) \<Rightarrow>
            process_loop now limit owner adapter due tbl'
              (if st = Some Ob_sent then sent(rate_key_of row := sent (rate_key_of row) + 1) else sent)
              (count_status st t)))"

definition process_current_queue :: "nat \<Rightarrow> nat option \<Rightarrow> nat list \<Rightarrow> (channel \<Rightarrow> nat) \<Rightarrow>
    (outbox_row \<Rightarrow> owner_state) \<Rightarrow> (outbox_row \<Rightarrow> delivery) \<Rightarrow> outbox_row list \<Rightarrow>
    outbox_row list \<times> (rate_key \<Rightarrow> nat) \<times> totals" where
  "process_current_queue now org excluded limit owner adapter tbl0 =
     (let scope = in_scope org excluded;
          tbl = map (\<lambda>r. if scope r then recover_stale now r else r) tbl0;
          due = due_rows now scope tbl
      in process_loop now limit owner adapter due tbl (sent_recently now scope tbl)
           \<lparr>tt_sent = 0, tt_skipped = 0, tt_retried = 0, tt_failed = 0, tt_unknown = 0,
            tt_deferred = 0, tt_total = length due\<rparr>)"

definition deliver_now :: "nat \<Rightarrow> (outbox_row \<Rightarrow> owner_state) \<Rightarrow> (outbox_row \<Rightarrow> delivery) \<Rightarrow> nat \<Rightarrow>
    outbox_row list \<Rightarrow> outbox_row list \<times> ob_status option" where
  "deliver_now now owner adapter rid tbl =
     (case find (\<lambda>r. ob_id r = rid \<and> ob_status r = Ob_queued \<and> ob_next_at r \<le> now) tbl of
        None \<Rightarrow> (tbl, None)
      | Some row \<Rightarrow> deliver_in now owner adapter row tbl)"

definition send_now :: "outbox_row list \<Rightarrow> message \<Rightarrow> (outbox_row \<Rightarrow> owner_state) \<Rightarrow> owner_state \<Rightarrow>
    string + nat \<Rightarrow> (outbox_row \<Rightarrow> delivery) \<Rightarrow> nat \<Rightarrow> nat \<Rightarrow> ob_error + outbox_row list \<times> ob_status" where
  "send_now tbl m owner_of owner pref adapter rid now =
     bind_r (enqueue tbl m owner pref rid now) (\<lambda>(tbl1, res).
       case (case res of Enqueued i \<Rightarrow> Some (Some i) | Enqueue_duplicate True i \<Rightarrow> Some i | _ \<Rightarrow> None) of
         None \<Rightarrow> Inr (tbl1, Ob_skipped)
       | Some None \<Rightarrow> Inr (tbl1, Ob_queued)
       | Some (Some i) \<Rightarrow>
           (case find (\<lambda>r. ob_id r = i) tbl1 of
              None \<Rightarrow> Inr (tbl1, Ob_queued)
            | Some row \<Rightarrow>
                (if ob_status row \<noteq> Ob_queued then Inr (tbl1, ob_status row)
                 else (let tbl2 = fst (deliver_in now owner_of adapter row tbl1)
                       in Inr (tbl2, (case find (\<lambda>r. ob_id r = i) tbl2 of
                            None \<Rightarrow> Ob_queued | Some a \<Rightarrow> ob_status a))))))"

section \<open>Interleaved workers on one row\<close>

definition is_sending :: "worker \<Rightarrow> bool" where
  "is_sending w = (case w of W_sending _ \<Rightarrow> True | _ \<Rightarrow> False)"

definition flying :: "worker multiset \<Rightarrow> nat" where
  "flying W = size (filter_mset is_sending W)"

definition in_flight :: "outbox_sys \<Rightarrow> nat" where
  "in_flight s = flying (os_workers s)"

text \<open>Whether a statement can still lead to a provider call.\<close>

definition open_row :: "outbox_row \<Rightarrow> nat" where
  "open_row r = (if ob_status r \<in> {Ob_queued, Ob_claimed} then 1 else 0)"

text \<open>\<open>adapt\<close> is the channel's adapter. A worker between two statements is in \<open>os_workers\<close> with
  its own count of attempts; \<open>os_reached\<close> counts the provider calls that may have reached the
  provider, \<open>os_retries\<close> the staff retries.\<close>

inductive outbox_step :: "(send_result \<Rightarrow> delivery) \<Rightarrow> outbox_sys \<Rightarrow> outbox_sys \<Rightarrow> bool"
  for adapt where
  Claim: "claim_row now (os_row s) = (r, True) \<Longrightarrow>
    outbox_step adapt s (s\<lparr>os_row := r, os_workers := add_mset (W_claimed a) (os_workers s)\<rparr>)"
| Org_changed: "W_claimed a \<in># os_workers s \<Longrightarrow>
    outbox_step adapt s (s\<lparr>os_row := fst (start_sending (os_row s)),
      os_workers := add_mset (W_skipping a) (os_workers s - {#W_claimed a#})\<rparr>)"
| Start: "W_claimed a \<in># os_workers s \<Longrightarrow> start_sending (os_row s) = (r, True) \<Longrightarrow>
    outbox_step adapt s (s\<lparr>os_row := r,
      os_workers := add_mset (W_sending a) (os_workers s - {#W_claimed a#})\<rparr>)"
| Lost: "W_claimed a \<in># os_workers s \<Longrightarrow> start_sending (os_row s) = (r, False) \<Longrightarrow>
    outbox_step adapt s (s\<lparr>os_workers := os_workers s - {#W_claimed a#}\<rparr>)"
| Finish: "W_sending a \<in># os_workers s \<Longrightarrow> (sr_unsent sr \<or> sr_skipped sr) \<and> \<not> sr_success sr \<longrightarrow> \<not> reached \<Longrightarrow>
    outbox_step adapt s (s\<lparr>os_row := fst (finish now a limit (adapt sr) (os_row s)),
      os_workers := os_workers s - {#W_sending a#},
      os_reached := os_reached s + (if reached then 1 else 0)\<rparr>)"
| Threw: "W_sending a \<in># os_workers s \<Longrightarrow>
    outbox_step adapt s (s\<lparr>os_row := fst (finish now a limit (adapter_threw code) (os_row s)),
      os_workers := os_workers s - {#W_sending a#}, os_reached := os_reached s + 1\<rparr>)"
| Skip_finish: "W_skipping a \<in># os_workers s \<Longrightarrow>
    outbox_step adapt s (s\<lparr>os_row := fst (finish now a limit org_skip (os_row s)),
      os_workers := os_workers s - {#W_skipping a#}\<rparr>)"
| Crash: "w \<in># os_workers s \<Longrightarrow>
    outbox_step adapt s (s\<lparr>os_workers := os_workers s - {#w#},
      os_reached := os_reached s + (if is_sending w then 1 else 0)\<rparr>)"
| Recover: "outbox_step adapt s (s\<lparr>os_row := recover_stale now (os_row s)\<rparr>)"
| Defer: "outbox_step adapt s (s\<lparr>os_row := defer_row now (os_row s)\<rparr>)"
| Retry: "retry_refusal confirm (os_row s) = None \<Longrightarrow>
    outbox_step adapt s (s\<lparr>os_row := retry_update now (os_row s), os_retries := os_retries s + 1\<rparr>)"
| Cancel: "ob_status (os_row s) \<in> set cancellable_from \<Longrightarrow>
    outbox_step adapt s (s\<lparr>os_row := clear_sensitive (cancel_update (os_row s))\<rparr>)"
| Cancel_source: "ob_status (os_row s) = Ob_queued \<Longrightarrow>
    outbox_step adapt s (s\<lparr>os_row := clear_sensitive ((os_row s)\<lparr>ob_status := Ob_cancelled\<rparr>)\<rparr>)"

inductive_cases outbox_stepE: "outbox_step adapt s s'"

inductive outbox_reach :: "(send_result \<Rightarrow> delivery) \<Rightarrow> outbox_row \<Rightarrow> outbox_sys \<Rightarrow> bool"
  for adapt r0 where
  Init: "outbox_reach adapt r0 \<lparr>os_row = r0, os_workers = {#}, os_reached = 0, os_retries = 0\<rparr>"
| Step: "outbox_reach adapt r0 s \<Longrightarrow> outbox_step adapt s s' \<Longrightarrow> outbox_reach adapt r0 s'"

section \<open>At most once\<close>

lemma flying_simps [simp]:
  "flying {#} = 0"
  "flying (add_mset w W) = flying W + (if is_sending w then 1 else 0)"
  by (simp_all add: flying_def)

lemma flying_remove:
  assumes "w \<in># W"
  shows "flying W = flying (W - {#w#}) + (if is_sending w then 1 else 0)"
  using assms flying_simps(2) [of w "W - {#w#}"] by simp

lemma open_row_clear [simp]: "open_row (clear_sensitive r) = open_row r"
  by (simp add: open_row_def clear_sensitive_def)

lemma finish_open:
  "open_row (fst (finish now a limit d r)) \<le> open_row r + (if dl_outcome d = Out_retry then 1 else 0)"
proof (cases "ob_status r = Ob_sending")
  case False
  then show ?thesis by (simp add: finish_def finish_update_def Let_def)
next
  case True
  let ?st = "final_status a limit (dl_outcome d)"
  have "open_row (fst (finish now a limit d r)) = (if ?st \<in> {Ob_queued, Ob_claimed} then 1 else 0)"
    using True by (simp add: finish_def finish_update_def Let_def) (simp add: open_row_def)
  moreover have "?st \<in> {Ob_queued, Ob_claimed} \<Longrightarrow> dl_outcome d = Out_retry"
    by (auto simp: final_status_def split: outcome.splits if_splits)
  ultimately show ?thesis by auto
qed

lemma start_open:
  "start_sending r = (r', True) \<Longrightarrow> open_row r = 1 \<and> open_row r' = 0"
  "open_row (fst (start_sending r)) \<le> open_row r"
  by (auto simp: start_sending_def open_row_def split: if_splits)

lemma statement_open:
  "claim_row now r = (r', True) \<Longrightarrow> open_row r' = open_row r"
  "open_row (recover_stale now r) = open_row r"
  "open_row (defer_row now r) = open_row r"
  "open_row (retry_update now r) = 1"
  "open_row (cancel_update r) = 0"
  by (auto simp: claim_row_def recover_stale_def requeue_stale_def mark_stale_unknown_def defer_row_def
      retry_update_def cancel_update_def open_row_def split: if_splits option.splits)

lemma sms_retry_unsent: "dl_outcome (sms_adapter sr) = Out_retry \<Longrightarrow> sr_unsent sr \<and> \<not> sr_success sr"
  by (simp add: sms_adapter_def split: if_splits)

definition at_most_once_inv :: "outbox_sys \<Rightarrow> bool" where
  "at_most_once_inv s \<longleftrightarrow> os_reached s + in_flight s + open_row (os_row s) \<le> 1 + os_retries s"

lemma at_most_once_step [step_inv]:
  assumes "outbox_step sms_adapter s s'" and "at_most_once_inv s"
  shows "at_most_once_inv s'"
  using assms
proof (cases rule: outbox_step.cases)
  case (Claim now r a)
  with assms(2) show ?thesis
    by (simp add: at_most_once_inv_def in_flight_def is_sending_def statement_open(1))
next
  case (Org_changed a)
  with assms(2) flying_remove [of "W_claimed a" "os_workers s"] start_open(2) [of "os_row s"] show ?thesis
    by (simp add: at_most_once_inv_def in_flight_def is_sending_def)
next
  case (Start a r)
  with assms(2) flying_remove [of "W_claimed a" "os_workers s"] start_open(1) [of "os_row s" r] show ?thesis
    by (simp add: at_most_once_inv_def in_flight_def is_sending_def)
next
  case (Lost a r)
  with assms(2) flying_remove [of "W_claimed a" "os_workers s"] show ?thesis
    by (simp add: at_most_once_inv_def in_flight_def is_sending_def)
next
  case (Finish a sr reached now limit)
  have "open_row (fst (finish now a limit (sms_adapter sr) (os_row s))) + (if reached then 1 else 0)
      \<le> open_row (os_row s) + 1"
    using finish_open [of now a limit "sms_adapter sr" "os_row s"] sms_retry_unsent [of sr] Finish(3)
    by (cases "dl_outcome (sms_adapter sr) = Out_retry") auto
  with Finish assms(2) flying_remove [of "W_sending a" "os_workers s"] show ?thesis
    by (simp add: at_most_once_inv_def in_flight_def is_sending_def)
next
  case (Threw a now limit code)
  with assms(2) flying_remove [of "W_sending a" "os_workers s"]
    finish_open [of now a limit "adapter_threw code" "os_row s"] show ?thesis
    by (simp add: at_most_once_inv_def in_flight_def is_sending_def adapter_threw_def)
next
  case (Skip_finish a now limit)
  with assms(2) flying_remove [of "W_skipping a" "os_workers s"]
    finish_open [of now a limit org_skip "os_row s"] show ?thesis
    by (simp add: at_most_once_inv_def in_flight_def is_sending_def org_skip_def)
next
  case (Crash w)
  with assms(2) flying_remove [of w "os_workers s"] show ?thesis
    by (simp add: at_most_once_inv_def in_flight_def)
qed (simp_all add: at_most_once_inv_def in_flight_def statement_open, auto simp: open_row_def)

text \<open>C3: an SMS or WhatsApp message is sent at most once. However many workers claim a queued row,
  stop, are taken for dead and resume, and whatever the sweep and the staff do in between, the
  calls that may have reached the provider number at most one more than the staff retries.\<close>

theorem sms_at_most_once:
  assumes "outbox_reach sms_adapter r0 s" and "ob_status r0 = Ob_queued"
  shows "os_reached s + in_flight s \<le> 1 + os_retries s"
proof -
  have "at_most_once_inv s"
    using assms(1)
  proof (induction rule: outbox_reach.induct)
    case Init
    then show ?case using assms(2) by (simp add: at_most_once_inv_def in_flight_def open_row_def)
  next
    case (Step s s')
    then show ?case by (blast intro: at_most_once_step)
  qed
  then show ?thesis by (simp add: at_most_once_inv_def)
qed

section \<open>A delivery ends, and a message is settled\<close>

lemma deliver_not_queued:
  "ob_status r \<noteq> Ob_queued \<Longrightarrow> deliver_row now owner adapter row r = (r, None)"
  by (simp add: deliver_row_def claim_row_def)

lemma clear_fields [simp]:
  "ob_status (clear_sensitive r) = ob_status r" "ob_attempts (clear_sensitive r) = ob_attempts r"
  "ob_max (clear_sensitive r) = ob_max r" "ob_id (clear_sensitive r) = ob_id r"
  "ob_org (clear_sensitive r) = ob_org r" "ob_channel (clear_sensitive r) = ob_channel r"
  "ob_sensitive (clear_sensitive r) = ob_sensitive r" "ob_next_at (clear_sensitive r) = ob_next_at r"
  by (simp_all add: clear_sensitive_def)

text \<open>The delivery that decides: the organization's skip or the adapter's answer.\<close>

definition decided :: "owner_state \<Rightarrow> (outbox_row \<Rightarrow> delivery) \<Rightarrow> outbox_row \<Rightarrow> outcome" where
  "decided owner adapter r = dl_outcome
     (if owner_changed owner r then org_skip else adapter (r\<lparr>ob_attempts := ob_attempts r + 1\<rparr>))"

lemma deliver_queued:
  fixes owner adapter r
  defines "st \<equiv> final_status (ob_attempts r + 1) (ob_max r) (decided owner adapter r)"
  assumes "ob_status r = Ob_queued" and "deliver_row now owner adapter r r = (r', res)"
  shows "res = Some st" and "ob_status r' = st" and "ob_attempts r' = ob_attempts r + 1"
    and "ob_max r' = ob_max r" and "ob_sensitive r' = ob_sensitive r" and "ob_id r' = ob_id r"
    and "ob_org r' = ob_org r" and "ob_channel r' = ob_channel r"
    and "st = Ob_queued \<Longrightarrow> ob_next_at r' = now + 60 * backoff_minutes (ob_attempts r + 1)"
    and "st \<noteq> Ob_queued \<Longrightarrow> ob_sensitive r \<Longrightarrow> ob_text r' = None \<and> ob_html r' = None \<and> ob_payload r' = None"
proof -
  let ?d = "if owner_changed owner r then org_skip else adapter (r\<lparr>ob_attempts := ob_attempts r + 1\<rparr>)"
  let ?s = "r\<lparr>ob_claimed_at := Some now, ob_attempts := ob_attempts r + 1, ob_status := Ob_sending\<rparr>"
  have run: "deliver_row now owner adapter r r = finish now (ob_attempts r + 1) (ob_max r) ?d ?s"
    using assms(2) by (simp add: deliver_row_def claim_row_def start_sending_def Let_def)
  have st: "st = final_status (ob_attempts r + 1) (ob_max r) (dl_outcome ?d)"
    by (simp add: st_def decided_def)
  define u where "u = fst (finish_update now (ob_attempts r + 1) (ob_max r) ?d ?s)"
  have fu: "finish_update now (ob_attempts r + 1) (ob_max r) ?d ?s = (u, True)"
    by (simp add: u_def finish_update_def Let_def)
  have fields: "ob_status u = st" "ob_attempts u = ob_attempts r + 1" "ob_max u = ob_max r"
    "ob_sensitive u = ob_sensitive r" "ob_id u = ob_id r" "ob_org u = ob_org r"
    "ob_channel u = ob_channel r"
    "st = Ob_queued \<Longrightarrow> ob_next_at u = now + 60 * backoff_minutes (ob_attempts r + 1)"
    by (simp_all add: u_def finish_update_def Let_def st)
  have r': "r' = (if st \<noteq> Ob_queued then clear_sensitive u else u)" and res: "res = Some st"
    using assms(3) unfolding run finish_def fu st by (simp_all add: Let_def)
  show "res = Some st" by (rule res)
  show "ob_status r' = st" "ob_attempts r' = ob_attempts r + 1" "ob_max r' = ob_max r"
    "ob_sensitive r' = ob_sensitive r" "ob_id r' = ob_id r" "ob_org r' = ob_org r"
    "ob_channel r' = ob_channel r"
    "st = Ob_queued \<Longrightarrow> ob_next_at r' = now + 60 * backoff_minutes (ob_attempts r + 1)"
    using fields by (simp_all add: r')
  show "st \<noteq> Ob_queued \<Longrightarrow> ob_sensitive r \<Longrightarrow> ob_text r' = None \<and> ob_html r' = None \<and> ob_payload r' = None"
    using fields(4) by (simp add: r' clear_sensitive_def)
qed

lemma final_status_settled:
  "final_status a m out \<in> {Ob_queued, Ob_sent, Ob_skipped, Ob_failed, Ob_unknown}"
  "final_status a m out = Ob_queued \<Longrightarrow> a < m"
  by (auto simp: final_status_def split: outcome.splits if_splits)

definition settled :: "outbox_row \<Rightarrow> bool" where
  "settled r \<longleftrightarrow> ob_status r \<in> {Ob_sent, Ob_skipped, Ob_failed, Ob_unknown} \<and>
     (ob_sensitive r \<longrightarrow> ob_text r = None \<and> ob_html r = None \<and> ob_payload r = None)"

definition deliver_again :: "(outbox_row \<Rightarrow> owner_state) \<Rightarrow> (nat \<Rightarrow> outbox_row \<Rightarrow> delivery) \<Rightarrow> outbox_row \<Rightarrow>
    nat \<Rightarrow> outbox_row" where
  "deliver_again owner adapter r now = fst (deliver_row now (owner r) (adapter now) r r)"

lemma settled_stays: "settled r \<Longrightarrow> foldl (deliver_again owner adapter) r ts = r"
  by (induction ts) (auto simp: deliver_again_def settled_def deliver_not_queued)

lemma deliver_once:
  fixes owner adapter now r
  assumes "ob_status r = Ob_queued"
  defines "r' \<equiv> deliver_again owner adapter r now"
  shows "settled r' \<or> ob_status r' = Ob_queued \<and> ob_attempts r' = ob_attempts r + 1 \<and>
    ob_max r' = ob_max r \<and> ob_attempts r' < ob_max r"
proof -
  obtain x res where run: "deliver_row now (owner r) (adapter now) r r = (x, res)" by force
  have r': "r' = x" by (simp add: r'_def deliver_again_def run)
  note q = deliver_queued [OF assms(1) run]
  show ?thesis
  proof (cases "ob_status r' = Ob_queued")
    case True
    with q(2-4) final_status_settled(2) r' show ?thesis by (metis Suc_eq_plus1)
  next
    case False
    then have "settled r'"
      unfolding settled_def r'
      using q(2,5,10) final_status_settled(1) r' by (metis insertE insertCI)
    then show ?thesis ..
  qed
qed

text \<open>C25: a queued message is settled after at most as many deliveries as it has attempts left,
  whatever the transports answer: it ends sent, skipped, failed or of unknown outcome, later
  passes leave it alone, and a message that carries a secret no longer has a body.\<close>

theorem delivery_settles:
  assumes "ob_status r = Ob_queued" and "ob_attempts r < ob_max r"
    and "ob_max r - ob_attempts r \<le> length ts"
  shows "settled (foldl (deliver_again owner adapter) r ts)"
  using assms
proof (induction ts arbitrary: r)
  case (Cons now ts)
  let ?r' = "deliver_again owner adapter r now"
  from deliver_once [OF Cons.prems(1), of owner adapter now]
  consider "settled ?r'" | "ob_status ?r' = Ob_queued" "ob_attempts ?r' = ob_attempts r + 1"
    "ob_max ?r' = ob_max r" "ob_attempts ?r' < ob_max r" by blast
  then show ?case
  proof cases
    case 1
    then show ?thesis using settled_stays [of ?r' owner adapter ts] by simp
  next
    case 2
    have "settled (foldl (deliver_again owner adapter) ?r' ts)"
      using 2 Cons.prems(3) by (intro Cons.IH) simp_all
    then show ?thesis by simp
  qed
qed simp

lemma backoff_bounds: "1 \<le> backoff_minutes n \<and> backoff_minutes n \<le> 240"
proof -
  have "\<forall>k<5. 1 \<le> backoff_table ! k \<and> backoff_table ! k \<le> 240"
    by (simp add: backoff_table_def numeral_eq_Suc All_less_Suc)
  moreover have "min (max n 1) 5 - 1 < (5 :: nat)" by simp
  ultimately show ?thesis by (simp add: backoff_minutes_def backoff_table_def)
qed

section \<open>A secret left mid-delivery\<close>

definition sample_row :: outbox_row where
  "sample_row = \<lparr>ob_id = 1, ob_org = None, ob_org_epoch = 0, ob_client = None, ob_contact_epoch = 0,
     ob_channel = Ch_email, ob_class = None, ob_priority = 2, ob_recipient = Some ''a@b.c'',
     ob_subject = None, ob_text = Some ''reset code 123456'', ob_html = None, ob_payload = None,
     ob_sensitive = True, ob_source_type = None, ob_source_id = None, ob_dedupe = None,
     ob_status = Ob_queued, ob_attempts = 0, ob_max = 5, ob_next_at = 0, ob_claimed_at = None,
     ob_sent_at = None, ob_provider_id = None, ob_code = None\<rparr>"

text \<open>A secret-bearing message is meant to keep no body once it is final, but when a worker
  stops during the provider call the sweep makes the message \<open>outcome_unknown\<close> without clearing it:
  the secret stays in the table, and a retry, which would lead to a delivery that clears it, is
  refused.\<close>

theorem stale_sensitive_keeps_body:
  "let claimed = fst (claim_row 0 sample_row); sending = fst (start_sending claimed);
       swept = recover_stale 1000 sending
   in ob_status swept = Ob_unknown \<and> ob_sensitive swept \<and> ob_text swept = Some ''reset code 123456'' \<and>
      retry_refusal True swept = Some (App 409 ''OUTBOX_NOT_RETRYABLE'')"
  by (simp add: sample_row_def claim_row_def start_sending_def recover_stale_def requeue_stale_def
      mark_stale_unknown_def sending_stale_def retry_refusal_def retryable_from_def)

theorem delivery_settles_witness:
  "settled (foldl (deliver_again (\<lambda>_. \<lparr>ow_active = True, ow_epoch = 0\<rparr>) (\<lambda>_ _. push_adapter 0 3))
     sample_row [0, 60, 360, 1260, 4860])"
  by (rule delivery_settles) (simp_all add: sample_row_def)

theorem sms_at_most_once_witness:
  "\<exists>s. outbox_reach sms_adapter sample_row s \<and> in_flight s = 1 \<and> os_reached s + in_flight s \<le> 1 + os_retries s"
proof -
  let ?r = "sample_row\<lparr>ob_status := Ob_claimed, ob_claimed_at := Some 0, ob_attempts := 1\<rparr>"
  let ?s0 = "\<lparr>os_row = sample_row, os_workers = {#}, os_reached = 0, os_retries = 0\<rparr>"
  let ?s1 = "?s0\<lparr>os_row := ?r, os_workers := {#W_claimed 1#}\<rparr>"
  let ?s2 = "?s1\<lparr>os_row := ?r\<lparr>ob_status := Ob_sending\<rparr>, os_workers := {#W_sending 1#}\<rparr>"
  have "claim_row 0 (os_row ?s0) = (?r, True)" by (simp add: claim_row_def sample_row_def)
  from outbox_step.Claim [OF this, of sms_adapter 1] have 1: "outbox_step sms_adapter ?s0 ?s1" by simp
  have "start_sending (os_row ?s1) = (?r\<lparr>ob_status := Ob_sending\<rparr>, True)" by (simp add: start_sending_def)
  from outbox_step.Start [OF _ this, of 1 sms_adapter] have 2: "outbox_step sms_adapter ?s1 ?s2" by simp
  have reach: "outbox_reach sms_adapter sample_row ?s2"
    using 1 2 outbox_reach.intros [of sms_adapter sample_row] by blast
  have "ob_status sample_row = Ob_queued" by (simp add: sample_row_def)
  from sms_at_most_once [OF reach this] have "os_reached ?s2 + in_flight ?s2 \<le> 1 + os_retries ?s2" .
  moreover have "in_flight ?s2 = 1" by (simp add: in_flight_def is_sending_def)
  ultimately show ?thesis using reach by blast
qed

section \<open>The budget of a minute\<close>

definition n_sent :: "rate_key \<Rightarrow> outbox_row list \<Rightarrow> nat" where
  "n_sent k tbl = length (filter (\<lambda>r. ob_status r = Ob_sent \<and> rate_key_of r = k) tbl)"

definition sent_here :: "rate_key \<Rightarrow> outbox_row \<Rightarrow> nat" where
  "sent_here k r = (if ob_status r = Ob_sent \<and> rate_key_of r = k then 1 else 0)"

lemma finish_effect:
  "finish now a m d r = (r', st) \<Longrightarrow> ob_status r = Ob_sending \<Longrightarrow>
    ob_id r' = ob_id r \<and> rate_key_of r' = rate_key_of r \<and> st = Some (ob_status r')"
  by (auto simp: finish_def finish_update_def Let_def rate_key_of_def split: if_splits)

lemma deliver_row_effect:
  assumes "deliver_row now owner adapter row r = (r', st)"
  shows "ob_id r' = ob_id r \<and> rate_key_of r' = rate_key_of r \<and>
    (st = Some Ob_sent \<longleftrightarrow> ob_status r' = Ob_sent \<and> ob_status r \<noteq> Ob_sent)"
proof (cases "ob_status r = Ob_queued")
  case True
  define s where "s = r\<lparr>ob_claimed_at := Some now, ob_attempts := ob_attempts r + 1, ob_status := Ob_sending\<rparr>"
  obtain a m d where "finish now a m d s = (r', st)"
    using assms True
    by (auto simp: deliver_row_def claim_row_def start_sending_def Let_def s_def split: if_splits)
  from finish_effect [OF this] True show ?thesis by (auto simp: s_def rate_key_of_def)
next
  case False
  with assms show ?thesis by (auto simp: deliver_not_queued)
qed

lemma update_row_ids [simp]:
  "(\<And>r. ob_id (f r) = ob_id r) \<Longrightarrow> map ob_id (update_row rid f tbl) = map ob_id tbl"
  by (simp add: update_row_def)

lemma n_sent_update:
  assumes "distinct (map ob_id tbl)" and "r \<in> set tbl" and "ob_id r = rid"
  shows "n_sent k (update_row rid f tbl) + sent_here k r = n_sent k tbl + sent_here k (f r)"
proof -
  obtain xs ys where tbl: "tbl = xs @ r # ys" using assms(2) by (meson split_list)
  have "update_row rid f xs = xs" and "update_row rid f ys = ys"
    using distinct_key_others [OF assms(1) [unfolded tbl]] assms(3)
    by (auto simp: update_row_def intro!: map_idI)
  then show ?thesis
    using assms(3) by (simp add: tbl n_sent_def sent_here_def update_row_def)
qed

definition keys_agree :: "outbox_row list \<Rightarrow> outbox_row list \<Rightarrow> bool" where
  "keys_agree due tbl \<longleftrightarrow> distinct (map ob_id tbl) \<and>
     (\<forall>row\<in>set due. \<forall>r\<in>set tbl. ob_id r = ob_id row \<longrightarrow> rate_key_of r = rate_key_of row)"

lemma keys_agree_update:
  assumes "keys_agree (row # due) tbl"
    and "\<And>r. r \<in> set tbl \<Longrightarrow> ob_id r = rid \<Longrightarrow> ob_id (f r) = rid \<and> rate_key_of (f r) = rate_key_of r"
  shows "keys_agree due (update_row rid f tbl)"
proof -
  have "map ob_id (update_row rid f tbl) = map ob_id tbl"
    using assms(2) by (auto simp: update_row_def)
  moreover have "rate_key_of q = rate_key_of w"
    if "w \<in> set due" "q \<in> set (update_row rid f tbl)" "ob_id q = ob_id w" for w q
  proof -
    from that(2) obtain r where r: "r \<in> set tbl" "q = (if ob_id r = rid then f r else r)"
      by (auto simp: update_row_def)
    with assms that show ?thesis by (cases "ob_id r = rid") (auto simp: keys_agree_def)
  qed
  ultimately show ?thesis using assms(1) by (simp add: keys_agree_def)
qed

lemma deliver_in_effect:
  assumes "deliver_in now owner adapter row tbl = (tbl', st)" and "keys_agree (row # due) tbl"
  shows "keys_agree due tbl'" and "n_sent k tbl' =
    n_sent k tbl + (if st = Some Ob_sent \<and> rate_key_of row = k then 1 else 0)"
proof -
  show "keys_agree due tbl'" and "n_sent k tbl' =
      n_sent k tbl + (if st = Some Ob_sent \<and> rate_key_of row = k then 1 else 0)"
  proof (atomize (full), cases "find (\<lambda>r. ob_id r = ob_id row) tbl")
    case None
    with assms show "keys_agree due tbl' \<and> n_sent k tbl' =
        n_sent k tbl + (if st = Some Ob_sent \<and> rate_key_of row = k then 1 else 0)"
      by (auto simp: deliver_in_def keys_agree_def)
  next
    case (Some r)
    then have r: "r \<in> set tbl" "ob_id r = ob_id row" by (auto simp: find_Some_iff)
    obtain r' where d: "deliver_row now (owner row) adapter row r = (r', st)"
      and tbl': "tbl' = update_row (ob_id row) (\<lambda>_. r') tbl"
      using assms(1) Some by (auto simp: deliver_in_def split: prod.splits)
    note e = deliver_row_effect [OF d]
    have dist: "distinct (map ob_id tbl)" and same: "rate_key_of r = rate_key_of row"
      using assms(2) r by (auto simp: keys_agree_def)
    have only: "q = r" if "q \<in> set tbl" "ob_id q = ob_id row" for q
      using distinct_key_same [OF dist that(1) r(1)] that(2) r(2) by simp
    have already: "ob_status r = Ob_sent \<Longrightarrow> r' = r \<and> st = None"
      using d deliver_not_queued [of r now "owner row" adapter row] by simp
    have "keys_agree due tbl'"
      unfolding tbl' using assms(2) by (rule keys_agree_update) (use only e r in auto)
    moreover have "n_sent k tbl' + sent_here k r = n_sent k tbl + sent_here k r'"
      unfolding tbl' using n_sent_update [OF dist r, of k "\<lambda>_. r'"] .
    ultimately show "keys_agree due tbl' \<and> n_sent k tbl' =
        n_sent k tbl + (if st = Some Ob_sent \<and> rate_key_of row = k then 1 else 0)"
      using e same already by (cases "ob_status r = Ob_sent") (auto simp: sent_here_def split: if_splits)
  qed
qed

lemma defer_sent [simp]:
  "ob_id (defer_row now r) = ob_id r" "rate_key_of (defer_row now r) = rate_key_of r"
  "ob_status (defer_row now r) = ob_status r"
  by (simp_all add: defer_row_def rate_key_of_def)

lemma n_sent_defer: "n_sent k (update_row rid (defer_row now) tbl) = n_sent k tbl"
  by (induction tbl) (auto simp: n_sent_def update_row_def)

lemma process_loop_budget:
  assumes "keys_agree due tbl"
    and "process_loop now limit owner adapter due tbl sent t = (tbl', sent', t')"
  shows "n_sent k tbl' + sent k = n_sent k tbl + sent' k \<and> sent' k \<le> max (sent k) (limit (snd k))"
  using assms
proof (induction now limit owner adapter due tbl sent t rule: process_loop.induct)
  case (1 now limit owner adapter tbl sent t)
  then show ?case by simp
next
  case (2 now limit owner adapter row due tbl sent t)
  show ?case
  proof (cases "limit (ob_channel row) \<le> sent (rate_key_of row)")
    case True
    have "keys_agree due (update_row (ob_id row) (defer_row now) tbl)"
      using 2(3) by (rule keys_agree_update) simp
    with 2(1) [OF True this] 2(4) True show ?thesis by (simp add: n_sent_defer)
  next
    case False
    obtain mid st where mid: "deliver_in now owner adapter row tbl = (mid, st)" by force
    let ?sent = "if st = Some Ob_sent then sent(rate_key_of row := sent (rate_key_of row) + 1) else sent"
    note e = deliver_in_effect [OF mid 2(3)]
    have "n_sent k tbl' + ?sent k = n_sent k mid + sent' k \<and> sent' k \<le> max (?sent k) (limit (snd k))"
      using 2(2) [OF False mid [symmetric] e(1)] 2(4) False mid by simp
    moreover have "?sent k \<le> max (sent k) (limit (snd k))"
      using False by (auto simp: rate_key_of_def)
    ultimately show ?thesis
      using e(2) [of k] by (auto split: if_splits)
  qed
qed

lemma recover_frame [simp]:
  "ob_id (recover_stale now r) = ob_id r" "rate_key_of (recover_stale now r) = rate_key_of r"
  "ob_status (recover_stale now r) = Ob_sent \<longleftrightarrow> ob_status r = Ob_sent"
  by (auto simp: recover_stale_def requeue_stale_def mark_stale_unknown_def rate_key_of_def
      split: option.splits)

lemma n_sent_recover:
  "n_sent k (map (\<lambda>r. if scope r then recover_stale now r else r) tbl) = n_sent k tbl"
  by (induction tbl) (simp_all add: n_sent_def)

lemma due_subset: "set (due_rows now scope tbl) \<subseteq> set tbl"
  by (auto simp: due_rows_def dest: in_set_takeD)

text \<open>One pass never spends more than the per-minute budget of an organization and channel:
  the messages it sends for a key number at most the limit less those already sent in the last
  minute, in whatever order the due rows come and whatever the transports answer.\<close>

theorem pass_within_budget:
  assumes "distinct (map ob_id tbl)"
    and "process_current_queue now org excluded limit owner adapter tbl = (tbl', sent', t)"
  shows "n_sent k tbl' - n_sent k tbl \<le> limit (snd k) - sent_recently now (in_scope org excluded)
    (map (\<lambda>r. if in_scope org excluded r then recover_stale now r else r) tbl) k"
proof -
  let ?scope = "in_scope org excluded"
  let ?f = "\<lambda>r. if ?scope r then recover_stale now r else r"
  let ?tbl = "map ?f tbl"
  have ids: "map ob_id ?tbl = map ob_id tbl" by simp
  have "keys_agree (due_rows now ?scope ?tbl) ?tbl"
    unfolding keys_agree_def
  proof (intro conjI ballI impI)
    show dist: "distinct (map ob_id ?tbl)" unfolding ids by (rule assms(1))
    fix row r assume "row \<in> set (due_rows now ?scope ?tbl)" "r \<in> set ?tbl" "ob_id r = ob_id row"
    with distinct_key_same [OF dist, of r row] due_subset [of now ?scope ?tbl]
    show "rate_key_of r = rate_key_of row" by blast
  qed
  from process_loop_budget [OF this, of now limit owner adapter _ _ tbl' sent' t k] assms(2)
  have "n_sent k tbl' + sent_recently now ?scope ?tbl k = n_sent k ?tbl + sent' k"
    and "sent' k \<le> max (sent_recently now ?scope ?tbl k) (limit (snd k))"
    by (auto simp: process_current_queue_def Let_def)
  moreover have "n_sent k ?tbl = n_sent k tbl"
    by (rule n_sent_recover)
  ultimately show ?thesis by simp
qed

theorem pass_within_budget_witness:
  "n_sent (None, Ch_email) (fst (process_current_queue 0 None [] (\<lambda>_. 1) (\<lambda>_. \<lparr>ow_active = True, ow_epoch = 0\<rparr>)
     (\<lambda>_. push_adapter 1 0) [sample_row, sample_row\<lparr>ob_id := 2\<rparr>])) \<le> 1"
proof -
  let ?tbl = "[sample_row, sample_row\<lparr>ob_id := 2\<rparr>]"
  obtain tbl' sent' t where p: "process_current_queue 0 None [] (\<lambda>_. 1)
    (\<lambda>_. \<lparr>ow_active = True, ow_epoch = 0\<rparr>) (\<lambda>_. push_adapter 1 0) ?tbl = (tbl', sent', t)"
    by (metis prod_cases3)
  have "distinct (map ob_id ?tbl)" "n_sent (None, Ch_email) ?tbl = 0" by (simp_all add: sample_row_def n_sent_def)
  with pass_within_budget [OF _ p, of "(None, Ch_email)"] p show ?thesis by simp
qed

section \<open>Producers that must not send twice\<close>

lemma find_append_None: "find P xs = None \<Longrightarrow> find P (xs @ ys) = find P ys"
  by (induction xs) (auto split: if_splits)

definition outbox_keys :: "outbox_row list \<Rightarrow> bool" where
  "outbox_keys tbl \<longleftrightarrow> distinct (map ob_dedupe (filter (\<lambda>r. ob_dedupe r \<noteq> None) tbl))"

text \<open>A dedupe key is used once. After a message was enqueued with a key, enqueuing any valid
  message with that key adds no row and names the first row, and the unique key holds.\<close>

theorem enqueue_dedupe:
  assumes "outbox_keys tbl" and "enqueue tbl m owner pref rid now = Inr (tbl1, res)"
    and "ms_dedupe m = Some key" and "ms_dedupe m2 = Some key" and "validate m2 = None"
  shows "outbox_keys tbl1 \<and>
    (\<exists>r\<in>set tbl1. ob_dedupe r = Some key \<and>
       enqueue tbl1 m2 owner2 pref2 rid2 now2 =
         Inr (tbl1, Enqueue_duplicate (ob_status r \<noteq> Ob_skipped) (Some (ob_id r))))"
proof (cases "find (\<lambda>r. ob_dedupe r = Some key) tbl")
  case None
  let ?row = "new_row m owner pref rid now"
  from None assms(2,3) have t1: "tbl1 = tbl @ [?row]"
    by (auto simp: enqueue_def Let_def split: option.splits)
  have row: "ob_dedupe ?row = Some key" using assms(3) by (simp add: new_row_def split: prod.splits)
  have no: "\<forall>r\<in>set tbl. ob_dedupe r \<noteq> Some key" using None by (simp add: find_None_iff)
  then have "find (\<lambda>r. ob_dedupe r = Some key) tbl1 = Some ?row"
    using row find_append_None [OF None] by (simp add: t1)
  moreover have "outbox_keys tbl1"
    using assms(1) no row by (auto simp: outbox_keys_def t1)
  ultimately show ?thesis
    using assms(4,5) row by (auto simp: enqueue_def t1 intro!: bexI [of _ ?row])
next
  case (Some r)
  with assms(2,3) have t1: "tbl1 = tbl" by (auto simp: enqueue_def split: option.splits)
  from Some have "r \<in> set tbl" "ob_dedupe r = Some key" by (auto simp: find_Some_iff)
  with Some assms(1,4,5) t1 show ?thesis by (auto simp: enqueue_def intro!: bexI [of _ r])
qed

definition sample_message :: message where
  "sample_message = \<lparr>ms_channel = Ch_email, ms_org = Some 1, ms_client = Some 7,
     ms_class = Some Mc_transactional, ms_recipient = Some ''a@b.c'', ms_subject = Some ''Hi'',
     ms_text = Some ''x'', ms_html = None, ms_payload = None, ms_event_type = None,
     ms_source_type = None, ms_source_id = None, ms_dedupe = Some ''invoice:1'', ms_max = None,
     ms_sensitive = False\<rparr>"

theorem enqueue_dedupe_witness:
  "\<exists>tbl1. length tbl1 = 1 \<and> (\<exists>r\<in>set tbl1. enqueue tbl1 sample_message \<lparr>ow_active = False, ow_epoch = 0\<rparr>
     (Inr 0) 9 100 = Inr (tbl1, Enqueue_duplicate (ob_status r \<noteq> Ob_skipped) (Some (ob_id r))))"
proof -
  let ?ow = "\<lparr>ow_active = True, ow_epoch = 3\<rparr>"
  let ?tbl1 = "[new_row sample_message ?ow (Inr 0) 1 50]"
  have v: "validate sample_message = None" by (simp add: validate_def sample_message_def truthy_def)
  have "enqueue [] sample_message ?ow (Inr 0) 1 50 = Inr (?tbl1, Enqueued 1)"
    using v by (simp add: enqueue_def new_row_def admission_def)
  moreover have "outbox_keys []" by (simp add: outbox_keys_def)
  moreover have "ms_dedupe sample_message = Some ''invoice:1''" by (simp add: sample_message_def)
  ultimately show ?thesis
    using enqueue_dedupe [of "[]" sample_message ?ow "Inr 0" 1 50 ?tbl1 "Enqueued 1" "''invoice:1''"
        sample_message "\<lparr>ow_active = False, ow_epoch = 0\<rparr>" "Inr 0" 9 100] v
    by (intro exI [of _ ?tbl1]) auto
qed

end
