(* ===== verification/Cwmp.thy ===== *)
theory Cwmp
  imports Vb_Prelude
begin

text \<open>
  The TR-069 (CWMP) message layer: \<open>src/src/services/cwmpXml.js\<close>, and the task-to-message step of
  \<open>src/src/services/cwmpSessionService.js\<close>.

  \<open>/acs/cwmp\<close> is reachable without a session, so the parser is the trust boundary of the ACS. A
  document is read once from left to right; the argument of \<open>parse_loop\<close> is the text from the
  current position on. The source keeps a stack of the open elements, each already attached to its
  parent; here the stack holds the open elements as frames and a frame is attached to its parent
  when it is closed, which gives the same tree since a parent gets no other child meanwhile.

  Text is a list of code units below 256. A numeric character reference above 255 and the two
  capitals of Latin-1 letters that lie outside Latin-1 are handed to the parameter \<open>wide\<close>, the
  representation of a code point outside the range. \<open>parseInt\<close> is exact (below \<open>2\<^sup>5\<^sup>3\<close> for a
  JavaScript number).
\<close>

section \<open>Data\<close>

datatype xml_error = Doctype_refused | Too_many_elements | Too_deep

datatype xnode = Xnode (xn_name: string) (xn_children: "xnode list") (xn_text: string)

record frame =
  fr_name :: string
  fr_children :: "xnode list"
  fr_text :: string

record device_id =
  di_manufacturer :: string
  di_oui :: string
  di_product_class :: string
  di_serial :: string
  di_hw :: string
  di_sw :: string

record inform_event =
  ie_code :: string
  ie_command_key :: string

record param_value =
  pv_name :: string
  pv_value :: string

record set_param =
  sp_name :: "string option"
  sp_value :: "string option"
  sp_type :: "string option"

record download_params =
  dl_key :: "string option"
  dl_file_type :: "string option"
  dl_url :: "string option"
  dl_size :: "string option"

record cpe_task =
  ct_id :: nat
  ct_device :: nat
  ct_status :: string
  ct_priority :: nat
  ct_queued_at :: nat

datatype cwmp_payload =
    Pl_inform device_id "inform_event list" "param_value list"
  | Pl_values "param_value list"
  | Pl_set_status int
  | Pl_names "(string \<times> bool) list"
  | Pl_download int "string option" "string option"
  | Pl_transfer string string string "string option" "string option"
  | Pl_fault string string
  | Pl_empty

text \<open>A JSON value: the parameters of a task as the database stores them (numbers are whole).\<close>

datatype json =
    J_null
  | J_bool bool
  | J_num int
  | J_str string
  | J_arr "json list"
  | J_obj "(string \<times> json) list"

datatype js_error = Type_error

datatype cwmp_request =
    Rq_inform_response
  | Rq_get_values "json list"
  | Rq_set_values "set_param list"
  | Rq_get_names string bool
  | Rq_download download_params
  | Rq_reboot
  | Rq_factory_reset
  | Rq_start_ping json
  | Rq_start_traceroute json
  | Rq_diag_results "json list"
  | Rq_transfer_complete_response
  | Rq_empty

section \<open>Text\<close>

definition nl :: string where
  "nl = [CHR 0x0A]"

section \<open>Entities\<close>

text \<open>The body of a reference, between \<open>&\<close> and \<open>;\<close>, that the regular expression of
  \<open>decodeEntities\<close> accepts.\<close>

definition entity_ref :: "string \<Rightarrow> bool" where
  "entity_ref r \<longleftrightarrow>
     (take 2 r = ''#x'' \<and> 1 \<le> length (drop 2 r) \<and> length (drop 2 r) \<le> 6 \<and> list_all is_hex (drop 2 r)) \<or>
     (take 1 r = ''#'' \<and> 1 \<le> length (drop 1 r) \<and> length (drop 1 r) \<le> 7 \<and> list_all is_digit (drop 1 r)) \<or>
     (2 \<le> length r \<and> length r \<le> 4 \<and> list_all is_letter r)"

definition entities :: "string \<Rightarrow> string option" where
  "entities r =
     (if r = ''amp'' then Some ''&'' else if r = ''lt'' then Some ''<'' else if r = ''gt'' then Some ''>''
      else if r = ''quot'' then Some [CHR 0x22] else if r = ''apos'' then Some [CHR 0x27] else None)"

definition from_code_point :: "(nat \<Rightarrow> string) \<Rightarrow> nat \<Rightarrow> string" where
  "from_code_point wide n = (if n < 256 then [char_of n] else wide n)"

text \<open>The replacement of one reference; \<open>whole\<close> is the text it matched.\<close>

definition decode_ref :: "(nat \<Rightarrow> string) \<Rightarrow> string \<Rightarrow> string" where
  "decode_ref wide r =
     (let whole = ''&'' @ r @ '';'' in
      if take 1 r = ''#'' then
        let code = (if take 1 (drop 1 r) = ''x'' \<or> take 1 (drop 1 r) = ''X''
                    then hex_digits_val (drop 2 r) else digits_val (drop 1 r))
        in if 0 < code \<and> code \<le> 0x10ffff then from_code_point wide code else whole
      else case entities r of Some t \<Rightarrow> t | None \<Rightarrow> whole)"

text \<open>No class of the expression holds \<open>;\<close>, so a match at \<open>&\<close> ends at the first \<open>;\<close>.\<close>

fun decode_entities :: "(nat \<Rightarrow> string) \<Rightarrow> string \<Rightarrow> string" where
  "decode_entities wide [] = []"
| "decode_entities wide (c # s) =
     (if c = CHR ''&'' then
        (case index_of (CHR '';'') s of
           None \<Rightarrow> c # decode_entities wide s
         | Some k \<Rightarrow> if entity_ref (take k s)
                    then decode_ref wide (take k s) @ decode_entities wide (drop (Suc k) s)
                    else c # decode_entities wide s)
      else c # decode_entities wide s)"

definition escape_char :: "char \<Rightarrow> string" where
  "escape_char c =
     (if c = CHR ''&'' then ''&amp;'' else if c = CHR ''<'' then ''&lt;'' else if c = CHR ''>'' then ''&gt;''
      else if c = CHR 0x22 then ''&quot;'' else if c = CHR 0x27 then ''&apos;'' else [c])"

definition replace_char :: "char \<Rightarrow> string \<Rightarrow> string \<Rightarrow> string" where
  "replace_char c r s = concat (map (\<lambda>x. if x = c then r else [x]) s)"

definition xml_escape :: "string option \<Rightarrow> string" where
  "xml_escape v = (case v of None \<Rightarrow> []
     | Some s \<Rightarrow> replace_char (CHR 0x27) ''&apos;'' (replace_char (CHR 0x22) ''&quot;''
         (replace_char (CHR ''>'') ''&gt;'' (replace_char (CHR ''<'') ''&lt;''
           (replace_char (CHR ''&'') ''&amp;'' s)))))"

section \<open>Tokenizer and tree builder\<close>

definition max_elements :: nat where "max_elements = 20000"
definition max_depth :: nat where "max_depth = 64"

definition local_name :: "string \<Rightarrow> string" where
  "local_name q = js_lower (case index_of (CHR '':'') q of None \<Rightarrow> q | Some i \<Rightarrow> drop (Suc i) q)"

text \<open>The number of characters before the \<open>>\<close> that closes the tag; \<open>None\<close> is -1.\<close>

fun tag_end :: "char option \<Rightarrow> string \<Rightarrow> nat option" where
  "tag_end q [] = None"
| "tag_end q (ch # s) =
     (case q of
        Some qc \<Rightarrow> map_option Suc (tag_end (if ch = qc then None else q) s)
      | None \<Rightarrow>
          if ch = CHR 0x22 \<or> ch = CHR 0x27 then map_option Suc (tag_end (Some ch) s)
          else if ch = CHR ''>'' then Some 0
          else map_option Suc (tag_end None s))"

lemma tag_end_bound: "tag_end q s = Some k \<Longrightarrow> k < length s"
  by (induction q s arbitrary: k rule: tag_end.induct) (auto split: option.splits if_splits)

definition frame_node :: "frame \<Rightarrow> xnode" where
  "frame_node f = Xnode (fr_name f) (fr_children f) (fr_text f)"

definition add_text :: "string \<Rightarrow> frame list \<Rightarrow> frame list" where
  "add_text t stk = (case stk of [] \<Rightarrow> [] | f # r \<Rightarrow> f\<lparr>fr_text := fr_text f @ t\<rparr> # r)"

definition add_child :: "xnode \<Rightarrow> frame list \<Rightarrow> frame list" where
  "add_child n stk = (case stk of [] \<Rightarrow> [] | f # r \<Rightarrow> f\<lparr>fr_children := fr_children f @ [n]\<rparr> # r)"

lemma length_add_child [simp, termination_simp]: "length (add_child v stk) = length stk"
  by (cases stk) (simp_all add: add_child_def)

definition close_top :: "frame list \<Rightarrow> frame list" where
  "close_top stk = (case stk of f # g # r \<Rightarrow> add_child (frame_node f) (g # r) | _ \<Rightarrow> stk)"

fun close_to :: "string \<Rightarrow> frame list \<Rightarrow> frame list" where
  "close_to name (f # g # r) =
     (if fr_name f = name then close_top (f # g # r)
      else close_to name (add_child (frame_node f) (g # r)))"
| "close_to name stk = stk"

text \<open>An end tag closes up to the matching open element, the document root apart; a stray one is
  ignored.\<close>

definition end_tag :: "string \<Rightarrow> frame list \<Rightarrow> frame list" where
  "end_tag name stk = (if name \<in> set (map fr_name (butlast stk)) then close_to name stk else stk)"

definition first_word :: "string \<Rightarrow> string" where
  "first_word s = takeWhile (\<lambda>c. \<not> js_ws c) s"

definition handle_tag :: "string \<Rightarrow> frame list \<Rightarrow> nat \<Rightarrow> xml_error + frame list \<times> nat" where
  "handle_tag inner stk n =
     (if take 1 inner = ''/'' then Inr (end_tag (local_name (js_trim (drop 1 inner))) stk, n)
      else
        let self = ends_with ''/'' inner;
            qname = first_word (js_trim (if self then butlast inner else inner))
        in if qname = [] then Inr (stk, n)
           else if max_elements < n + 1 then Inl Too_many_elements
           else if self then Inr (add_child (Xnode (local_name qname) [] []) stk, n + 1)
           else if max_depth < length stk then Inl Too_deep
           else Inr (\<lparr>fr_name = local_name qname, fr_children = [], fr_text = []\<rparr> # stk, n + 1))"

function parse_loop :: "(nat \<Rightarrow> string) \<Rightarrow> string \<Rightarrow> frame list \<Rightarrow> nat \<Rightarrow> xml_error + frame list \<times> nat" where
  "parse_loop wide s stk n =
     (case index_of (CHR ''<'') s of
        None \<Rightarrow> Inr (add_text (decode_entities wide s) stk, n)
      | Some k \<Rightarrow>
          let stk1 = add_text (decode_entities wide (take k s)) stk; r = drop k s in
          if starts_with ''<!--'' r then parse_loop wide (after_str ''-->'' (drop 4 r)) stk1 n
          else if starts_with ''<![CDATA['' r then
            parse_loop wide (after_str '']]>'' (drop 9 r)) (add_text (before_str '']]>'' (drop 9 r)) stk1) n
          else if starts_with ''<!'' r then Inl Doctype_refused
          else if starts_with ''<?'' r then parse_loop wide (after_str ''?>'' (drop 2 r)) stk1 n
          else case tag_end None (drop 1 r) of
              None \<Rightarrow> Inr (stk1, n)
            | Some g \<Rightarrow>
                (case handle_tag (take g (drop 1 r)) stk1 n of
                   Inl e \<Rightarrow> Inl e
                 | Inr (stk2, n2) \<Rightarrow> parse_loop wide (drop (Suc g) (drop 1 r)) stk2 n2))"
  by pat_completeness auto
termination
proof (relation "measure (\<lambda>(w, s, stk, n). length s)", goal_cases)
  case 1
  show ?case by simp
next
  case (2 wide s stk n k stk1 r)
  then have "length r \<le> length s" "r \<noteq> []" by (auto simp: index_of_Some)
  with length_after_str [of "''-->''" "drop 4 r"] show ?case by (cases r) auto
next
  case (3 wide s stk n k stk1 r)
  then have "length r \<le> length s" "r \<noteq> []" by (auto simp: index_of_Some)
  with length_after_str [of "'']]>''" "drop 9 r"] show ?case by (cases r) auto
next
  case (4 wide s stk n k stk1 r)
  then have "length r \<le> length s" "r \<noteq> []" by (auto simp: index_of_Some)
  with length_after_str [of "''?>''" "drop 2 r"] show ?case by (cases r) auto
next
  case (5 wide s stk n k stk1 r)
  then have "length r \<le> length s" "r \<noteq> []" by (auto simp: index_of_Some)
  then show ?case by (cases r) auto
qed

declare parse_loop.simps [simp del]

fun close_all :: "frame list \<Rightarrow> xnode" where
  "close_all [] = Xnode [] [] []"
| "close_all [f] = frame_node f"
| "close_all (f # g # r) = close_all (add_child (frame_node f) (g # r))"

definition root_frame :: frame where
  "root_frame = \<lparr>fr_name = ''#document'', fr_children = [], fr_text = []\<rparr>"

definition parse_tree :: "(nat \<Rightarrow> string) \<Rightarrow> string \<Rightarrow> xml_error + xnode" where
  "parse_tree wide xml =
     (case parse_loop wide xml [root_frame] 0 of
        Inl e \<Rightarrow> Inl e
      | Inr (stk, n) \<Rightarrow> Inr (close_all stk))"

section \<open>Tree helpers\<close>

text \<open>The search loops keep a stack of pending nodes: the list below is the stack with its top
  first. Every element is taken once, so the loops end.\<close>

primrec node_count :: "xnode \<Rightarrow> nat" where
  "node_count (Xnode nm cs tx) = Suc (sum_list (map node_count cs))"

lemma node_count_children: "sum_list (map node_count (xn_children v)) < node_count v"
  by (cases v) simp

function find_pending :: "string \<Rightarrow> xnode list \<Rightarrow> xnode option" where
  "find_pending want [] = None"
| "find_pending want (v # pending) =
     (if xn_name v = want then Some v else find_pending want (xn_children v @ pending))"
  by pat_completeness auto
termination
  by (relation "measure (\<lambda>(w, p). sum_list (map node_count p))") (simp_all add: node_count_children)

definition find_first :: "xnode \<Rightarrow> string \<Rightarrow> xnode option" where
  "find_first node tag = find_pending (js_lower tag) (xn_children node)"

function find_all_pending :: "string \<Rightarrow> xnode list \<Rightarrow> xnode list" where
  "find_all_pending want [] = []"
| "find_all_pending want (v # pending) =
     (if xn_name v = want then v # find_all_pending want pending
      else find_all_pending want (xn_children v @ pending))"
  by pat_completeness auto
termination
proof (relation "measure (\<lambda>(w, p). sum_list (map node_count p))", goal_cases)
  case 1
  show ?case by simp
next
  case (2 want v pending)
  show ?case using node_count_children [of v] by (cases v) simp
next
  case (3 want v pending)
  show ?case by (simp add: node_count_children)
qed

definition find_all :: "xnode \<Rightarrow> string \<Rightarrow> xnode list" where
  "find_all node tag = find_all_pending (js_lower tag) (xn_children node)"

definition text_of :: "xnode \<Rightarrow> string \<Rightarrow> string option" where
  "text_of node tag = map_option (\<lambda>f. js_trim (xn_text f)) (find_first node tag)"

text \<open>\<open>x || d\<close> for a text or null: null and the empty text give \<open>d\<close>.\<close>

definition or_text :: "string option \<Rightarrow> string \<Rightarrow> string" where
  "or_text v d = (case v of None \<Rightarrow> d | Some s \<Rightarrow> if s = [] then d else s)"

definition or_null :: "string option \<Rightarrow> string option" where
  "or_null v = (if v = Some [] then None else v)"

section \<open>Messages of the device\<close>

definition message_types :: "string list" where
  "message_types = [''Inform'', ''GetParameterValuesResponse'', ''SetParameterValuesResponse'',
     ''GetParameterNamesResponse'', ''DownloadResponse'', ''TransferCompleteResponse'',
     ''TransferComplete'', ''Fault'']"

definition message_type_by_name :: "string \<Rightarrow> string option" where
  "message_type_by_name nm = find (\<lambda>t. js_lower t = nm) message_types"

function detect_pending :: "xnode list \<Rightarrow> (string \<times> xnode) option" where
  "detect_pending [] = None"
| "detect_pending (v # pending) =
     (case message_type_by_name (xn_name v) of
        Some ty \<Rightarrow> Some (ty, v)
      | None \<Rightarrow> detect_pending (xn_children v @ pending))"
  by pat_completeness auto
termination
  by (relation "measure (\<lambda>p. sum_list (map node_count p))") (simp_all add: node_count_children)

definition detect_message_type :: "xnode \<Rightarrow> string \<times> xnode" where
  "detect_message_type tree =
     (let body = (case find_first tree ''Body'' of Some b \<Rightarrow> b | None \<Rightarrow> tree) in
      case detect_pending (xn_children body) of
        Some r \<Rightarrow> r
      | None \<Rightarrow> (''Unknown'', body))"

definition parse_parameter_values :: "xnode \<Rightarrow> param_value list" where
  "parse_parameter_values node =
     map (\<lambda>b. \<lparr>pv_name = or_text (text_of b ''Name'') [], pv_value = or_text (text_of b ''Value'') []\<rparr>)
       (find_all node ''ParameterValueStruct'')"

definition reported :: "param_value list \<Rightarrow> string \<Rightarrow> string" where
  "reported ps suffix =
     (case find (\<lambda>p. ends_with (''.DeviceInfo.'' @ suffix) (pv_name p)) ps of
        Some p \<Rightarrow> pv_value p | None \<Rightarrow> [])"

definition pick :: "xnode \<Rightarrow> string \<Rightarrow> string" where
  "pick node tag =
     or_text (case find_first node ''DeviceId'' of Some b \<Rightarrow> text_of b tag | None \<Rightarrow> None)
       (or_text (text_of node tag) [])"

definition parse_inform :: "xnode \<Rightarrow> device_id \<times> inform_event list \<times> param_value list" where
  "parse_inform node =
     (let parameters = parse_parameter_values node;
          events = map (\<lambda>b. \<lparr>ie_code = or_text (text_of b ''EventCode'') [],
                            ie_command_key = or_text (text_of b ''CommandKey'') []\<rparr>)
                     (find_all node ''EventStruct'');
          sw = or_text (text_of node ''SoftwareVersion'') [];
          hw = or_text (text_of node ''HardwareVersion'') []
      in (\<lparr>di_manufacturer = pick node ''Manufacturer'', di_oui = pick node ''OUI'',
           di_product_class = pick node ''ProductClass'', di_serial = pick node ''SerialNumber'',
           di_hw = (if hw = [] then reported parameters ''HardwareVersion'' else hw),
           di_sw = (if sw = [] then reported parameters ''SoftwareVersion'' else sw)\<rparr>,
          events, parameters))"

text \<open>\<open>Number.parseInt(s, 10) || 0\<close>: NaN gives 0.\<close>

definition int_or_zero :: "string \<Rightarrow> int" where
  "int_or_zero s = (case parse_int10 s of None \<Rightarrow> 0 | Some i \<Rightarrow> i)"

definition parse_download_response :: "xnode \<Rightarrow> cwmp_payload" where
  "parse_download_response node =
     Pl_download (int_or_zero (or_text (text_of node ''Status'') ''0''))
       (or_null (text_of node ''StartTime'')) (or_null (text_of node ''CompleteTime''))"

definition parse_transfer_complete :: "xnode \<Rightarrow> cwmp_payload" where
  "parse_transfer_complete node =
     (let fault = (case find_first node ''FaultStruct'' of Some f \<Rightarrow> f | None \<Rightarrow> node) in
      Pl_transfer (or_text (text_of node ''CommandKey'') []) (or_text (text_of fault ''FaultCode'') ''0'')
        (or_text (text_of fault ''FaultString'') [])
        (or_null (text_of node ''StartTime'')) (or_null (text_of node ''CompleteTime'')))"

definition parse_set_values_response :: "xnode \<Rightarrow> cwmp_payload" where
  "parse_set_values_response node = Pl_set_status (int_or_zero (or_text (text_of node ''Status'') ''0''))"

definition parse_names_response :: "xnode \<Rightarrow> cwmp_payload" where
  "parse_names_response node =
     Pl_names (map (\<lambda>b. let w = text_of b ''Writable'' in
         (or_text (text_of b ''Name'') [], w = Some ''1'' \<or> w = Some ''true''))
       (find_all node ''ParameterInfoStruct''))"

definition parse_fault :: "xnode \<Rightarrow> cwmp_payload" where
  "parse_fault node =
     (let inner = (case find_first node ''detail'' of Some d \<Rightarrow> d | None \<Rightarrow> node) in
      Pl_fault (or_text (text_of inner ''FaultCode'') []) (or_text (text_of inner ''FaultString'') []))"

text \<open>\<open>toUpperCase\<close> below 256: sharp s gives SS, and micro and y with diaeresis leave the range.\<close>

definition upper_char :: "(nat \<Rightarrow> string) \<Rightarrow> char \<Rightarrow> string" where
  "upper_char wide c =
     (let n = code_unit c in
      if n = 223 then ''SS'' else if n = 181 then wide 924 else if n = 255 then wide 376
      else if 97 \<le> n \<and> n \<le> 122 \<or> 224 \<le> n \<and> n \<le> 254 \<and> n \<noteq> 247 then [char_of (n - 32)] else [c])"

definition js_upper :: "(nat \<Rightarrow> string) \<Rightarrow> string \<Rightarrow> string" where
  "js_upper wide s = concat (map (upper_char wide) s)"

definition parse_payload :: "(nat \<Rightarrow> string) \<Rightarrow> string \<Rightarrow> xnode \<Rightarrow> string \<times> cwmp_payload" where
  "parse_payload wide ty node =
     (if ty = ''Inform'' then
        (case parse_inform node of (d, ev, ps) \<Rightarrow>
          (if list_ex (\<lambda>e. js_upper wide (ie_code e) = ''8 DIAGNOSTICS COMPLETE'') ev
           then ''DiagnosticsComplete'' else ty, Pl_inform d ev ps))
      else if ty = ''GetParameterValuesResponse'' then (ty, Pl_values (parse_parameter_values node))
      else if ty = ''SetParameterValuesResponse'' then (ty, parse_set_values_response node)
      else if ty = ''GetParameterNamesResponse'' then (ty, parse_names_response node)
      else if ty = ''DownloadResponse'' then (ty, parse_download_response node)
      else if ty = ''TransferComplete'' then (ty, parse_transfer_complete node)
      else if ty = ''Fault'' then (ty, parse_fault node)
      else (ty, Pl_empty))"

definition parse_cwmp_envelope ::
    "(nat \<Rightarrow> string) \<Rightarrow> nat \<Rightarrow> string option \<Rightarrow> xml_error + string \<times> string \<times> cwmp_payload" where
  "parse_cwmp_envelope wide now xml =
     bind_r (parse_tree wide (case xml of None \<Rightarrow> [] | Some s \<Rightarrow> s))
       (\<lambda>tree. case detect_message_type tree of (ty, node) \<Rightarrow>
          let mid = or_text (text_of tree ''ID'') (''ID-'' @ show_nat now) in
          case parse_payload wide ty node of (mt, payload) \<Rightarrow> Inr (mt, mid, payload))"

section \<open>JSON values\<close>

fun obj_get :: "(string \<times> json) list \<Rightarrow> string \<Rightarrow> json option" where
  "obj_get [] k = None"
| "obj_get ((j, v) # kvs) k = (if j = k then Some v else obj_get kvs k)"

definition prop_of :: "json \<Rightarrow> string \<Rightarrow> json option" where
  "prop_of v k = (case v of J_obj kvs \<Rightarrow> obj_get kvs k | _ \<Rightarrow> None)"

definition show_int :: "int \<Rightarrow> string" where
  "show_int i = (if i < 0 then ''-'' @ show_nat (nat (- i)) else show_nat (nat i))"

text \<open>\<open>String(v)\<close>, and JavaScript truth.\<close>

fun js_string :: "json \<Rightarrow> string" where
  "js_string J_null = ''null''"
| "js_string (J_bool b) = (if b then ''true'' else ''false'')"
| "js_string (J_num i) = show_int i"
| "js_string (J_str s) = s"
| "js_string (J_arr xs) = js_join '','' (map (\<lambda>x. if x = J_null then [] else js_string x) xs)"
| "js_string (J_obj kvs) = ''[object Object]''"

definition truthy :: "json option \<Rightarrow> bool" where
  "truthy v = (case v of None \<Rightarrow> False | Some J_null \<Rightarrow> False | Some (J_bool b) \<Rightarrow> b
     | Some (J_num i) \<Rightarrow> i \<noteq> 0 | Some (J_str s) \<Rightarrow> s \<noteq> [] | Some _ \<Rightarrow> True)"

definition or_json :: "json option \<Rightarrow> json option \<Rightarrow> json option" where
  "or_json a b = (if truthy a then a else b)"

text \<open>\<open>params.k || d\<close> as text, and the text \<open>xmlEscape\<close> gets (null and undefined give none).\<close>

definition opt_text :: "json \<Rightarrow> string \<Rightarrow> string \<Rightarrow> string" where
  "opt_text params k d =
     (case prop_of params k of None \<Rightarrow> d | Some v \<Rightarrow> if truthy (Some v) then js_string v else d)"

definition text_field :: "json option \<Rightarrow> string option" where
  "text_field v = (case v of None \<Rightarrow> None | Some j \<Rightarrow> if j = J_null then None else Some (js_string j))"

section \<open>Messages to the device\<close>

definition soap_header :: "string" where
  "soap_header =
     ''<?xml version='' @ [CHR 0x22] @ ''1.0'' @ [CHR 0x22] @ '' encoding='' @ [CHR 0x22]
     @ ''UTF-8'' @ [CHR 0x22] @ ''?>'' @ nl @ ''<soapenv:Envelope xmlns:soapenv=''
     @ [CHR 0x22] @ ''http://schemas.xmlsoap.org/soap/envelope/'' @ [CHR 0x22] @ nl
     @ ''                  xmlns:cwmp='' @ [CHR 0x22] @ ''urn:dslforum-org:cwmp-1-0''
     @ [CHR 0x22] @ nl @ ''                  xmlns:xsd='' @ [CHR 0x22]
     @ ''http://www.w3.org/2001/XMLSchema'' @ [CHR 0x22] @ nl
     @ ''                  xmlns:xsi='' @ [CHR 0x22]
     @ ''http://www.w3.org/2001/XMLSchema-instance'' @ [CHR 0x22] @ ''>''"

definition wrap_envelope :: "string \<Rightarrow> string \<Rightarrow> string" where
  "wrap_envelope mid body =
     soap_header @ nl @ ''  <soapenv:Header>'' @ nl @ ''    <cwmp:ID soapenv:mustUnderstand=''
     @ [CHR 0x22] @ ''1'' @ [CHR 0x22] @ ''>'' @ xml_escape (Some mid) @ ''</cwmp:ID>'' @ nl
     @ ''  </soapenv:Header>'' @ nl @ ''  <soapenv:Body>'' @ nl @ ''    '' @ body @ nl
     @ ''  </soapenv:Body>'' @ nl @ ''</soapenv:Envelope>''"

definition build_inform_response :: "string \<Rightarrow> string" where
  "build_inform_response mid =
     wrap_envelope mid (
       ''<cwmp:InformResponse>'' @ nl @ ''      <MaxEnvelopes>1</MaxEnvelopes>'' @ nl
       @ ''    </cwmp:InformResponse>'')"

definition string_item :: "json \<Rightarrow> string" where
  "string_item n =
     ''      <string>'' @ xml_escape (text_field (Some n)) @ ''</string>''"

definition build_get_parameter_values :: "string \<Rightarrow> json list \<Rightarrow> string" where
  "build_get_parameter_values mid names =
     wrap_envelope mid (
       ''<cwmp:GetParameterValues>'' @ nl @ ''      <ParameterNames soapenv:arrayType=''
       @ [CHR 0x22] @ ''xsd:string['' @ show_nat (length names) @ '']'' @ [CHR 0x22] @ ''>''
       @ nl @ js_join nl (map string_item names) @ nl @ ''      </ParameterNames>'' @ nl
       @ ''    </cwmp:GetParameterValues>'')"

definition param_struct :: "set_param \<Rightarrow> string" where
  "param_struct p =
     ''      <ParameterValueStruct>'' @ nl @ ''        <Name>'' @ xml_escape (sp_name p)
     @ ''</Name>'' @ nl @ ''        <Value xsi:type='' @ [CHR 0x22]
     @ xml_escape (Some (or_text (sp_type p) ''xsd:string'')) @ [CHR 0x22] @ ''>''
     @ xml_escape (sp_value p) @ ''</Value>'' @ nl @ ''      </ParameterValueStruct>''"

definition build_set_parameter_values :: "string \<Rightarrow> set_param list \<Rightarrow> string" where
  "build_set_parameter_values mid ps =
     wrap_envelope mid (
       ''<cwmp:SetParameterValues>'' @ nl @ ''      <ParameterList soapenv:arrayType=''
       @ [CHR 0x22] @ ''cwmp:ParameterValueStruct['' @ show_nat (length ps) @ '']'' @ [CHR 0x22]
       @ ''>'' @ nl @ js_join nl (map param_struct ps) @ nl @ ''      </ParameterList>'' @ nl
       @ ''      <ParameterKey></ParameterKey>'' @ nl @ ''    </cwmp:SetParameterValues>'')"

definition build_get_parameter_names :: "string \<Rightarrow> string \<Rightarrow> bool \<Rightarrow> string" where
  "build_get_parameter_names mid path next_level =
     wrap_envelope mid (
       ''<cwmp:GetParameterNames>'' @ nl @ ''      <ParameterPath>'' @ xml_escape (Some path)
       @ ''</ParameterPath>'' @ nl @ ''      <NextLevel>''
       @ (if next_level then ''1'' else ''0'') @ ''</NextLevel>'' @ nl
       @ ''    </cwmp:GetParameterNames>'')"

definition build_download :: "string \<Rightarrow> download_params \<Rightarrow> string" where
  "build_download mid p =
     wrap_envelope mid (
       ''<cwmp:Download>'' @ nl @ ''      <CommandKey>''
       @ xml_escape (Some (or_text (dl_key p) [])) @ ''</CommandKey>'' @ nl
       @ ''      <FileType>''
       @ xml_escape (Some (or_text (dl_file_type p) ''1 Firmware Upgrade Image''))
       @ ''</FileType>'' @ nl @ ''      <URL>'' @ xml_escape (Some (or_text (dl_url p) []))
       @ ''</URL>'' @ nl @ ''      <Username></Username>'' @ nl
       @ ''      <Password></Password>'' @ nl @ ''      <FileSize>''
       @ or_text (dl_size p) ''0''
       @ ''</FileSize>'' @ nl @ ''      <TargetFileName></TargetFileName>'' @ nl
       @ ''      <DelaySeconds>0</DelaySeconds>'' @ nl @ ''      <SuccessURL></SuccessURL>''
       @ nl @ ''      <FailureURL></FailureURL>'' @ nl @ ''    </cwmp:Download>'')"

definition build_reboot :: "string \<Rightarrow> string" where
  "build_reboot mid =
     wrap_envelope mid (
       ''<cwmp:Reboot>'' @ nl @ ''      <CommandKey>reboot</CommandKey>'' @ nl
       @ ''    </cwmp:Reboot>'')"

definition build_factory_reset :: "string \<Rightarrow> string" where
  "build_factory_reset mid =
     wrap_envelope mid (
       ''<cwmp:FactoryReset></cwmp:FactoryReset>'')"

definition typed_param :: "string \<Rightarrow> string \<Rightarrow> string \<Rightarrow> set_param" where
  "typed_param nm v ty = \<lparr>sp_name = Some nm, sp_value = Some v, sp_type = Some ty\<rparr>"

definition build_start_ping :: "string \<Rightarrow> json \<Rightarrow> string" where
  "build_start_ping mid params =
     (let base = opt_text params ''basePath'' ''InternetGatewayDevice.IPPingDiagnostics.'' in
      build_set_parameter_values mid
        [typed_param (base @ ''DiagnosticsState'') ''Requested'' ''xsd:string'',
         typed_param (base @ ''Host'') (opt_text params ''host'' ''8.8.8.8'') ''xsd:string'',
         typed_param (base @ ''NumberOfRepetitions'') (opt_text params ''numberOfRepetitions'' ''3'')
           ''xsd:unsignedInt'',
         typed_param (base @ ''Timeout'') (opt_text params ''timeout'' ''1000'') ''xsd:unsignedInt''])"

definition build_start_traceroute :: "string \<Rightarrow> json \<Rightarrow> string" where
  "build_start_traceroute mid params =
     (let base = opt_text params ''basePath'' ''InternetGatewayDevice.TraceRouteDiagnostics.'' in
      build_set_parameter_values mid
        [typed_param (base @ ''DiagnosticsState'') ''Requested'' ''xsd:string'',
         typed_param (base @ ''Host'') (opt_text params ''host'' ''8.8.8.8'') ''xsd:string'',
         typed_param (base @ ''MaxHopCount'') (opt_text params ''maxHopCount'' ''30'') ''xsd:unsignedInt''])"

definition build_diag_results :: "string \<Rightarrow> json list \<Rightarrow> string" where
  "build_diag_results mid paths = build_get_parameter_values mid paths"

definition build_empty :: "string \<Rightarrow> string" where
  "build_empty mid = wrap_envelope mid []"

definition build_transfer_complete_response :: "string \<Rightarrow> string" where
  "build_transfer_complete_response mid = wrap_envelope mid ''<cwmp:TransferCompleteResponse/>''"

fun build_cwmp_response :: "string \<Rightarrow> cwmp_request \<Rightarrow> string" where
  "build_cwmp_response mid Rq_inform_response = build_inform_response mid"
| "build_cwmp_response mid (Rq_get_values ns) = build_get_parameter_values mid ns"
| "build_cwmp_response mid (Rq_set_values ps) = build_set_parameter_values mid ps"
| "build_cwmp_response mid (Rq_get_names p l) = build_get_parameter_names mid p l"
| "build_cwmp_response mid (Rq_download p) = build_download mid p"
| "build_cwmp_response mid Rq_reboot = build_reboot mid"
| "build_cwmp_response mid Rq_factory_reset = build_factory_reset mid"
| "build_cwmp_response mid (Rq_start_ping p) = build_start_ping mid p"
| "build_cwmp_response mid (Rq_start_traceroute p) = build_start_traceroute mid p"
| "build_cwmp_response mid (Rq_diag_results ps) = build_diag_results mid ps"
| "build_cwmp_response mid Rq_transfer_complete_response = build_transfer_complete_response mid"
| "build_cwmp_response mid Rq_empty = build_empty mid"

section \<open>Tasks\<close>

text \<open>One entry of a stored list: reading a field of null throws, an entry without a name or a value
  is dropped.\<close>

definition list_param :: "json \<Rightarrow> js_error + set_param option" where
  "list_param p =
     (if p = J_null then Inl Type_error
      else
        let nm = or_json (prop_of p ''name'') (prop_of p ''path''); v = prop_of p ''value'' in
        if truthy nm \<and> v \<noteq> None \<and> v \<noteq> Some J_null
        then Inr (Some \<lparr>sp_name = text_field nm, sp_value = text_field v,
               sp_type = text_field (or_json (prop_of p ''type'') (Some (J_str ''xsd:string'')))\<rparr>)
        else Inr None)"

definition map_param :: "string \<times> json \<Rightarrow> set_param option" where
  "map_param kv = (case kv of (nm, v) \<Rightarrow>
     (case v of J_null \<Rightarrow> None | J_arr _ \<Rightarrow> None | J_obj _ \<Rightarrow> None
      | _ \<Rightarrow> Some (typed_param nm (js_string v) ''xsd:string'')))"

definition set_parameter_list :: "json \<Rightarrow> js_error + set_param list" where
  "set_parameter_list params =
     (let lst = (case params of J_arr xs \<Rightarrow> Some xs
                 | _ \<Rightarrow> (case prop_of params ''parameters'' of Some (J_arr xs) \<Rightarrow> Some xs | _ \<Rightarrow> None))
      in case lst of
           Some xs \<Rightarrow> bind_r (map_r list_param xs) (\<lambda>ps. Inr (List.map_filter id ps))
         | None \<Rightarrow> Inr (case params of J_obj kvs \<Rightarrow> List.map_filter map_param kvs | _ \<Rightarrow> []))"

text \<open>\<open>Array.isArray(params) ? params : (params.paths || [])\<close>, which the builder maps over.\<close>

definition paths_of :: "json \<Rightarrow> js_error + json list" where
  "paths_of params =
     (case params of J_arr xs \<Rightarrow> Inr xs | J_null \<Rightarrow> Inl Type_error
      | _ \<Rightarrow> (case prop_of params ''paths'' of
               Some (J_arr xs) \<Rightarrow> Inr xs
             | v \<Rightarrow> if truthy v then Inl Type_error else Inr []))"

text \<open>The message of a task; \<open>params\<close> is the parsed \<open>parameters\<close> column, the empty object when the
  column is empty.\<close>

definition build_response_for_task :: "nat \<Rightarrow> string \<Rightarrow> json \<Rightarrow> js_error + string" where
  "build_response_for_task tid ty params =
     (let mid = ''TASK-'' @ show_nat tid in
      if ty = ''get_parameter_values'' then
        bind_r (paths_of params) (\<lambda>ns. Inr (build_cwmp_response mid (Rq_get_values ns)))
      else if ty = ''set_parameter_values'' then
        bind_r (set_parameter_list params) (\<lambda>ps. Inr (build_cwmp_response mid (Rq_set_values ps)))
      else if ty = ''reboot'' then Inr (build_cwmp_response mid Rq_reboot)
      else if ty = ''factory_reset'' then Inr (build_cwmp_response mid Rq_factory_reset)
      else if ty = ''wifi_diagnostics'' \<or> ty = ''wan_diagnostics'' then
        bind_r (paths_of params) (\<lambda>ns. Inr (build_cwmp_response mid (Rq_get_values ns)))
      else if ty \<in> {''get_parameter_names'', ''download'', ''ping_diagnostic'', ''traceroute_diagnostic''} \<and>
              params = J_null then Inl Type_error
      else if ty = ''get_parameter_names'' then
        Inr (build_cwmp_response mid (Rq_get_names (opt_text params ''path'' [])
          (prop_of params ''nextLevel'' \<noteq> Some (J_bool False))))
      else if ty = ''download'' then
        Inr (build_cwmp_response mid (Rq_download \<lparr>dl_key = Some (''DL-'' @ show_nat tid),
          dl_file_type = Some (opt_text params ''fileType'' ''1 Firmware Upgrade Image''),
          dl_url = Some (opt_text params ''url'' []), dl_size = Some (opt_text params ''fileSize'' ''0'')\<rparr>))
      else if ty = ''ping_diagnostic'' then Inr (build_cwmp_response mid (Rq_start_ping params))
      else if ty = ''traceroute_diagnostic'' then
        Inr (build_cwmp_response mid (Rq_start_traceroute params))
      else Inr (build_cwmp_response mid Rq_empty))"

text \<open>The next task of a device: the lowest priority number, then the oldest.\<close>

definition task_before :: "cpe_task \<Rightarrow> cpe_task \<Rightarrow> bool" where
  "task_before a b \<longleftrightarrow> ct_priority a < ct_priority b \<or>
     ct_priority a = ct_priority b \<and> ct_queued_at a \<le> ct_queued_at b"

definition get_next_task :: "cpe_task list \<Rightarrow> nat \<Rightarrow> cpe_task option" where
  "get_next_task tasks device =
     (case filter (\<lambda>t. ct_device t = device \<and> ct_status t = ''queued'') tasks of
        [] \<Rightarrow> None
      | t # ts \<Rightarrow> Some (fold (\<lambda>b a. if task_before a b then a else b) ts t))"

section \<open>Escaping\<close>

lemma replace_char_Nil [simp]: "replace_char c r [] = []"
  by (simp add: replace_char_def)

lemma replace_char_Cons: "replace_char c r (x # s) = (if x = c then r else [x]) @ replace_char c r s"
  by (simp add: replace_char_def)

lemma replace_char_append: "replace_char c r (s @ t) = replace_char c r s @ replace_char c r t"
  by (simp add: replace_char_def)

text \<open>The five passes of \<open>xmlEscape\<close> amount to one replacement per character.\<close>

lemma xml_escape_chars: "xml_escape (Some s) = concat (map escape_char s)"
proof (induction s)
  case Nil
  show ?case by (simp add: xml_escape_def)
next
  case (Cons c s)
  then show ?case
    by (simp add: xml_escape_def escape_char_def replace_char_Cons)
qed

lemma escape_char_cases:
  "escape_char c = [c] \<and> c \<notin> set ''&<>'' \<and> c \<noteq> CHR 0x22 \<and> c \<noteq> CHR 0x27 \<or>
   c = CHR ''&'' \<and> escape_char c = ''&amp;'' \<or> c = CHR ''<'' \<and> escape_char c = ''&lt;'' \<or>
   c = CHR ''>'' \<and> escape_char c = ''&gt;'' \<or> c = CHR 0x22 \<and> escape_char c = ''&quot;'' \<or>
   c = CHR 0x27 \<and> escape_char c = ''&apos;''"
  by (auto simp: escape_char_def)

interpretation xml_esc: char_escaper escape_char "{CHR ''<'', CHR ''>'', CHR 0x22, CHR 0x27}"
proof unfold_locales
  fix c d
  assume "c \<in> set (escape_char d)"
  then show "c \<notin> {CHR ''<'', CHR ''>'', CHR 0x22, CHR 0x27}"
    using escape_char_cases [of d] by auto
next
  fix c d r r'
  assume "escape_char c @ r = escape_char d @ r'"
  then show "c = d \<and> r = r'"
    using escape_char_cases [of c] escape_char_cases [of d] by auto
next
  fix c
  show "escape_char c \<noteq> []" using escape_char_cases [of c] by auto
qed

lemma decode_reference:
  assumes "CHR '';'' \<notin> set ref" and "entity_ref ref"
  shows "decode_entities wide (CHR ''&'' # ref @ CHR '';'' # r) = decode_ref wide ref @ decode_entities wide r"
proof -
  have "index_of (CHR '';'') (ref @ CHR '';'' # r) = Some (length ref)"
    using assms(1) by (simp add: index_of_Some)
  with assms(2) show ?thesis by simp
qed

lemma named_references:
  "entity_ref ''amp'' \<and> decode_ref wide ''amp'' = ''&''" "entity_ref ''lt'' \<and> decode_ref wide ''lt'' = ''<''"
  "entity_ref ''gt'' \<and> decode_ref wide ''gt'' = ''>''"
  "entity_ref ''quot'' \<and> decode_ref wide ''quot'' = [CHR 0x22]"
  "entity_ref ''apos'' \<and> decode_ref wide ''apos'' = [CHR 0x27]"
  by (simp_all add: entity_ref_def is_letter_def decode_ref_def entities_def)

lemma decode_special:
  "decode_entities wide (''&amp;'' @ r) = CHR ''&'' # decode_entities wide r"
  "decode_entities wide (''&lt;'' @ r) = CHR ''<'' # decode_entities wide r"
  "decode_entities wide (''&gt;'' @ r) = CHR ''>'' # decode_entities wide r"
  "decode_entities wide (''&quot;'' @ r) = CHR 0x22 # decode_entities wide r"
  "decode_entities wide (''&apos;'' @ r) = CHR 0x27 # decode_entities wide r"
  using decode_reference [of "''amp''" wide r] decode_reference [of "''lt''" wide r]
    decode_reference [of "''gt''" wide r] decode_reference [of "''quot''" wide r]
    decode_reference [of "''apos''" wide r]
  by (simp_all add: named_references del: decode_entities.simps)

lemma decode_plain: "c \<noteq> CHR ''&'' \<Longrightarrow> decode_entities wide (c # r) = c # decode_entities wide r"
  by simp

lemma decode_escape_char: "decode_entities wide (escape_char c @ r) = c # decode_entities wide r"
proof (cases "c \<in> set ''&<>'' \<or> c = CHR 0x22 \<or> c = CHR 0x27")
  case True
  then show ?thesis
    using escape_char_cases [of c] decode_special [of wide r]
    by (elim disjE conjE) (simp_all only:, simp_all del: decode_entities.simps)
next
  case False
  then have "escape_char c = [c]" by (auto simp: escape_char_def)
  with False decode_plain [of c wide r] show ?thesis by simp
qed

lemma decode_escape: "decode_entities wide (concat (map escape_char s)) = s"
  by (induction s) (simp_all add: decode_escape_char)

lemma decode_xml_escape: "decode_entities wide (xml_escape (Some s)) = s"
  by (simp add: xml_escape_chars decode_escape)

lemma xml_escape_safe:
  "CHR ''<'' \<notin> set (xml_escape v)" "CHR ''>'' \<notin> set (xml_escape v)" "CHR 0x22 \<notin> set (xml_escape v)"
proof -
  have "c \<in> {CHR ''<'', CHR ''>'', CHR 0x22, CHR 0x27} \<Longrightarrow> c \<notin> set (xml_escape v)" for c
  proof (cases v)
    case None
    then show ?thesis by (simp add: xml_escape_def)
  next
    case (Some s)
    assume "c \<in> {CHR ''<'', CHR ''>'', CHR 0x22, CHR 0x27}"
    with xml_esc.concat_safe [of c s] show ?thesis unfolding Some xml_escape_chars by blast
  qed
  then show "CHR ''<'' \<notin> set (xml_escape v)" "CHR ''>'' \<notin> set (xml_escape v)"
    "CHR 0x22 \<notin> set (xml_escape v)" by simp_all
qed

section \<open>Search in document order\<close>

text \<open>The nodes of a tree in document order, and the outermost matches below a list of nodes.\<close>

primrec preorder :: "xnode \<Rightarrow> xnode list" where
  "preorder (Xnode nm cs tx) = Xnode nm cs tx # concat (map preorder cs)"

primrec outermost :: "string \<Rightarrow> xnode \<Rightarrow> xnode list" where
  "outermost want (Xnode nm cs tx) =
     (if nm = want then [Xnode nm cs tx] else concat (map (outermost want) cs))"

lemma preorder_unfold: "preorder v = v # concat (map preorder (xn_children v))"
  by (cases v) simp

lemma outermost_unfold:
  "outermost want v = (if xn_name v = want then [v] else concat (map (outermost want) (xn_children v)))"
  by (cases v) simp

lemma find_pending_preorder:
  "find_pending want p = find (\<lambda>v. xn_name v = want) (concat (map preorder p))"
proof (induction want p rule: find_pending.induct)
  case (2 want v pending)
  then show ?case by (simp add: preorder_unfold [of v])
qed simp

lemma find_all_pending_outermost: "find_all_pending want p = concat (map (outermost want) p)"
proof (induction want p rule: find_all_pending.induct)
  case (2 want v pending)
  then show ?case by (simp add: outermost_unfold [of want v])
qed simp

lemma detect_pending_preorder:
  "detect_pending p = map_option (\<lambda>v. (the (message_type_by_name (xn_name v)), v))
     (find (\<lambda>v. message_type_by_name (xn_name v) \<noteq> None) (concat (map preorder p)))"
proof (induction p rule: detect_pending.induct)
  case (2 v pending)
  then show ?case by (simp add: preorder_unfold [of v] split: option.splits)
qed simp

lemma tl_preorder: "tl (preorder v) = concat (map preorder (xn_children v))"
  by (simp add: preorder_unfold)

text \<open>The search loops with an explicit stack give what the recursive definitions give: the
  first element of that name in document order, the outermost elements of that name in document
  order, and the first element that names a known message.\<close>

theorem search_document_order:
  "find_first node tag = find (\<lambda>v. xn_name v = js_lower tag) (tl (preorder node)) \<and>
   find_all node tag = concat (map (outermost (js_lower tag)) (xn_children node)) \<and>
   detect_message_type node =
      (let body = (case find_first node ''Body'' of Some b \<Rightarrow> b | None \<Rightarrow> node) in
       case find (\<lambda>v. message_type_by_name (xn_name v) \<noteq> None) (tl (preorder body)) of
         Some v \<Rightarrow> (the (message_type_by_name (xn_name v)), v)
       | None \<Rightarrow> (''Unknown'', body))"
proof (intro conjI)
  show "find_first node tag = find (\<lambda>v. xn_name v = js_lower tag) (tl (preorder node))"
    by (simp add: find_first_def find_pending_preorder tl_preorder)
  show "find_all node tag = concat (map (outermost (js_lower tag)) (xn_children node))"
    by (simp add: find_all_def find_all_pending_outermost)
  show "detect_message_type node =
      (let body = (case find_first node ''Body'' of Some b \<Rightarrow> b | None \<Rightarrow> node) in
       case find (\<lambda>v. message_type_by_name (xn_name v) \<noteq> None) (tl (preorder body)) of
         Some v \<Rightarrow> (the (message_type_by_name (xn_name v)), v)
       | None \<Rightarrow> (''Unknown'', body))"
    unfolding detect_message_type_def Let_def detect_pending_preorder tl_preorder
    by (simp add: option.case_eq_if map_option_case)
qed

section \<open>What one pass keeps\<close>

text \<open>A property \<open>P m stk n\<close> of the stack, the number of elements and the length \<open>m\<close> of the text
  still to be read, kept by text, tags and skipped text, holds at the end of the pass.\<close>

locale parse_invariant =
  fixes wide :: "nat \<Rightarrow> string" and P :: "nat \<Rightarrow> frame list \<Rightarrow> nat \<Rightarrow> bool"
  assumes skip: "P m stk n \<Longrightarrow> m' \<le> m \<Longrightarrow> P m' stk n"
    and decoded: "P (length t + m) stk n \<Longrightarrow> P m (add_text (decode_entities wide t) stk) n"
    and raw_text: "P (length t + m) stk n \<Longrightarrow> P m (add_text t stk) n"
    and tag: "P (length inner + m) stk n \<Longrightarrow> handle_tag inner stk n = Inr (stk2, n2) \<Longrightarrow> P m stk2 n2"
begin

lemma parse_loop_keeps:
  "parse_loop w s stk n = Inr (stk', n') \<Longrightarrow> w = wide \<Longrightarrow> P (length s) stk n \<Longrightarrow> P 0 stk' n'"
proof (induction w s stk n rule: parse_loop.induct)
  case (1 w s stk n)
  show ?case
  proof (cases "index_of (CHR ''<'') s")
    case None
    with 1(5-7) show ?thesis
      using decoded [of s 0 stk n] by (simp add: parse_loop.simps [of _ s])
  next
    case (Some k)
    define stk1 where "stk1 = add_text (decode_entities w (take k s)) stk"
    define r where "r = drop k s"
    note IH = 1(1-4) [OF Some stk1_def r_def]
    have k: "k < length s" using Some by (simp add: index_of_Some)
    have P1: "P (length r) stk1 n"
      using decoded [of "take k s" "length r" stk n] 1(6,7) k by (simp add: stk1_def r_def)
    have res: "parse_loop w s stk n = Inr (stk', n')" by (rule 1(5))
    note res = res [unfolded parse_loop.simps [of _ s] Some option.case Let_def, folded stk1_def, folded r_def]
    have le: "length (after_str p (drop j r)) \<le> length r" for p j
      using length_after_str [of p "drop j r"] by simp
    show ?thesis
    proof (cases "starts_with ''<!--'' r")
      case True
      with res IH(1) [OF True] 1(6) skip [OF P1 le] show ?thesis by simp
    next
      case no1: False
      show ?thesis
      proof (cases "starts_with ''<![CDATA['' r")
        case True
        have "P (length (before_str '']]>'' (drop 9 r)) + length (after_str '']]>'' (drop 9 r))) stk1 n"
          by (rule skip [OF P1]) (use length_before_after [of "'']]>''" "drop 9 r"] in simp)
        from raw_text [OF this] res IH(2) [OF no1 True] 1(6) no1 True show ?thesis by simp
      next
        case no2: False
        show ?thesis
        proof (cases "starts_with ''<!'' r")
          case True
          with res no1 no2 show ?thesis by simp
        next
          case no3: False
          show ?thesis
          proof (cases "starts_with ''<?'' r")
            case True
            with res IH(3) [OF no1 no2 no3 True] 1(6) skip [OF P1 le] no1 no2 no3 show ?thesis by simp
          next
            case no4: False
            show ?thesis
            proof (cases "tag_end None (drop 1 r)")
              case None
              with res no1 no2 no3 no4 skip [OF P1, of 0] show ?thesis by simp
            next
              case (Some g)
              let ?inner = "take g (drop 1 r)"
              have g: "g < length (drop 1 r)" by (rule tag_end_bound [OF Some])
              from res no1 no2 no3 no4 Some obtain stk2 n2 where h: "handle_tag ?inner stk1 n = Inr (stk2, n2)"
                and rest: "parse_loop w (drop (Suc g) (drop 1 r)) stk2 n2 = Inr (stk', n')"
                by (auto split: sum.splits prod.splits)
              have "P (length ?inner + length (drop (Suc g) (drop 1 r))) stk1 n"
                by (rule skip [OF P1]) (use g in simp)
              from tag [OF this h] have "P (length (drop (Suc g) (drop 1 r))) stk2 n2" .
              with IH(4) [OF no1 no2 no3 no4 Some h refl rest 1(6)] show ?thesis by simp
            qed
          qed
        qed
      qed
    qed
  qed
qed

end

section \<open>Bounds\<close>

primrec tree_height :: "xnode \<Rightarrow> nat" where
  "tree_height (Xnode nm cs tx) = Suc (foldr max (map tree_height cs) 0)"

primrec text_size :: "xnode \<Rightarrow> nat" where
  "text_size (Xnode nm cs tx) = length nm + length tx + sum_list (map text_size cs)"

definition frame_count :: "frame list \<Rightarrow> nat" where
  "frame_count stk = sum_list (map (\<lambda>f. node_count (frame_node f)) stk)"

definition frame_size :: "frame list \<Rightarrow> nat" where
  "frame_size stk = sum_list (map (\<lambda>f. text_size (frame_node f)) stk)"

text \<open>The frame with \<open>i\<close> frames below it is at level \<open>i + 1\<close> of the tree.\<close>

fun levels_ok :: "nat \<Rightarrow> frame list \<Rightarrow> bool" where
  "levels_ok d [] \<longleftrightarrow> True"
| "levels_ok d (f # r) \<longleftrightarrow> tree_height (frame_node f) + length r \<le> d \<and> levels_ok d r"

lemma tree_height_add:
  "tree_height (Xnode nm (cs @ [c]) tx) = max (tree_height (Xnode nm cs tx)) (Suc (tree_height c))"
  by (induction cs) auto

lemma tree_height_text [simp]: "tree_height (Xnode nm cs (tx @ t)) = tree_height (Xnode nm cs tx)"
  by simp

declare tree_height.simps [simp del]

lemma frame_count_add_text [simp]: "frame_count (add_text t stk) = frame_count stk"
  by (cases stk) (simp_all add: frame_count_def add_text_def frame_node_def)

lemma length_add_text [simp]: "length (add_text t stk) = length stk"
  by (cases stk) (simp_all add: add_text_def)

lemma frame_count_add_child: "stk \<noteq> [] \<Longrightarrow> frame_count (add_child c stk) = frame_count stk + node_count c"
  by (cases stk) (simp_all add: frame_count_def add_child_def frame_node_def)

lemma frame_size_add_text: "stk \<noteq> [] \<Longrightarrow> frame_size (add_text t stk) = frame_size stk + length t"
  by (cases stk) (simp_all add: frame_size_def add_text_def frame_node_def)

lemma frame_size_add_child: "stk \<noteq> [] \<Longrightarrow> frame_size (add_child c stk) = frame_size stk + text_size c"
  by (cases stk) (simp_all add: frame_size_def add_child_def frame_node_def)

lemma levels_add_text [simp]: "levels_ok d (add_text t stk) = levels_ok d stk"
  by (cases stk) (simp_all add: add_text_def frame_node_def)

lemma levels_add_child:
  "stk \<noteq> [] \<Longrightarrow> levels_ok d (add_child c stk) \<longleftrightarrow> levels_ok d stk \<and> tree_height c + length stk \<le> d"
  by (cases stk) (auto simp: add_child_def frame_node_def tree_height_add)

lemma add_text_nonempty [simp]: "add_text t stk = [] \<longleftrightarrow> stk = []"
  by (cases stk) (simp_all add: add_text_def)

lemma add_child_nonempty [simp]: "add_child t stk = [] \<longleftrightarrow> stk = []"
  by (cases stk) (simp_all add: add_child_def)

text \<open>Closing frames keeps counts and sizes.\<close>

lemma frame_count_Cons:
  "frame_count [] = 0" "frame_count (f # r) = node_count (frame_node f) + frame_count r"
  by (simp_all add: frame_count_def)

lemma frame_size_Cons:
  "frame_size [] = 0" "frame_size (f # r) = text_size (frame_node f) + frame_size r"
  by (simp_all add: frame_size_def)

lemma close_to_keeps:
  "frame_count (close_to name stk) = frame_count stk" "frame_size (close_to name stk) = frame_size stk"
  "levels_ok d stk \<Longrightarrow> levels_ok d (close_to name stk)" "length (close_to name stk) \<le> length stk"
  "close_to name stk = [] \<longleftrightarrow> stk = []"
  by (induction name stk rule: close_to.induct)
    (auto simp: close_top_def frame_count_add_child frame_size_add_child levels_add_child
      frame_count_Cons frame_size_Cons)

lemma end_tag_keeps:
  "frame_count (end_tag name stk) = frame_count stk" "frame_size (end_tag name stk) = frame_size stk"
  "levels_ok d stk \<Longrightarrow> levels_ok d (end_tag name stk)" "length (end_tag name stk) \<le> length stk"
  "end_tag name stk = [] \<longleftrightarrow> stk = []"
  by (simp_all add: end_tag_def close_to_keeps)

lemma close_all_keeps:
  "stk \<noteq> [] \<Longrightarrow> node_count (close_all stk) = frame_count stk"
  "stk \<noteq> [] \<Longrightarrow> text_size (close_all stk) = frame_size stk"
  "stk \<noteq> [] \<Longrightarrow> levels_ok d stk \<Longrightarrow> tree_height (close_all stk) \<le> d"
  by (induction stk rule: close_all.induct)
    (auto simp: frame_count_add_child frame_size_add_child levels_add_child
      frame_count_Cons frame_size_Cons)

text \<open>A tag adds at most one element, whose name is no longer than the tag.\<close>

lemma tree_height_leaf [simp]: "tree_height (Xnode nm [] tx) = 1"
  by (simp add: tree_height.simps)

lemma length_local_name: "length (local_name q) \<le> length q"
  by (simp add: local_name_def js_lower_def split: option.splits)

lemma length_js_trim: "length (js_trim s) \<le> length s"
  by (metis js_trim_def length_dropWhile_le length_rev order_trans)

lemma length_tag_name:
  "length (local_name (first_word (js_trim (if b then butlast inner else inner)))) \<le> length inner"
proof -
  let ?s = "if b then butlast inner else inner"
  have "length (local_name (first_word (js_trim ?s))) \<le> length (first_word (js_trim ?s))"
    by (rule length_local_name)
  also have "\<dots> \<le> length (js_trim ?s)" by (simp add: first_word_def length_takeWhile_le)
  also have "\<dots> \<le> length ?s" by (rule length_js_trim)
  finally show ?thesis by (simp split: if_splits)
qed

definition pass_bounded :: "nat \<Rightarrow> frame list \<Rightarrow> nat \<Rightarrow> bool" where
  "pass_bounded m stk n \<longleftrightarrow> stk \<noteq> [] \<and> frame_count stk = n + 1 \<and> n \<le> max_elements \<and>
     length stk \<le> max_depth + 1 \<and> levels_ok (max_depth + 2) stk"

definition pass_sized :: "nat \<Rightarrow> nat \<Rightarrow> frame list \<Rightarrow> nat \<Rightarrow> bool" where
  "pass_sized b m stk n \<longleftrightarrow> stk \<noteq> [] \<and> frame_size stk + m \<le> b"

lemma handle_tag_bounded:
  assumes "pass_bounded m stk n" and "handle_tag inner stk n = Inr (stk2, n2)"
  shows "pass_bounded m' stk2 n2"
proof (cases "take 1 inner = ''/''")
  case True
  with assms show ?thesis
    by (auto simp: pass_bounded_def handle_tag_def end_tag_keeps intro: le_trans [OF end_tag_keeps(4)])
next
  case False
  with assms show ?thesis
    by (auto simp: pass_bounded_def handle_tag_def Let_def frame_count_add_child levels_add_child
        frame_count_Cons frame_node_def split: if_splits)
qed

lemma handle_tag_sized:
  assumes "pass_sized b (length inner + m) stk n" and "handle_tag inner stk n = Inr (stk2, n2)"
  shows "pass_sized b m stk2 n2"
proof (cases "take 1 inner = ''/''")
  case True
  with assms show ?thesis
    by (auto simp: pass_sized_def handle_tag_def end_tag_keeps)
next
  case False
  with assms length_tag_name [of "ends_with ''/'' inner" inner] show ?thesis
    by (auto simp: pass_sized_def handle_tag_def Let_def frame_size_add_child
        frame_size_Cons frame_node_def split: if_splits)
qed

lemma entities_one: "entities r = Some t \<Longrightarrow> length t = 1"
  by (auto simp: entities_def split: if_splits)

lemma decode_ref_length:
  assumes "\<forall>k. length (wide k) \<le> 2"
  shows "length (decode_ref wide r) \<le> length r + 2"
proof -
  have "length (from_code_point wide k) \<le> length r + 2" for k
    using spec [OF assms, of k] by (simp add: from_code_point_def)
  then show ?thesis
    by (auto simp: decode_ref_def Let_def dest!: entities_one split: option.splits)
qed

lemma decode_entities_length:
  "\<forall>k. length (wide k) \<le> 2 \<Longrightarrow> length (decode_entities wide s) \<le> length s"
proof (induction wide s rule: decode_entities.induct)
  case (2 w c s)
  show ?case
  proof (cases "index_of (CHR '';'') s")
    case None
    with 2 show ?thesis by simp
  next
    case (Some k)
    then have k: "k < length s" by (simp add: index_of_Some)
    have "length (decode_ref w (take k s)) \<le> k + 2"
      using decode_ref_length [OF 2(5), of "take k s"] k by simp
    with 2 Some k show ?thesis by auto
  qed
qed simp

interpretation pass_bound: parse_invariant wide pass_bounded
proof unfold_locales
  fix m stk n m' t inner stk2 n2
  show "pass_bounded m stk n \<Longrightarrow> m' \<le> m \<Longrightarrow> pass_bounded m' stk n"
    by (simp add: pass_bounded_def)
  show "pass_bounded (length t + m) stk n \<Longrightarrow> pass_bounded m (add_text (decode_entities wide t) stk) n"
    "pass_bounded (length t + m) stk n \<Longrightarrow> pass_bounded m (add_text t stk) n"
    by (simp_all add: pass_bounded_def)
  show "pass_bounded (length inner + m) stk n \<Longrightarrow> handle_tag inner stk n = Inr (stk2, n2) \<Longrightarrow>
      pass_bounded m stk2 n2"
    by (rule handle_tag_bounded)
qed

text \<open>The wide characters take at most a surrogate pair.\<close>

definition wide_text :: "nat \<Rightarrow> string" where
  "wide_text k = replicate (if k < 0x10000 then 1 else 2) (CHR ''?'')"

locale short_wide =
  fixes wide :: "nat \<Rightarrow> string"
  assumes short: "length (wide k) \<le> 2"
begin

lemma sized_invariant: "parse_invariant wide (pass_sized b)"
proof unfold_locales
  fix m stk n m' t inner stk2 n2
  show "pass_sized b m stk n \<Longrightarrow> m' \<le> m \<Longrightarrow> pass_sized b m' stk n"
    by (simp add: pass_sized_def)
  have "length (decode_entities wide t) \<le> length t"
    by (rule decode_entities_length) (simp add: short)
  then show "pass_sized b (length t + m) stk n \<Longrightarrow> pass_sized b m (add_text (decode_entities wide t) stk) n"
    by (simp add: pass_sized_def frame_size_add_text)
  show "pass_sized b (length t + m) stk n \<Longrightarrow> pass_sized b m (add_text t stk) n"
    by (simp add: pass_sized_def frame_size_add_text)
  show "pass_sized b (length inner + m) stk n \<Longrightarrow> handle_tag inner stk n = Inr (stk2, n2) \<Longrightarrow>
      pass_sized b m stk2 n2"
    by (rule handle_tag_sized)
qed

end

interpretation wide_text: short_wide wide_text
  by unfold_locales (simp add: wide_text_def)

text \<open>C26: the parser always returns, and a tree it returns has at most 20000 elements below the
  document root, at most 65 nested ones, and no more text than the document had: references never
  expand.\<close>

theorem parse_tree_bounded:
  assumes "\<forall>k. length (wide k) \<le> 2" and "parse_tree wide xml = Inr tree"
  shows "node_count tree \<le> 20001 \<and> tree_height tree \<le> 66 \<and> text_size tree \<le> length xml + 9"
proof -
  from assms(2) obtain stk n where p: "parse_loop wide xml [root_frame] 0 = Inr (stk, n)"
    and tree: "tree = close_all stk"
    by (auto simp: parse_tree_def split: sum.splits)
  have "pass_bounded (length xml) [root_frame] 0"
    by (simp add: pass_bounded_def frame_count_def frame_node_def root_frame_def max_depth_def)
  from pass_bound.parse_loop_keeps [OF p refl this] have b: "pass_bounded 0 stk n" .
  have "parse_invariant wide (pass_sized (length xml + 9))"
    by (rule short_wide.sized_invariant, unfold_locales) (simp add: assms(1))
  moreover have "pass_sized (length xml + 9) (length xml) [root_frame] 0"
    by (simp add: pass_sized_def frame_size_def frame_node_def root_frame_def)
  ultimately have s: "pass_sized (length xml + 9) 0 stk n"
    by (rule parse_invariant.parse_loop_keeps [OF _ p refl])
  from b s show ?thesis
    by (auto simp: tree pass_bounded_def pass_sized_def close_all_keeps max_elements_def max_depth_def)
qed

section \<open>Reading a document piece by piece\<close>

lemma index_of_append: "c \<notin> set t \<Longrightarrow> index_of c (t @ c # r) = Some (length t)"
  by (simp add: index_of_Some)

lemma add_text_Nil [simp]: "add_text [] stk = stk"
  by (cases stk) (simp_all add: add_text_def)

lemma add_text_append [simp]: "add_text t (add_text s stk) = add_text (s @ t) stk"
  by (cases stk) (simp_all add: add_text_def)

text \<open>Text up to the next tag.\<close>

lemma parse_text:
  assumes "CHR ''<'' \<notin> set t"
  shows "parse_loop wide (t @ CHR ''<'' # r) stk n =
    parse_loop wide (CHR ''<'' # r) (add_text (decode_entities wide t) stk) n"
  unfolding parse_loop.simps [of wide "t @ CHR ''<'' # r"] parse_loop.simps [of wide "CHR ''<'' # r"]
  by (simp add: index_of_append [OF assms])

lemma parse_last_text:
  "CHR ''<'' \<notin> set t \<Longrightarrow> parse_loop wide t stk n = Inr (add_text (decode_entities wide t) stk, n)"
  by (simp add: parse_loop.simps [of wide t] index_of_None [THEN iffD2])

text \<open>The quote that is open after a text.\<close>

fun quote_after :: "char option \<Rightarrow> string \<Rightarrow> char option" where
  "quote_after q [] = q"
| "quote_after q (c # s) =
     quote_after (case q of Some qc \<Rightarrow> if c = qc then None else q
                  | None \<Rightarrow> if c = CHR 0x22 \<or> c = CHR 0x27 then Some c else None) s"

lemma quote_after_append: "quote_after q (s @ t) = quote_after (quote_after q s) t"
  by (induction q s rule: quote_after.induct) simp_all

lemma quote_after_plain:
  "CHR 0x22 \<notin> set s \<Longrightarrow> CHR 0x27 \<notin> set s \<Longrightarrow> quote_after None s = None"
  by (induction s) auto

lemma quote_after_value: "qc \<notin> set s \<Longrightarrow> quote_after (Some qc) s = Some qc"
  by (induction s) auto

lemma tag_end_append:
  "CHR ''>'' \<notin> set s \<Longrightarrow> tag_end q (s @ r) = map_option (\<lambda>k. length s + k) (tag_end (quote_after q s) r)"
proof (induction s arbitrary: q)
  case Nil
  show ?case by (simp add: option.map_ident)
next
  case (Cons c s)
  then show ?case by (cases q) (auto simp: option.map_comp comp_def)
qed

text \<open>One tag: \<open>inner\<close> holds no \<open>>\<close> and its quotes are balanced.\<close>

definition plain_tag :: "string \<Rightarrow> bool" where
  "plain_tag inner \<longleftrightarrow> CHR ''>'' \<notin> set inner \<and> quote_after None inner = None \<and>
     take 1 inner \<noteq> ''!'' \<and> take 1 inner \<noteq> ''?''"

lemma parse_tag:
  assumes "plain_tag inner"
  shows "parse_loop wide (CHR ''<'' # inner @ CHR ''>'' # r) stk n =
    (case handle_tag inner stk n of Inl e \<Rightarrow> Inl e | Inr (stk2, n2) \<Rightarrow> parse_loop wide r stk2 n2)"
proof -
  have "tag_end None (inner @ CHR ''>'' # r) = Some (length inner)"
    using assms by (simp add: plain_tag_def tag_end_append)
  moreover have "\<not> starts_with ''<!--'' (CHR ''<'' # inner @ CHR ''>'' # r)"
    "\<not> starts_with ''<![CDATA['' (CHR ''<'' # inner @ CHR ''>'' # r)"
    "\<not> starts_with ''<!'' (CHR ''<'' # inner @ CHR ''>'' # r)"
    "\<not> starts_with ''<?'' (CHR ''<'' # inner @ CHR ''>'' # r)"
    using assms by (cases inner; simp add: plain_tag_def starts_with_def)+
  moreover have "drop (Suc (length inner)) (drop 1 (CHR ''<'' # inner @ CHR ''>'' # r)) = r"
    by simp
  ultimately show ?thesis
    by (simp add: parse_loop.simps [of wide "CHR ''<'' # inner @ CHR ''>'' # r"] split: sum.split)
qed

text \<open>Opening and closing an element.\<close>

definition open_tag :: "string \<Rightarrow> string \<Rightarrow> bool" where
  "open_tag inner nm \<longleftrightarrow> take 1 inner \<noteq> ''/'' \<and> \<not> ends_with ''/'' inner \<and>
     first_word (js_trim inner) \<noteq> [] \<and> local_name (first_word (js_trim inner)) = nm"

definition new_frame :: "string \<Rightarrow> frame" where
  "new_frame nm = \<lparr>fr_name = nm, fr_children = [], fr_text = []\<rparr>"

lemma handle_open:
  "open_tag inner nm \<Longrightarrow> n < max_elements \<Longrightarrow> length stk \<le> max_depth \<Longrightarrow>
     handle_tag inner stk n = Inr (new_frame nm # stk, n + 1)"
  by (simp add: handle_tag_def open_tag_def new_frame_def Let_def)

lemma handle_close:
  "local_name (js_trim nm) = fr_name f \<Longrightarrow> stk \<noteq> [] \<Longrightarrow>
     handle_tag (CHR ''/'' # nm) (f # stk) n = Inr (add_child (frame_node f) stk, n)"
  by (cases stk) (simp_all add: handle_tag_def end_tag_def close_top_def)

lemma parse_open:
  "plain_tag inner \<Longrightarrow> open_tag inner nm \<Longrightarrow> n < max_elements \<Longrightarrow> length stk \<le> max_depth \<Longrightarrow>
     parse_loop wide (CHR ''<'' # inner @ CHR ''>'' # r) stk n = parse_loop wide r (new_frame nm # stk) (n + 1)"
  by (simp add: parse_tag handle_open)

lemma parse_close:
  "plain_tag (CHR ''/'' # nm) \<Longrightarrow> local_name (js_trim nm) = fr_name f \<Longrightarrow> stk \<noteq> [] \<Longrightarrow>
     parse_loop wide (CHR ''<'' # CHR ''/'' # nm @ CHR ''>'' # r) (f # stk) n =
       parse_loop wide r (add_child (frame_node f) stk) n"
  using parse_tag [of "CHR ''/'' # nm" wide r "f # stk" n] by (simp add: handle_close)

text \<open>An element that holds a text: the tag with its attributes, the text, the end tag.\<close>

lemma add_text_new_frame: "add_text t (new_frame nm # stk) = \<lparr>fr_name = nm, fr_children = [], fr_text = t\<rparr> # stk"
  by (simp add: add_text_def new_frame_def)

lemma parse_leaf:
  assumes "plain_tag inner" and "open_tag inner (local_name (js_trim nm))" and "n < max_elements"
    and "length stk \<le> max_depth" and "stk \<noteq> []" and "plain_tag (CHR ''/'' # nm)" and "CHR ''<'' \<notin> set t"
  shows "parse_loop wide (CHR ''<'' # inner @ CHR ''>'' # t @ CHR ''<'' # CHR ''/'' # nm @ CHR ''>'' # r) stk n =
    parse_loop wide r (add_child (Xnode (local_name (js_trim nm)) [] (decode_entities wide t)) stk) (n + 1)"
  using assms
  by (simp add: parse_open [OF assms(1,2)] parse_text add_text_new_frame parse_close frame_node_def)

section \<open>SetParameterValues reaches the device as written\<close>

text \<open>The value of a field as the device reads it; a missing one is empty.\<close>

definition field_text :: "string option \<Rightarrow> string" where
  "field_text v = (case v of None \<Rightarrow> [] | Some s \<Rightarrow> s)"

lemma decode_field: "decode_entities wide (xml_escape v) = field_text v"
  by (cases v) (simp_all add: field_text_def decode_xml_escape, simp add: xml_escape_def)

definition struct_node :: "set_param \<Rightarrow> xnode" where
  "struct_node p = Xnode ''parametervaluestruct''
     [Xnode ''name'' [] (field_text (sp_name p)), Xnode ''value'' [] (field_text (sp_value p))]
     (nl @ ''        '' @ nl @ ''        '' @ nl @ ''      '')"

lemmas tag_eval = plain_tag_def open_tag_def ends_with_def first_word_def js_trim_def local_name_def
  js_lower_def lower_char_def js_ws_def

lemma struct_tags:
  "plain_tag ''ParameterValueStruct'' \<and> open_tag ''ParameterValueStruct'' ''parametervaluestruct''"
  "plain_tag ''/ParameterValueStruct'' \<and> local_name (js_trim ''ParameterValueStruct'') = ''parametervaluestruct''"
  "plain_tag ''Name'' \<and> open_tag ''Name'' ''name''" "plain_tag ''/Name'' \<and> local_name (js_trim ''Name'') = ''name''"
  "plain_tag ''/Value'' \<and> local_name (js_trim ''Value'') = ''value''"
  by code_simp+

text \<open>The attribute of \<open>Value\<close> is escaped, so it cannot close its quote.\<close>

definition attr_tag :: "string \<Rightarrow> string \<Rightarrow> string \<Rightarrow> string" where
  "attr_tag nm attr v = nm @ CHR '' '' # attr @ CHR 0x22 # v @ [CHR 0x22]"

definition attr_ok :: "string \<Rightarrow> string \<Rightarrow> bool" where
  "attr_ok nm attr \<longleftrightarrow> nm \<noteq> [] \<and> take 1 nm \<notin> set [''/'', ''!'', ''?''] \<and> list_all (\<lambda>c. \<not> js_ws c) nm \<and>
     list_all (\<lambda>c. c \<notin> set [CHR ''>'', CHR 0x22, CHR 0x27]) (nm @ CHR '' '' # attr)"

lemma attr_tag_last: "last (attr_tag nm attr v) = CHR 0x22" "attr_tag nm attr v \<noteq> []"
  by (simp_all add: attr_tag_def)

lemma attr_tag_plain:
  assumes "attr_ok nm attr" and "CHR ''>'' \<notin> set v" and "CHR 0x22 \<notin> set v"
  shows "plain_tag (attr_tag nm attr v)"
proof -
  have "quote_after None (nm @ CHR '' '' # attr) = None"
    by (rule quote_after_plain) (use assms(1) in \<open>auto simp: attr_ok_def list_all_iff\<close>)
  then have "quote_after None (attr_tag nm attr v) = None"
    using quote_after_append [of None "nm @ CHR '' '' # attr" "CHR 0x22 # v @ [CHR 0x22]"] assms(3)
    by (simp add: attr_tag_def quote_after_append quote_after_value)
  moreover have "take 1 (attr_tag nm attr v) = take 1 nm"
    using assms(1) by (simp add: attr_tag_def attr_ok_def Suc_le_eq)
  ultimately show ?thesis
    using assms by (auto simp: plain_tag_def attr_ok_def attr_tag_def list_all_iff)
qed

lemma attr_tag_word:
  assumes "attr_ok nm attr"
  shows "first_word (js_trim (attr_tag nm attr v)) = nm"
proof -
  have "\<not> js_ws (hd (attr_tag nm attr v))"
    using assms by (cases nm) (simp_all add: attr_tag_def attr_ok_def)
  moreover have "\<not> js_ws (CHR 0x22)" by code_simp
  ultimately have "js_trim (attr_tag nm attr v) = attr_tag nm attr v"
    by (intro js_trim_id) (simp_all add: attr_tag_last)
  moreover have "js_ws (CHR '' '')" by code_simp
  ultimately show ?thesis
    using assms by (simp add: first_word_def attr_tag_def attr_ok_def list_all_iff)
qed

lemma attr_tag_open:
  assumes "attr_ok nm attr" and "local_name nm = ln"
  shows "open_tag (attr_tag nm attr v) ln"
proof -
  have "\<not> ends_with ''/'' (attr_tag nm attr v)"
  proof
    assume "ends_with ''/'' (attr_tag nm attr v)"
    then obtain u where "attr_tag nm attr v = u @ ''/''"
      unfolding ends_with_def by (metis append_take_drop_id)
    with attr_tag_last(1) [of nm attr v] show False by simp
  qed
  moreover have "take 1 (attr_tag nm attr v) = take 1 nm"
    using assms(1) by (simp add: attr_tag_def attr_ok_def Suc_le_eq)
  ultimately show ?thesis
    using assms by (simp add: open_tag_def attr_tag_word attr_ok_def)
qed

lemma attr_tags_ok:
  "attr_ok ''Value'' ''xsi:type='' \<and> local_name ''Value'' = ''value''"
  "attr_ok ''ParameterList'' ''soapenv:arrayType='' \<and> local_name ''ParameterList'' = ''parameterlist''"
  "attr_ok ''cwmp:ID'' ''soapenv:mustUnderstand='' \<and> local_name ''cwmp:ID'' = ''id''"
  by code_simp+

text \<open>White space between tags.\<close>

definition blank :: "string \<Rightarrow> bool" where
  "blank t \<longleftrightarrow> list_all (\<lambda>c. c = CHR '' '' \<or> c = CHR 0x0A) t"

lemma decode_blank: "blank t \<Longrightarrow> decode_entities wide t = t"
  by (induction t) (auto simp: blank_def)

lemma blank_no_tag: "blank t \<Longrightarrow> CHR ''<'' \<notin> set t"
  by (induction t) (auto simp: blank_def)

lemma parse_blank:
  "blank t \<Longrightarrow> parse_loop wide (t @ CHR ''<'' # r) stk n = parse_loop wide (CHR ''<'' # r) (add_text t stk) n"
  by (simp only: parse_text [OF blank_no_tag] decode_blank)

lemma blanks:
  "blank nl" "blank ''    ''" "blank ''      ''" "blank (nl @ ''        '')" "blank (nl @ ''      '')" "blank (nl @ ''    '')"
  "blank (nl @ ''  '')" "blank t \<Longrightarrow> blank u \<Longrightarrow> blank (t @ u)"
  by (simp_all add: blank_def nl_def)

lemma param_struct_pieces:
  "param_struct p @ r = ''      '' @ CHR ''<'' # ''ParameterValueStruct'' @ CHR ''>'' # (nl @ ''        '') @
     CHR ''<'' # ''Name'' @ CHR ''>'' # xml_escape (sp_name p) @ CHR ''<'' # CHR ''/'' # ''Name'' @ CHR ''>'' #
     (nl @ ''        '') @ CHR ''<'' # attr_tag ''Value'' ''xsi:type='' (xml_escape (Some (or_text (sp_type p) ''xsd:string''))) @ CHR ''>'' # xml_escape (sp_value p) @ CHR ''<'' # CHR ''/'' # ''Value'' @ CHR ''>'' #
     (nl @ ''      '') @ CHR ''<'' # CHR ''/'' # ''ParameterValueStruct'' @ CHR ''>'' # r"
  by (simp only: param_struct_def attr_tag_def nl_def append.simps append_assoc)

text \<open>The parts of one \<open>ParameterValueStruct\<close>.\<close>

lemma parse_name_leaf:
  assumes "n < max_elements" and "stk \<noteq> []" and "length stk \<le> max_depth"
  shows "parse_loop wide (CHR ''<'' # ''Name'' @ CHR ''>'' # xml_escape v @ CHR ''<'' # CHR ''/'' # ''Name'' @ CHR ''>'' # r)
      stk n = parse_loop wide r (add_child (Xnode ''name'' [] (field_text v)) stk) (n + 1)"
  using parse_leaf [of "''Name''" "''Name''" n stk "xml_escape v" wide r] struct_tags assms xml_escape_safe
  by (simp only: decode_field simp_thms)

lemma parse_value_leaf:
  assumes "n < max_elements" and "stk \<noteq> []" and "length stk \<le> max_depth"
  shows "parse_loop wide (CHR ''<'' # attr_tag ''Value'' ''xsi:type='' (xml_escape ty) @ CHR ''>'' # xml_escape v @
      CHR ''<'' # CHR ''/'' # ''Value'' @ CHR ''>'' # r) stk n =
    parse_loop wide r (add_child (Xnode ''value'' [] (field_text v)) stk) (n + 1)"
  using parse_leaf [of "attr_tag ''Value'' ''xsi:type='' (xml_escape ty)" "''Value''" n stk "xml_escape v" wide r]
    attr_tag_plain [of "''Value''" "''xsi:type=''" "xml_escape ty"]
    attr_tag_open [of "''Value''" "''xsi:type=''" _ "xml_escape ty"]
    struct_tags assms xml_escape_safe attr_tags_ok(1)
  by (simp only: decode_field simp_thms)

lemma parse_struct_open:
  assumes "n < max_elements" and "length stk \<le> max_depth" and "blank w"
  shows "parse_loop wide (w @ ''      '' @ CHR ''<'' # ''ParameterValueStruct'' @ CHR ''>'' # r) stk n =
    parse_loop wide r (new_frame ''parametervaluestruct'' # add_text (w @ ''      '') stk) (n + 1)"
  using parse_blank [OF blanks(8) [OF assms(3) blanks(3)], of wide "''ParameterValueStruct'' @ CHR ''>'' # r" stk n]
    parse_open [of "''ParameterValueStruct''" "''parametervaluestruct''" n "add_text (w @ ''      '') stk" wide r]
    struct_tags assms
  by (simp only: append_assoc length_add_text simp_thms)

lemma parse_struct_close:
  assumes "fr_name f = ''parametervaluestruct''" and "stk \<noteq> []"
  shows "parse_loop wide (CHR ''<'' # CHR ''/'' # ''ParameterValueStruct'' @ CHR ''>'' # r) (f # stk) n =
    parse_loop wide r (add_child (frame_node f) stk) n"
  by (rule parse_close) (use struct_tags assms in simp_all)

lemma parse_param_struct:
  assumes "n + 3 \<le> max_elements" and "stk \<noteq> []" and "length stk < max_depth" and "blank w"
  shows "parse_loop wide (w @ param_struct p @ r) stk n =
    parse_loop wide r (add_child (struct_node p) (add_text (w @ ''      '') stk)) (n + 3)"
proof -
  let ?f1 = "new_frame ''parametervaluestruct'' # add_text (w @ ''      '') stk"
  let ?F = "\<lparr>fr_name = ''parametervaluestruct'',
       fr_children = [Xnode ''name'' [] (field_text (sp_name p)), Xnode ''value'' [] (field_text (sp_value p))],
       fr_text = nl @ ''        '' @ nl @ ''        '' @ nl @ ''      ''\<rparr>"
  let ?s1 = "add_text (nl @ ''        '') ?f1"
  let ?s2 = "add_text (nl @ ''        '') (add_child (Xnode ''name'' [] (field_text (sp_name p))) ?s1)"
  let ?s3 = "add_text (nl @ ''      '') (add_child (Xnode ''value'' [] (field_text (sp_value p))) ?s2)"
  have lt: "n < max_elements" "n + 1 < max_elements" "n + 1 + 1 < max_elements" using assms(1) by simp_all
  have ne: "?s1 \<noteq> []" "?s2 \<noteq> []" and le: "length stk \<le> max_depth" "length ?s1 \<le> max_depth" "length ?s2 \<le> max_depth"
    using assms(3) by simp_all
  have "parse_loop wide (w @ param_struct p @ r) stk n =
    parse_loop wide (CHR ''<'' # CHR ''/'' # ''ParameterValueStruct'' @ CHR ''>'' # r) ?s3 (n + 1 + 1 + 1)"
    unfolding param_struct_pieces parse_struct_open [OF lt(1) le(1) assms(4)] parse_blank [OF blanks(4)]
      parse_name_leaf [OF lt(2) ne(1) le(2)] parse_value_leaf [OF lt(3) ne(2) le(3)] parse_blank [OF blanks(5)]
    by (rule refl)
  also have "?s3 = ?F # add_text (w @ ''      '') stk"
    by (simp add: add_text_def add_child_def new_frame_def)
  also have "parse_loop wide (CHR ''<'' # CHR ''/'' # ''ParameterValueStruct'' @ CHR ''>'' # r)
      (?F # add_text (w @ ''      '') stk) (n + 1 + 1 + 1) =
    parse_loop wide r (add_child (frame_node ?F) (add_text (w @ ''      '') stk)) (n + 1 + 1 + 1)"
    by (rule parse_struct_close) (use assms(2) in simp_all)
  also have "frame_node ?F = struct_node p" by (simp add: frame_node_def struct_node_def)
  also have "n + 1 + 1 + 1 = n + 3" by simp
  finally show ?thesis .
qed

text \<open>The list of them.\<close>

lemma parse_param_structs:
  assumes "n + 3 * length ps \<le> max_elements" and "length rest + 1 < max_depth" and "blank w" and "ps \<noteq> []"
  shows "\<exists>t. parse_loop wide (w @ js_join nl (map param_struct ps) @ r) (f # rest) n =
    parse_loop wide r (f\<lparr>fr_text := t, fr_children := fr_children f @ map struct_node ps\<rparr> # rest) (n + 3 * length ps)"
  using assms
proof (induction ps arbitrary: f n w)
  case Nil
  then show ?case by simp
next
  case (Cons p ps)
  let ?f = "f\<lparr>fr_text := fr_text f @ w @ ''      '', fr_children := fr_children f @ [struct_node p]\<rparr>"
  have step: "parse_loop wide (w @ param_struct p @ u) (f # rest) n = parse_loop wide u (?f # rest) (n + 3)" for u
    using parse_param_struct [of n "f # rest" w wide p u] Cons.prems by (simp add: add_child_def add_text_def)
  show ?case
  proof (cases "ps = []")
    case True
    then show ?thesis using step [of r] by auto
  next
    case False
    then have j: "js_join nl (map param_struct (p # ps)) = param_struct p @ nl @ js_join nl (map param_struct ps)"
      by (simp add: js_join_Cons)
    obtain t where t: "parse_loop wide (nl @ js_join nl (map param_struct ps) @ r) (?f # rest) (n + 3) =
      parse_loop wide r (?f\<lparr>fr_text := t, fr_children := fr_children ?f @ map struct_node ps\<rparr> # rest) (n + 3 + 3 * length ps)"
      using Cons.IH [of "n + 3" nl ?f] Cons.prems False blanks(1) by auto
    have "parse_loop wide (w @ js_join nl (map param_struct (p # ps)) @ r) (f # rest) n =
        parse_loop wide (nl @ js_join nl (map param_struct ps) @ r) (?f # rest) (n + 3)"
      using step [of "nl @ js_join nl (map param_struct ps) @ r"] by (simp only: j append_assoc)
    with t show ?thesis by (auto simp: algebra_simps)
  qed
qed

section \<open>The envelope\<close>

lemma parse_instruction:
  assumes "CHR ''?'' \<notin> set t"
  shows "parse_loop wide (CHR ''<'' # CHR ''?'' # t @ CHR ''?'' # CHR ''>'' # r) stk n = parse_loop wide r stk n"
proof -
  have "index_str ''?>'' (t @ CHR ''?'' # CHR ''>'' # r) = Some (length t)"
    using assms by (induction t) (auto simp: starts_with_def)
  then have "after_str ''?>'' (t @ CHR ''?'' # CHR ''>'' # r) = r"
    by (simp add: after_str_def)
  then show ?thesis
    by (simp add: parse_loop.simps [of wide "CHR ''<'' # _"] starts_with_def)
qed

definition envelope_inner :: string where
  "envelope_inner = ''soapenv:Envelope xmlns:soapenv='' @ [CHR 0x22] @ ''http://schemas.xmlsoap.org/soap/envelope/''
     @ [CHR 0x22] @ nl @ ''                  xmlns:cwmp='' @ [CHR 0x22] @ ''urn:dslforum-org:cwmp-1-0'' @ [CHR 0x22]
     @ nl @ ''                  xmlns:xsd='' @ [CHR 0x22] @ ''http://www.w3.org/2001/XMLSchema'' @ [CHR 0x22]
     @ nl @ ''                  xmlns:xsi='' @ [CHR 0x22] @ ''http://www.w3.org/2001/XMLSchema-instance'' @ [CHR 0x22]"

definition instruction_inner :: string where
  "instruction_inner = ''xml version='' @ [CHR 0x22] @ ''1.0'' @ [CHR 0x22] @ '' encoding='' @ [CHR 0x22] @ ''UTF-8'' @ [CHR 0x22]"

lemma envelope_tags:
  "plain_tag envelope_inner \<and> open_tag envelope_inner ''envelope''"
  "plain_tag ''/soapenv:Envelope'' \<and> local_name (js_trim ''soapenv:Envelope'') = ''envelope''"
  "plain_tag ''soapenv:Header'' \<and> open_tag ''soapenv:Header'' ''header''"
  "plain_tag ''/soapenv:Header'' \<and> local_name (js_trim ''soapenv:Header'') = ''header''"
  "plain_tag ''soapenv:Body'' \<and> open_tag ''soapenv:Body'' ''body''"
  "plain_tag ''/soapenv:Body'' \<and> local_name (js_trim ''soapenv:Body'') = ''body''"
  "plain_tag ''/cwmp:ID'' \<and> local_name (js_trim ''cwmp:ID'') = ''id''"
  "CHR ''?'' \<notin> set instruction_inner"
  by code_simp+

definition envelope_tail :: string where
  "envelope_tail = (nl @ ''  '') @ CHR ''<'' # CHR ''/'' # ''soapenv:Body'' @ CHR ''>'' #
     nl @ CHR ''<'' # CHR ''/'' # ''soapenv:Envelope'' @ CHR ''>'' # []"

lemma wrap_pieces:
  "wrap_envelope mid body = CHR ''<'' # CHR ''?'' # instruction_inner @ CHR ''?'' # CHR ''>'' # nl @
     CHR ''<'' # envelope_inner @ CHR ''>'' # (nl @ ''  '') @ CHR ''<'' # ''soapenv:Header'' @ CHR ''>'' #
     (nl @ ''    '') @ CHR ''<'' # attr_tag ''cwmp:ID'' ''soapenv:mustUnderstand='' ''1'' @ CHR ''>'' #
     xml_escape (Some mid) @ CHR ''<'' # CHR ''/'' # ''cwmp:ID'' @ CHR ''>'' # (nl @ ''  '') @
     CHR ''<'' # CHR ''/'' # ''soapenv:Header'' @ CHR ''>'' # (nl @ ''  '') @ CHR ''<'' # ''soapenv:Body'' @ CHR ''>'' #
     (nl @ ''    '') @ body @ envelope_tail"
  by (simp only: wrap_envelope_def soap_header_def instruction_inner_def envelope_inner_def envelope_tail_def
      attr_tag_def nl_def append.simps append_assoc)

text \<open>The open elements when the body of a message begins.\<close>

definition header_node :: "string \<Rightarrow> xnode" where
  "header_node mid = Xnode ''header'' [Xnode ''id'' [] mid] (nl @ ''    '' @ nl @ ''  '')"

definition envelope_frame :: "string \<Rightarrow> frame" where
  "envelope_frame mid = \<lparr>fr_name = ''envelope'', fr_children = [header_node mid], fr_text = nl @ ''  '' @ nl @ ''  ''\<rparr>"

definition outer_frames :: "string \<Rightarrow> frame list" where
  "outer_frames mid = [envelope_frame mid, \<lparr>fr_name = ''#document'', fr_children = [], fr_text = nl\<rparr>]"

lemma parse_id_leaf:
  assumes "n < max_elements" and "stk \<noteq> []" and "length stk \<le> max_depth"
  shows "parse_loop wide (CHR ''<'' # attr_tag ''cwmp:ID'' ''soapenv:mustUnderstand='' ''1'' @ CHR ''>'' #
      xml_escape (Some mid) @ CHR ''<'' # CHR ''/'' # ''cwmp:ID'' @ CHR ''>'' # r) stk n =
    parse_loop wide r (add_child (Xnode ''id'' [] mid) stk) (n + 1)"
  using parse_leaf [of "attr_tag ''cwmp:ID'' ''soapenv:mustUnderstand='' ''1''" "''cwmp:ID''" n stk "xml_escape (Some mid)" wide r]
    attr_tag_plain [of "''cwmp:ID''" "''soapenv:mustUnderstand=''" "''1''"]
    attr_tag_open [of "''cwmp:ID''" "''soapenv:mustUnderstand=''" _ "''1''"]
    envelope_tags assms xml_escape_safe attr_tags_ok(3)
  by (simp add: decode_xml_escape)

lemma parse_wrap:
  "parse_loop wide (wrap_envelope mid body) [root_frame] 0 =
   parse_loop wide ((nl @ ''    '') @ body @ envelope_tail) (new_frame ''body'' # outer_frames mid) 4"
proof -
  let ?s0 = "add_text nl [root_frame]"
  let ?s1 = "add_text (nl @ ''  '') (new_frame ''envelope'' # ?s0)"
  let ?s2 = "add_text (nl @ ''    '') (new_frame ''header'' # ?s1)"
  have big: "0 < max_elements" "0 + 1 < max_elements" "0 + 1 + 1 < max_elements" "0 + 1 + 1 + 1 < max_elements"
    "length ?s0 \<le> max_depth" "length ?s1 \<le> max_depth" "length ?s2 \<le> max_depth" "?s2 \<noteq> []"
    by (simp_all add: max_elements_def max_depth_def)
  let ?rest = "(nl @ ''  '') @ CHR ''<'' # ''soapenv:Body'' @ CHR ''>'' # (nl @ ''    '') @ body @ envelope_tail"
  let ?s3 = "add_text (nl @ ''  '') (add_child (Xnode ''id'' [] mid) ?s2)"
  let ?F = "\<lparr>fr_name = ''header'', fr_children = [Xnode ''id'' [] mid], fr_text = nl @ ''    '' @ nl @ ''  ''\<rparr>"
  let ?s4 = "add_text (nl @ ''  '') (add_child (frame_node ?F) ?s1)"
  have "parse_loop wide (wrap_envelope mid body) [root_frame] 0 =
    parse_loop wide (CHR ''<'' # CHR ''/'' # ''soapenv:Header'' @ CHR ''>'' # ?rest) ?s3 (0 + 1 + 1 + 1)"
    unfolding wrap_pieces parse_instruction [OF envelope_tags(8)] parse_blank [OF blanks(1)]
      parse_open [OF conjunct1 [OF envelope_tags(1)] conjunct2 [OF envelope_tags(1)] big(1) big(5)]
      parse_blank [OF blanks(7)]
      parse_open [OF conjunct1 [OF envelope_tags(3)] conjunct2 [OF envelope_tags(3)] big(2) big(6)]
      parse_blank [OF blanks(6)] parse_id_leaf [OF big(3) big(8) big(7)]
    by (rule refl)
  also have "?s3 = ?F # ?s1" by (simp add: add_text_def add_child_def new_frame_def)
  also have "parse_loop wide (CHR ''<'' # CHR ''/'' # ''soapenv:Header'' @ CHR ''>'' # ?rest) (?F # ?s1) (0 + 1 + 1 + 1) =
    parse_loop wide ?rest (add_child (frame_node ?F) ?s1) (0 + 1 + 1 + 1)"
    by (rule parse_close) (use envelope_tags(4) in simp_all)
  also have "\<dots> = parse_loop wide ((nl @ ''    '') @ body @ envelope_tail) (new_frame ''body'' # ?s4) (0 + 1 + 1 + 1 + 1)"
    unfolding parse_blank [OF blanks(7)]
    by (rule parse_open) (use envelope_tags(5) big in simp_all)
  also have "?s4 = outer_frames mid"
    by (simp add: add_text_def add_child_def new_frame_def frame_node_def header_node_def envelope_frame_def
        outer_frames_def root_frame_def)
  also have "(0::nat) + 1 + 1 + 1 + 1 = 4" by simp
  finally show ?thesis .
qed

text \<open>The end of the envelope.\<close>

definition envelope_tree :: "string \<Rightarrow> xnode list \<Rightarrow> string \<Rightarrow> xnode" where
  "envelope_tree mid kids tx = Xnode ''#document''
     [Xnode ''envelope'' [header_node mid, Xnode ''body'' kids (tx @ nl @ ''  '')] (nl @ ''  '' @ nl @ ''  '' @ nl)] nl"

lemma parse_tail:
  "parse_loop wide envelope_tail (\<lparr>fr_name = ''body'', fr_children = kids, fr_text = tx\<rparr> # outer_frames mid) n =
   Inr ([\<lparr>fr_name = ''#document'', fr_children = xn_children (envelope_tree mid kids tx), fr_text = nl\<rparr>], n)"
proof -
  let ?b = "\<lparr>fr_name = ''body'', fr_children = kids, fr_text = tx\<rparr>"
  let ?b1 = "\<lparr>fr_name = ''body'', fr_children = kids, fr_text = tx @ nl @ ''  ''\<rparr>"
  let ?e = "\<lparr>fr_name = ''envelope'', fr_children = [header_node mid, frame_node ?b1], fr_text = nl @ ''  '' @ nl @ ''  '' @ nl\<rparr>"
  let ?root = "\<lparr>fr_name = ''#document'', fr_children = [], fr_text = nl\<rparr>"
  let ?rest_end = "nl @ CHR ''<'' # CHR ''/'' # ''soapenv:Envelope'' @ CHR ''>'' # []"
  have "parse_loop wide envelope_tail (?b # outer_frames mid) n =
    parse_loop wide (CHR ''<'' # CHR ''/'' # ''soapenv:Body'' @ CHR ''>'' # ?rest_end) (?b1 # outer_frames mid) n"
    unfolding envelope_tail_def parse_blank [OF blanks(7)] by (simp only: add_text_def list.case frame.simps append_assoc)
  also have "\<dots> = parse_loop wide ?rest_end (add_child (frame_node ?b1) (outer_frames mid)) n"
    by (rule parse_close) (use envelope_tags(6) in \<open>simp_all add: outer_frames_def\<close>)
  also have "\<dots> = parse_loop wide (CHR ''<'' # CHR ''/'' # ''soapenv:Envelope'' @ CHR ''>'' # []) (?e # [?root]) n"
    unfolding parse_blank [OF blanks(1)] outer_frames_def envelope_frame_def
    by (simp only: add_text_def add_child_def list.case frame.simps append_assoc append.simps)
  also have "\<dots> = parse_loop wide [] (add_child (frame_node ?e) [?root]) n"
    by (rule parse_close) (use envelope_tags(2) in simp_all)
  also have "\<dots> = Inr ([\<lparr>fr_name = ''#document'', fr_children = xn_children (envelope_tree mid kids tx), fr_text = nl\<rparr>], n)"
    by (simp add: parse_last_text add_child_def frame_node_def envelope_tree_def)
  finally show ?thesis .
qed

text \<open>A message whose body adds the elements \<open>kids\<close> to the open Body element is read as the
  envelope that holds them.\<close>

lemma parse_envelope:
  assumes "parse_loop wide ((nl @ ''    '') @ body @ envelope_tail) (new_frame ''body'' # outer_frames mid) 4 =
    parse_loop wide envelope_tail (\<lparr>fr_name = ''body'', fr_children = kids, fr_text = tx\<rparr> # outer_frames mid) n"
  shows "parse_tree wide (wrap_envelope mid body) = Inr (envelope_tree mid kids tx)"
  unfolding parse_tree_def parse_wrap assms parse_tail
  by (simp add: frame_node_def envelope_tree_def)

lemma parse_struct_list:
  assumes "n + 3 * length ps \<le> max_elements" and "length rest + 1 < max_depth"
  shows "\<exists>t. parse_loop wide (nl @ js_join nl (map param_struct ps) @ (nl @ ''      '') @ CHR ''<'' # r) (f # rest) n =
    parse_loop wide (CHR ''<'' # r) (f\<lparr>fr_text := t, fr_children := fr_children f @ map struct_node ps\<rparr> # rest)
      (n + 3 * length ps)"
proof (cases "ps = []")
  case True
  have "blank (nl @ nl @ ''      '')" by (simp add: blank_def nl_def)
  from parse_blank [OF this, of wide r "f # rest" n] True show ?thesis
    by (simp only: list.map js_join.simps append.simps append_assoc add_text_def list.case) auto
next
  case False
  obtain t where t: "parse_loop wide (nl @ js_join nl (map param_struct ps) @ (nl @ ''      '') @ CHR ''<'' # r) (f # rest) n =
    parse_loop wide (CHR ''<'' # r)
      (add_text (nl @ ''      '') (f\<lparr>fr_text := t, fr_children := fr_children f @ map struct_node ps\<rparr> # rest))
      (n + 3 * length ps)"
    using parse_param_structs [OF assms blanks(1) False, of wide "(nl @ ''      '') @ CHR ''<'' # r" f]
    unfolding parse_blank [OF blanks(5)] by blast
  have "add_text u (f\<lparr>fr_text := t, fr_children := c\<rparr> # rest) = f\<lparr>fr_text := t @ u, fr_children := c\<rparr> # rest" for u c
    by (cases f) (simp add: add_text_def)
  with t show ?thesis by auto
qed

lemma show_nat_chars: "c \<in> set (show_nat n) \<Longrightarrow> is_digit c"
  using show_nat_digits [of n] by (auto simp: list_all_iff)

definition struct_count :: "nat \<Rightarrow> string" where
  "struct_count k = ''cwmp:ParameterValueStruct['' @ show_nat k @ '']''"

lemma struct_count_plain: "CHR ''>'' \<notin> set (struct_count k)" "CHR 0x22 \<notin> set (struct_count k)"
proof -
  have "\<not> is_digit (CHR ''>'')" "\<not> is_digit (CHR 0x22)" by code_simp+
  then have "CHR ''>'' \<notin> set (show_nat k)" "CHR 0x22 \<notin> set (show_nat k)"
    using show_nat_chars by blast+
  then show "CHR ''>'' \<notin> set (struct_count k)" "CHR 0x22 \<notin> set (struct_count k)"
    by (simp_all add: struct_count_def)
qed

lemma set_values_tags:
  "plain_tag ''cwmp:SetParameterValues'' \<and> open_tag ''cwmp:SetParameterValues'' ''setparametervalues''"
  "plain_tag ''/cwmp:SetParameterValues'' \<and> local_name (js_trim ''cwmp:SetParameterValues'') = ''setparametervalues''"
  "plain_tag ''/ParameterList'' \<and> local_name (js_trim ''ParameterList'') = ''parameterlist''"
  "plain_tag ''ParameterKey'' \<and> open_tag ''ParameterKey'' ''parameterkey''"
  "plain_tag ''/ParameterKey'' \<and> local_name (js_trim ''ParameterKey'') = ''parameterkey''"
  by code_simp+

definition set_values_body :: "set_param list \<Rightarrow> string \<Rightarrow> string" where
  "set_values_body ps r = CHR ''<'' # ''cwmp:SetParameterValues'' @ CHR ''>'' # (nl @ ''      '') @
     CHR ''<'' # attr_tag ''ParameterList'' ''soapenv:arrayType='' (struct_count (length ps)) @ CHR ''>'' #
     nl @ js_join nl (map param_struct ps) @ (nl @ ''      '') @ CHR ''<'' # CHR ''/'' # ''ParameterList'' @ CHR ''>'' #
     (nl @ ''      '') @ CHR ''<'' # ''ParameterKey'' @ CHR ''>'' # [] @ CHR ''<'' # CHR ''/'' # ''ParameterKey'' @ CHR ''>'' #
     (nl @ ''    '') @ CHR ''<'' # CHR ''/'' # ''cwmp:SetParameterValues'' @ CHR ''>'' # r"

lemma set_values_pieces: "build_set_parameter_values mid ps = wrap_envelope mid (set_values_body ps [])"
  by (simp only: build_set_parameter_values_def set_values_body_def attr_tag_def struct_count_def nl_def
      append.simps append_assoc)

lemma set_values_body_append: "set_values_body ps r @ s = set_values_body ps (r @ s)"
  by (simp only: set_values_body_def append_assoc append_Cons)

definition set_values_node :: "set_param list \<Rightarrow> string \<Rightarrow> xnode" where
  "set_values_node ps tx = Xnode ''setparametervalues''
     [Xnode ''parameterlist'' (map struct_node ps) tx, Xnode ''parameterkey'' [] []]
     (nl @ ''      '' @ nl @ ''      '' @ nl @ ''    '')"

lemma parse_set_values_body:
  assumes "n + 3 * length ps + 3 \<le> max_elements" and "stk \<noteq> []" and "length stk + 2 < max_depth"
  shows "\<exists>tx. parse_loop wide (set_values_body ps r) stk n =
    parse_loop wide r (add_child (set_values_node ps tx) stk) (n + 3 * length ps + 3)"
proof -
  let ?s1 = "add_text (nl @ ''      '') (new_frame ''setparametervalues'' # stk)"
  let ?f2 = "new_frame ''parameterlist''"
  have lt: "n < max_elements" "n + 1 < max_elements" and big: "length stk \<le> max_depth" "length ?s1 \<le> max_depth"
    using assms by simp_all
  have n: "n + 1 + 1 + 3 * length ps \<le> max_elements" and d: "length ?s1 + 1 < max_depth"
    using assms by simp_all
  note attr = attr_tag_plain [OF conjunct1 [OF attr_tags_ok(2)] struct_count_plain]
    attr_tag_open [OF conjunct1 [OF attr_tags_ok(2)] conjunct2 [OF attr_tags_ok(2)]]
  let ?u3 = "CHR ''<'' # CHR ''/'' # ''cwmp:SetParameterValues'' @ CHR ''>'' # r"
  let ?u2 = "(nl @ ''      '') @ CHR ''<'' # ''ParameterKey'' @ CHR ''>'' # [] @ CHR ''<'' # CHR ''/'' # ''ParameterKey'' @ CHR ''>'' #
     (nl @ ''    '') @ ?u3"
  let ?u1 = "CHR ''/'' # ''ParameterList'' @ CHR ''>'' # ?u2"
  let ?n = "n + 1 + 1 + 3 * length ps"
  obtain tx where list: "parse_loop wide (nl @ js_join nl (map param_struct ps) @ (nl @ ''      '') @ CHR ''<'' # ?u1) (?f2 # ?s1) (n + 1 + 1) =
      parse_loop wide (CHR ''<'' # ?u1) (?f2\<lparr>fr_text := tx, fr_children := fr_children ?f2 @ map struct_node ps\<rparr> # ?s1) ?n"
    using parse_struct_list [OF n d] by blast
  let ?l = "Xnode ''parameterlist'' (map struct_node ps) tx"
  let ?s2 = "add_text (nl @ ''      '') (add_child ?l ?s1)"
  let ?F = "\<lparr>fr_name = ''setparametervalues'', fr_children = [?l, Xnode ''parameterkey'' [] []],
      fr_text = nl @ ''      '' @ nl @ ''      '' @ nl @ ''    ''\<rparr>"
  have "parse_loop wide (set_values_body ps r) stk n =
      parse_loop wide (CHR ''<'' # ?u1) (?f2\<lparr>fr_text := tx, fr_children := fr_children ?f2 @ map struct_node ps\<rparr> # ?s1) ?n"
    unfolding set_values_body_def
      parse_open [OF conjunct1 [OF set_values_tags(1)] conjunct2 [OF set_values_tags(1)] lt(1) big(1)]
      parse_blank [OF blanks(5)] parse_open [OF attr lt(2) big(2)] list
    by (rule refl)
  also have "\<dots> = parse_loop wide ?u2 (add_child ?l ?s1) ?n"
    using parse_close [of "''ParameterList''" "?f2\<lparr>fr_text := tx, fr_children := fr_children ?f2 @ map struct_node ps\<rparr>" ?s1 wide ?u2 ?n]
      set_values_tags(3) by (simp add: new_frame_def frame_node_def)
  also have "\<dots> = parse_loop wide ((nl @ ''    '') @ ?u3) (add_child (Xnode ''parameterkey'' [] []) ?s2) (?n + 1)"
    unfolding parse_blank [OF blanks(5)]
    using parse_leaf [of "''ParameterKey''" "''ParameterKey''" ?n ?s2 "[]" wide "(nl @ ''    '') @ ?u3"]
      set_values_tags(4,5) assms by simp
  also have "\<dots> = parse_loop wide ?u3 (?F # stk) (?n + 1)"
    unfolding parse_blank [OF blanks(6)] by (simp add: add_text_def add_child_def new_frame_def)
  also have "\<dots> = parse_loop wide r (add_child (frame_node ?F) stk) (?n + 1)"
    by (rule parse_close) (use set_values_tags(2) assms(2) in simp_all)
  also have "frame_node ?F = set_values_node ps tx" by (simp add: frame_node_def set_values_node_def)
  also have "?n + 1 = n + 3 * length ps + 3" by simp
  finally show ?thesis by blast
qed

lemma set_values_tree:
  assumes "length ps \<le> 6664"
  shows "\<exists>tx tx2. parse_tree wide (build_set_parameter_values mid ps) = Inr (envelope_tree mid [set_values_node ps tx] tx2)"
proof -
  let ?s = "new_frame ''body'' # outer_frames mid"
  let ?s1 = "add_text (nl @ ''    '') ?s"
  have n: "4 + 3 * length ps + 3 \<le> max_elements" and d: "length ?s1 + 2 < max_depth" and ne: "?s1 \<noteq> []"
    using assms by (simp_all add: max_elements_def max_depth_def outer_frames_def)
  obtain tx where body: "parse_loop wide (set_values_body ps envelope_tail) ?s1 4 =
      parse_loop wide envelope_tail (add_child (set_values_node ps tx) ?s1) (4 + 3 * length ps + 3)"
    using parse_set_values_body [OF n ne d] by blast
  have start: "parse_loop wide ((nl @ ''    '') @ set_values_body ps envelope_tail) ?s 4 =
      parse_loop wide (set_values_body ps envelope_tail) ?s1 4"
    unfolding set_values_body_def by (rule parse_blank [OF blanks(6)])
  have "add_child (set_values_node ps tx) ?s1 =
      \<lparr>fr_name = ''body'', fr_children = [set_values_node ps tx], fr_text = nl @ ''    ''\<rparr> # outer_frames mid"
    by (simp add: add_text_def add_child_def new_frame_def)
  with body start
  have "parse_loop wide ((nl @ ''    '') @ set_values_body ps [] @ envelope_tail) ?s 4 =
      parse_loop wide envelope_tail (\<lparr>fr_name = ''body'', fr_children = [set_values_node ps tx],
        fr_text = nl @ ''    ''\<rparr> # outer_frames mid) (4 + 3 * length ps + 3)"
    by (simp only: set_values_body_append append_Nil)
  from parse_envelope [OF this] show ?thesis unfolding set_values_pieces by blast
qed

text \<open>What the searches find in such a tree.\<close>

lemma names_lower:
  "js_lower ''ParameterValueStruct'' = ''parametervaluestruct''" "js_lower ''Name'' = ''name''"
  "js_lower ''Value'' = ''value''" "js_lower ''ID'' = ''id''"
  by code_simp+

lemma outermost_structs: "concat (map (outermost ''parametervaluestruct'') (map struct_node ps)) = map struct_node ps"
  by (induction ps) (simp_all add: struct_node_def)

lemma find_all_structs:
  "find_all (envelope_tree mid [set_values_node ps tx] tx2) ''ParameterValueStruct'' = map struct_node ps"
  using outermost_structs [of ps]
  by (simp add: find_all_def find_all_pending_outermost names_lower envelope_tree_def header_node_def set_values_node_def)

lemma text_of_struct:
  "text_of (struct_node p) ''Name'' = Some (js_trim (field_text (sp_name p)))"
  "text_of (struct_node p) ''Value'' = Some (js_trim (field_text (sp_value p)))"
  by (simp_all add: text_of_def find_first_def names_lower struct_node_def)

lemma or_text_empty: "or_text (Some s) [] = s"
  by (simp add: or_text_def)

text \<open>C13: no text can leave its place in a SetParameterValues message. Whatever the message id, the
  names, the types and the values are, the message parses, its ID is the id, and it holds exactly
  the parameters of the list, in order, each with its own name and value up to surrounding white
  space. (The bound is the parser's: three elements per parameter and seven for the envelope.)\<close>

theorem set_values_roundtrip:
  assumes "length ps \<le> 6664"
  shows "\<exists>tree. parse_tree wide (build_set_parameter_values mid ps) = Inr tree \<and>
    text_of tree ''ID'' = Some (js_trim mid) \<and>
    parse_parameter_values tree =
      map (\<lambda>p. \<lparr>pv_name = js_trim (field_text (sp_name p)), pv_value = js_trim (field_text (sp_value p))\<rparr>) ps"
proof -
  obtain tx tx2 where tree: "parse_tree wide (build_set_parameter_values mid ps) =
      Inr (envelope_tree mid [set_values_node ps tx] tx2)"
    using set_values_tree [OF assms] by blast
  have "text_of (envelope_tree mid [set_values_node ps tx] tx2) ''ID'' = Some (js_trim mid)"
    by (simp add: text_of_def find_first_def names_lower envelope_tree_def header_node_def)
  moreover have "parse_parameter_values (envelope_tree mid [set_values_node ps tx] tx2) =
      map (\<lambda>p. \<lparr>pv_name = js_trim (field_text (sp_name p)), pv_value = js_trim (field_text (sp_value p))\<rparr>) ps"
    by (simp add: parse_parameter_values_def find_all_structs text_of_struct or_text_empty)
  ultimately show ?thesis using tree by blast
qed

definition sample_params :: "set_param list" where
  "sample_params = [typed_param ''Device.WiFi.SSID.1.SSID'' ''</Value><Reboot/>'' ''xsd:string'']"

theorem set_values_roundtrip_witness:
  "\<exists>tree. parse_tree wide_text (build_set_parameter_values ''TASK-9'' sample_params) = Inr tree \<and>
    parse_parameter_values tree = [\<lparr>pv_name = ''Device.WiFi.SSID.1.SSID'', pv_value = ''</Value><Reboot/>''\<rparr>]"
proof -
  have "length sample_params \<le> 6664" by (simp add: sample_params_def)
  moreover have "map (\<lambda>p. \<lparr>pv_name = js_trim (field_text (sp_name p)), pv_value = js_trim (field_text (sp_value p))\<rparr>)
      sample_params = [\<lparr>pv_name = ''Device.WiFi.SSID.1.SSID'', pv_value = ''</Value><Reboot/>''\<rparr>]"
    by code_simp
  ultimately show ?thesis
    using set_values_roundtrip [of sample_params wide_text "''TASK-9''"] by auto
qed

theorem parse_tree_bounded_witness:
  "\<exists>tree. parse_tree wide_text (build_set_parameter_values ''1'' []) = Inr tree \<and> node_count tree \<le> 20001 \<and>
     text_size tree \<le> length (build_set_parameter_values ''1'' []) + 9"
proof -
  obtain tree where t: "parse_tree wide_text (build_set_parameter_values ''1'' []) = Inr tree"
    using set_values_tree [of "[]" wide_text "''1''"] by auto
  have "\<forall>k. length (wide_text k) \<le> 2" by (simp add: wide_text_def)
  from parse_tree_bounded [OF this t] t show ?thesis by blast
qed

end
