(* ===== verification/Ip_Text.thy ===== *)
theory Ip_Text
  imports Vb_Prelude
begin

text \<open>
  Textual IP addresses: what \<open>net.isIP\<close> of the Node standard library accepts, the eight 16-bit words
  of an IPv6 text, and the canonical text of eight words (RFC 5952), shared by the network
  components. An address that \<open>net.isIP\<close> accepts is plain ASCII.
\<close>

section \<open>Splitting\<close>

lemma index_str_room: "index_str p s = Some i \<Longrightarrow> i + length p \<le> length s"
proof (induction p s arbitrary: i rule: index_str.induct)
  case (2 p c s)
  show ?case
  proof (cases "starts_with p (c # s)")
    case True
    then have "take (length p) (c # s) = p" by (simp add: starts_with_def)
    then have "length p \<le> length (c # s)" by (metis length_take min.cobounded1)
    with True 2 show ?thesis by simp
  next
    case False
    with 2 show ?thesis by auto
  qed
qed (simp split: if_splits)

text \<open>\<open>s.split(sep)\<close> for a non-empty separator.\<close>

function split_str :: "string \<Rightarrow> string \<Rightarrow> string list" where
  "split_str sep s =
     (if sep = [] then [s]
      else case index_str sep s of
        None \<Rightarrow> [s]
      | Some i \<Rightarrow> take i s # split_str sep (drop (i + length sep) s))"
  by pat_completeness auto

termination
proof (relation "measure (\<lambda>(sep, s). length s)", goal_cases)
  case 1
  show ?case by simp
next
  case (2 sep s i)
  then show ?case using index_str_room [of sep s i] by (cases sep) auto
qed

declare split_str.simps [simp del]

section \<open>Hexadecimal\<close>

definition hex_digit_char :: "nat \<Rightarrow> char" where
  "hex_digit_char n = char_of (if n < 10 then 48 + n else 87 + n)"

text \<open>\<open>n.toString(16)\<close>.\<close>

fun show_hex :: "nat \<Rightarrow> string" where
  "show_hex n = (if n < 16 then [hex_digit_char n] else show_hex (n div 16) @ [hex_digit_char (n mod 16)])"

declare show_hex.simps [simp del]

text \<open>\<open>parseInt(s, 16)\<close>; \<open>None\<close> is NaN.\<close>

definition parse_int16 :: "string \<Rightarrow> int option" where
  "parse_int16 s =
     (let t = dropWhile js_ws s;
          neg = (t \<noteq> [] \<and> hd t = CHR ''-'');
          u = (if t \<noteq> [] \<and> (hd t = CHR ''-'' \<or> hd t = CHR ''+'') then tl t else t);
          v = (if take 2 u = ''0x'' \<or> take 2 u = ''0X'' then drop 2 u else u);
          ds = takeWhile is_hex v
      in if ds = [] then None
         else Some (if neg then - int (hex_digits_val ds) else int (hex_digits_val ds)))"

section \<open>What \<open>net.isIP\<close> accepts\<close>

definition ipv4_seg :: "string \<Rightarrow> bool" where
  "ipv4_seg s \<longleftrightarrow> s \<noteq> [] \<and> length s \<le> 3 \<and> list_all is_digit s \<and> (hd s = CHR ''0'' \<longrightarrow> length s = 1) \<and>
     digits_val s \<le> 255"

definition is_ipv4 :: "string \<Rightarrow> bool" where
  "is_ipv4 s \<longleftrightarrow> (let ps = js_split (CHR ''.'') s in length ps = 4 \<and> list_all ipv4_seg ps)"

definition ipv6_seg :: "string \<Rightarrow> bool" where
  "ipv6_seg s \<longleftrightarrow> s \<noteq> [] \<and> length s \<le> 4 \<and> list_all is_hex s"

text \<open>The number of 16-bit words of a list of groups; the last one may be an IPv4 address.\<close>

fun group_count :: "bool \<Rightarrow> string list \<Rightarrow> nat option" where
  "group_count v4 [] = Some 0"
| "group_count v4 (g # gs) =
     (if ipv6_seg g then map_option Suc (group_count v4 gs)
      else if v4 \<and> gs = [] \<and> is_ipv4 g then Some 2 else None)"

definition groups_of :: "string \<Rightarrow> string list" where
  "groups_of s = (if s = [] then [] else js_split (CHR '':'') s)"

definition ipv6_body :: "string \<Rightarrow> bool" where
  "ipv6_body a =
     (case split_str ''::'' a of
        [w] \<Rightarrow> group_count True (groups_of w) = Some 8
      | [l, r] \<Rightarrow> (case (group_count False (groups_of l), group_count True (groups_of r)) of
                    (Some i, Some j) \<Rightarrow> i + j \<le> 7 | _ \<Rightarrow> False)
      | _ \<Rightarrow> False)"

definition zone_char :: "char \<Rightarrow> bool" where
  "zone_char c \<longleftrightarrow> is_digit c \<or> is_letter c \<or> c \<in> set ''-.:''"

definition is_ipv6 :: "string \<Rightarrow> bool" where
  "is_ipv6 s =
     (case index_of (CHR ''%'') s of
        None \<Rightarrow> ipv6_body s
      | Some i \<Rightarrow> ipv6_body (take i s) \<and> drop (Suc i) s \<noteq> [] \<and> list_all zone_char (drop (Suc i) s))"

definition is_ip :: "string \<Rightarrow> nat" where
  "is_ip s = (if is_ipv4 s then 4 else if is_ipv6 s then 6 else 0)"

section \<open>Words\<close>

definition ipv4_octets :: "string \<Rightarrow> nat list" where
  "ipv4_octets s = map digits_val (js_split (CHR ''.'') s)"

fun group_words :: "string list \<Rightarrow> nat list" where
  "group_words [] = []"
| "group_words (g # gs) =
     (if ipv6_seg g then hex_digits_val g # group_words gs
      else case ipv4_octets g of
             [a, b, c, d] \<Rightarrow> (a * 256 + b) # (c * 256 + d) # group_words gs
           | _ \<Rightarrow> group_words gs)"

text \<open>The eight words of a valid IPv6 text without zone: the reference the parsers of the components
  are compared with.\<close>

definition ipv6_words :: "string \<Rightarrow> nat list" where
  "ipv6_words a =
     (case split_str ''::'' a of
        [w] \<Rightarrow> group_words (groups_of w)
      | [l, r] \<Rightarrow> (let x = group_words (groups_of l); y = group_words (groups_of r) in
                  x @ replicate (8 - length x - length y) 0 @ y)
      | _ \<Rightarrow> [])"

lemma ipv4_seg_val: "ipv4_seg s \<Longrightarrow> digits_val s \<le> 255"
  by (simp add: ipv4_seg_def)

lemma is_ipv4_octets:
  assumes "is_ipv4 s"
  shows "length (ipv4_octets s) = 4" and "list_all (\<lambda>n. n \<le> 255) (ipv4_octets s)"
  using assms by (auto simp: is_ipv4_def ipv4_octets_def Let_def list_all_iff ipv4_seg_val)

lemma hex_val_bound: "is_hex c \<Longrightarrow> hex_val c < 16"
  by (auto simp: is_hex_def hex_val_def is_digit_def Let_def)

lemma hex_digits_val_snoc: "hex_digits_val (s @ [c]) = hex_digits_val s * 16 + hex_val c"
  by (simp add: hex_digits_val_def)

lemma hex_digits_val_bound: "list_all is_hex s \<Longrightarrow> hex_digits_val s < 16 ^ length s"
proof (induction s rule: rev_induct)
  case Nil
  show ?case by (simp add: hex_digits_val_def)
next
  case (snoc c s)
  then show ?case using hex_val_bound [of c] by (simp add: hex_digits_val_snoc)
qed

lemma ipv6_seg_val: "ipv6_seg s \<Longrightarrow> hex_digits_val s < 65536"
proof -
  assume s: "ipv6_seg s"
  then have "hex_digits_val s < 16 ^ length s" by (simp add: ipv6_seg_def hex_digits_val_bound)
  also have "(16::nat) ^ length s \<le> 16 ^ 4" using s by (intro power_increasing) (simp_all add: ipv6_seg_def)
  finally show ?thesis by simp
qed

lemma length_4_cases: "length xs = 4 \<Longrightarrow> \<exists>a b c d. xs = [a, b, c, d]"
  by (auto simp: length_Suc_conv eval_nat_numeral)

lemma group_words_count:
  assumes "group_count v4 gs = Some n"
  shows "length (group_words gs) = n" and "list_all (\<lambda>w. w < 65536) (group_words gs)"
proof -
  have "length (group_words gs) = n \<and> list_all (\<lambda>w. w < 65536) (group_words gs)"
    using assms
  proof (induction v4 gs arbitrary: n rule: group_count.induct)
    case (2 v4 g gs)
    show ?case
    proof (cases "ipv6_seg g")
      case True
      with 2 ipv6_seg_val [OF True] show ?thesis by auto
    next
      case False
      with 2(2) have g: "is_ipv4 g" "gs = []" "n = 2" by (auto split: if_splits)
      obtain a b c d where o: "ipv4_octets g = [a, b, c, d]"
        using length_4_cases [OF is_ipv4_octets(1) [OF g(1)]] by blast
      with is_ipv4_octets(2) [OF g(1)] have "a \<le> 255" "b \<le> 255" "c \<le> 255" "d \<le> 255" by simp_all
      with False g o show ?thesis by simp
    qed
  qed simp
  then show "length (group_words gs) = n" "list_all (\<lambda>w. w < 65536) (group_words gs)" by simp_all
qed

lemma ipv6_words_valid:
  assumes "ipv6_body a"
  shows "length (ipv6_words a) = 8" and "list_all (\<lambda>w. w < 65536) (ipv6_words a)"
proof -
  consider (whole) w where "split_str ''::'' a = [w]" "group_count True (groups_of w) = Some 8"
    | (halves) l r i j where "split_str ''::'' a = [l, r]" "group_count False (groups_of l) = Some i"
        "group_count True (groups_of r) = Some j" "i + j \<le> 7"
    using assms unfolding ipv6_body_def by (auto split: list.splits option.splits)
  then have "length (ipv6_words a) = 8 \<and> list_all (\<lambda>w. w < 65536) (ipv6_words a)"
  proof cases
    case whole
    with group_words_count [OF whole(2)] show ?thesis by (simp add: ipv6_words_def)
  next
    case halves
    with group_words_count [OF halves(2)] group_words_count [OF halves(3)] show ?thesis
      by (auto simp: ipv6_words_def Let_def list_all_iff)
  qed
  then show "length (ipv6_words a) = 8" "list_all (\<lambda>w. w < 65536) (ipv6_words a)" by simp_all
qed

section \<open>Canonical text\<close>

text \<open>The first longest run of zero words, of length at least two.\<close>

fun zero_run :: "nat list \<Rightarrow> nat" where
  "zero_run [] = 0"
| "zero_run (w # ws) = (if w = 0 then Suc (zero_run ws) else 0)"

fun best_run :: "nat list \<Rightarrow> nat \<Rightarrow> nat \<times> nat \<Rightarrow> nat \<times> nat" where
  "best_run [] i best = best"
| "best_run (w # ws) i best =
     best_run ws (Suc i) (if snd best < zero_run (w # ws) then (i, zero_run (w # ws)) else best)"

definition format_words :: "nat list \<Rightarrow> string" where
  "format_words ws =
     (case best_run ws 0 (0, 1) of (start, len) \<Rightarrow>
        if len \<le> 1 then js_join '':'' (map show_hex ws)
        else js_join '':'' (map show_hex (take start ws)) @ ''::'' @
             js_join '':'' (map show_hex (drop (start + len) ws)))"

end
