(* ===== verification/Ip_Pools.thy ===== *)
theory Ip_Pools
  imports Ip_Text
begin

text \<open>
  IP pools: \<open>src/src/services/poolAssignmentService.js\<close>, the capacity computation of
  \<open>poolUtilizationService.js\<close> and the planner of \<open>subnetPlannerService.js\<close>.

  IPv4 arithmetic is on 32-bit words (JavaScript's \<open>>>> 0\<close>); a shift count is taken modulo 32, as
  JavaScript does, and a NaN count shifts by nothing. IPv6 arithmetic is on unbounded integers
  (\<open>BigInt\<close>). The tables are lists of rows; the unique key of \<open>ip_assignments\<close> is
  \<open>(pool_id, ip_address)\<close> among the rows that are neither deleted nor expired.
\<close>

unbundle bit_operations_syntax

section \<open>Data\<close>

record ip_pool =
  pl_id :: nat
  pl_org :: "nat option"
  pl_v6 :: bool
  pl_network :: "string option"
  pl_mask :: "string option"
  pl_gateway :: "string option"
  pl_excluded :: "string option"
  pl_default_len :: "nat option"
  pl_live :: bool

datatype assign_status = As_active | As_available | As_expired

record assignment =
  as_id :: nat
  as_pool :: nat
  as_org :: "nat option"
  as_ip :: string
  as_contract :: "nat option"
  as_client :: "nat option"
  as_type :: string
  as_status :: assign_status
  as_deleted :: bool

record v4_range =
  r4_network :: "32 word"
  r4_broadcast :: "32 word"
  r4_prefix :: "int option"

record v6_range =
  r6_network :: int
  r6_broadcast :: int
  r6_prefix :: int


section \<open>IPv4\<close>

text \<open>An octet that is not a number makes the sum NaN, and \<open>NaN >>> 0\<close> is 0.\<close>

definition octet_step :: "int option \<Rightarrow> string \<Rightarrow> int option" where
  "octet_step acc octet =
     (case (acc, parse_int10 octet) of (Some a, Some n) \<Rightarrow> Some (a * 256 + n) | _ \<Rightarrow> None)"

definition ipv4_to_int :: "string \<Rightarrow> 32 word" where
  "ipv4_to_int ip =
     (case foldl octet_step (Some 0) (js_split (CHR ''.'') ip) of None \<Rightarrow> 0 | Some n \<Rightarrow> word_of_int n)"

definition int_to_ipv4 :: "32 word \<Rightarrow> string" where
  "int_to_ipv4 n = js_join ''.'' (map (\<lambda>k. show_nat (unat (drop_bit k n AND 0xff))) [24, 16, 8, 0])"

fun count_bits :: "nat \<Rightarrow> 32 word \<Rightarrow> nat" where
  "count_bits 0 w = 0"
| "count_bits (Suc i) w = (if w AND 1 = 1 then 1 else 0) + count_bits i (drop_bit 1 w)"

definition parse_cidr_prefix_len :: "string option \<Rightarrow> int option" where
  "parse_cidr_prefix_len m =
     (case m of None \<Rightarrow> Some 32
      | Some s \<Rightarrow>
          if s = [] then Some 32
          else let t = js_trim s in
            if starts_with ''/'' t then parse_int10 (drop 1 t)
            else if 1 \<le> length t \<and> length t \<le> 2 \<and> list_all is_digit t then parse_int10 t
            else Some (int (count_bits 32 (ipv4_to_int t))))"

text \<open>\<open>(0xffffffff << (32 - prefix)) >>> 0\<close>, and 0 when the shift is 32.\<close>

definition v4_mask :: "int option \<Rightarrow> 32 word" where
  "v4_mask prefix =
     (case prefix of None \<Rightarrow> - 1
      | Some p \<Rightarrow> if 32 - p = 32 then 0 else push_bit (nat ((32 - p) mod 32)) (- 1))"

definition v4_range_of :: "string \<Rightarrow> int option \<Rightarrow> v4_range" where
  "v4_range_of addr prefix =
     (let mask = v4_mask prefix; network = ipv4_to_int addr AND mask in
      \<lparr>r4_network = network, r4_broadcast = network OR NOT mask, r4_prefix = prefix\<rparr>)"

text \<open>\<open>const [addr, prefix] = s.split('/')\<close>.\<close>

definition cidr_parts :: "string \<Rightarrow> string \<times> string" where
  "cidr_parts s = (let ps = js_split (CHR ''/'') s in (hd ps, if 2 \<le> length ps then ps ! 1 else []))"

text \<open>A missing network makes \<open>split\<close> throw, and the parser then answers null.\<close>

definition parse_ipv4_pool :: "ip_pool \<Rightarrow> v4_range option" where
  "parse_ipv4_pool pool =
     (case pl_network pool of None \<Rightarrow> None
      | Some s \<Rightarrow>
          if CHR ''/'' \<in> set s
          then case cidr_parts s of (addr, prefix) \<Rightarrow> Some (v4_range_of (js_trim addr) (parse_int10 prefix))
          else Some (v4_range_of s (parse_cidr_prefix_len (pl_mask pool))))"




section \<open>IPv6\<close>

definition expand_v6 :: "string \<Rightarrow> string list" where
  "expand_v6 ip =
     (case split_str ''::'' ip of
        l # r # _ \<Rightarrow>
          (let left = (if l = [] then [] else js_split (CHR '':'') l);
               right = (if r = [] then [] else js_split (CHR '':'') r)
           in left @ replicate (8 - length left - length right) ''0000'' @ right)
      | _ \<Rightarrow> js_split (CHR '':'') ip)"

text \<open>\<open>Array(n)\<close> throws on a negative length and \<open>BigInt(NaN)\<close> throws: \<open>None\<close>.\<close>

definition expand_v6_throws :: "string \<Rightarrow> bool" where
  "expand_v6_throws ip =
     (case split_str ''::'' ip of
        l # r # _ \<Rightarrow> 8 < length (if l = [] then [] else js_split (CHR '':'') l) +
                          length (if r = [] then [] else js_split (CHR '':'') r)
      | _ \<Rightarrow> False)"

definition group_step :: "int option \<Rightarrow> string \<Rightarrow> int option" where
  "group_step acc g =
     (case (acc, parse_int16 (if g = [] then ''0'' else g)) of
        (Some a, Some n) \<Rightarrow> Some (push_bit 16 a OR n) | _ \<Rightarrow> None)"

definition ipv6_to_big :: "string \<Rightarrow> int option" where
  "ipv6_to_big ip = (if expand_v6_throws ip then None else foldl group_step (Some 0) (expand_v6 ip))"



text \<open>\<open>1n << BigInt(128 - p)\<close> with a NaN prefix throws; a negative count shifts right.\<close>

definition big_shift :: "int \<Rightarrow> int \<Rightarrow> int" where
  "big_shift a k = (if 0 \<le> k then push_bit (nat k) a else drop_bit (nat (- k)) a)"

definition v6_mask :: "int \<Rightarrow> int" where
  "v6_mask host_bits = (if host_bits = 128 then 0 else NOT (big_shift 1 host_bits - 1) AND (2 ^ 128 - 1))"

definition v6_range_of :: "string \<Rightarrow> int option \<Rightarrow> v6_range option" where
  "v6_range_of addr prefix =
     (case (ipv6_to_big addr, prefix) of
        (Some a, Some p) \<Rightarrow>
          let network = a AND v6_mask (128 - p) in
          Some \<lparr>r6_network = network, r6_broadcast = network OR (big_shift 1 (128 - p) - 1), r6_prefix = p\<rparr>
      | _ \<Rightarrow> None)"

definition parse_ipv6_pool :: "ip_pool \<Rightarrow> v6_range option" where
  "parse_ipv6_pool pool =
     (case pl_network pool of None \<Rightarrow> None
      | Some s \<Rightarrow>
          if CHR ''/'' \<in> set s
          then case cidr_parts s of (addr, prefix) \<Rightarrow> v6_range_of (js_trim addr) (parse_int10 prefix)
          else None)"



section \<open>Overlap of two pools\<close>

definition pools_overlap :: "ip_pool \<Rightarrow> ip_pool \<Rightarrow> bool" where
  "pools_overlap pool peer =
     (if pl_v6 pool then
        (case (parse_ipv6_pool pool, parse_ipv6_pool peer) of
           (Some a, Some b) \<Rightarrow> r6_network a \<le> r6_broadcast b \<and> r6_network b \<le> r6_broadcast a
         | _ \<Rightarrow> False)
      else
        (case (parse_ipv4_pool pool, parse_ipv4_pool peer) of
           (Some a, Some b) \<Rightarrow> r4_network a \<le> r4_broadcast b \<and> r4_network b \<le> r4_broadcast a
         | _ \<Rightarrow> False))"

text \<open>\<open>organization_id = ?\<close> is never true for NULL.\<close>

definition overlap_peers :: "ip_pool list \<Rightarrow> ip_pool \<Rightarrow> nat option \<Rightarrow> ip_pool list" where
  "overlap_peers tbl pool exclude =
     filter (\<lambda>p. pl_live p \<and> pl_v6 p = pl_v6 pool \<and> pl_org pool \<noteq> None \<and> pl_org p = pl_org pool \<and>
       (case exclude of None \<Rightarrow> True | Some i \<Rightarrow> i = 0 \<or> pl_id p \<noteq> i)) tbl"

definition detect_overlap :: "ip_pool list \<Rightarrow> ip_pool \<Rightarrow> nat option \<Rightarrow> ip_pool option" where
  "detect_overlap tbl pool exclude = find (pools_overlap pool) (overlap_peers tbl pool exclude)"

definition assert_no_overlap :: "ip_pool list \<Rightarrow> ip_pool \<Rightarrow> nat option \<Rightarrow> ip_pool + unit" where
  "assert_no_overlap tbl pool exclude =
     (case detect_overlap tbl pool exclude of Some peer \<Rightarrow> Inl peer | None \<Rightarrow> Inr ())"

section \<open>Assignment\<close>



definition new_assignment :: "ip_pool \<Rightarrow> nat \<Rightarrow> nat option \<Rightarrow> nat option \<Rightarrow> string \<Rightarrow> string \<Rightarrow> assignment" where
  "new_assignment pool rid contract client ty candidate =
     \<lparr>as_id = rid, as_pool = pl_id pool, as_org = pl_org pool, as_ip = candidate, as_contract = contract,
      as_client = client, as_type = ty, as_status = As_active, as_deleted = False\<rparr>"












section \<open>Capacity\<close>

definition max_safe_integer :: int where "max_safe_integer = 2 ^ 53 - 1"

definition compute_usable_count :: "ip_pool \<Rightarrow> int" where
  "compute_usable_count pool =
     (if pl_v6 pool then
        (case (pl_default_len pool, parse_ipv6_pool pool) of
           (Some len, Some r) \<Rightarrow>
             if len = 0 then 0
             else min ((r6_broadcast r - r6_network r + 1) div 2 ^ (128 - len)) max_safe_integer
         | _ \<Rightarrow> 0)
      else
        (case parse_ipv4_pool pool of None \<Rightarrow> 0
         | Some r \<Rightarrow> max 0 (uint (r4_broadcast r) - uint (r4_network r) - 1)))"

section \<open>The planner\<close>

text \<open>\<open>Number(part)\<close> of a decimal octet, and the word the shifts put together. A part that is not a
  run of digits counts as NaN, that is 0.\<close>

definition number_of_octet :: "string \<Rightarrow> nat" where
  "number_of_octet s = (let t = js_trim s in if t \<noteq> [] \<and> list_all is_digit t then digits_val t else 0)"

definition dotted_word :: "string \<Rightarrow> 32 word" where
  "dotted_word addr =
     (let ps = map (\<lambda>s. of_nat (number_of_octet s)) (js_split (CHR ''.'') addr) @ [0, 0, 0, 0] in
      push_bit 24 (ps ! 0) OR push_bit 16 (ps ! 1) OR push_bit 8 (ps ! 2) OR ps ! 3)"

definition plan_v4_bases :: "32 word \<Rightarrow> nat \<Rightarrow> nat \<Rightarrow> nat \<Rightarrow> 32 word list" where
  "plan_v4_bases addr prefix sub count =
     (let mask = (if prefix = 0 then 0 else push_bit (nat ((32 - int prefix) mod 32)) (- 1));
          base = addr AND mask;
          step = (if prefix = sub then 0 else push_bit (nat ((32 - int sub) mod 32)) 1)
      in map (\<lambda>i. base + of_nat i * step) [0..<count])"

definition plan_subnets_ipv4 :: "string \<Rightarrow> nat \<Rightarrow> nat \<Rightarrow> nat \<Rightarrow> string list" where
  "plan_subnets_ipv4 addr prefix sub count =
     map (\<lambda>w. int_to_ipv4 w @ ''/'' @ show_nat sub) (plan_v4_bases (dotted_word addr) prefix sub count)"

definition expand_v6_padded :: "string \<Rightarrow> string list" where
  "expand_v6_padded addr = map (\<lambda>g. replicate (4 - length g) (CHR ''0'') @ g) (expand_v6 addr)"

text \<open>\<open>BigInt(NaN)\<close> throws: \<open>None\<close>.\<close>

definition group_step_strict :: "int option \<Rightarrow> string \<Rightarrow> int option" where
  "group_step_strict acc g =
     (case (acc, parse_int16 g) of (Some a, Some n) \<Rightarrow> Some (push_bit 16 a OR n) | _ \<Rightarrow> None)"

definition planner_base_v6 :: "string \<Rightarrow> int option" where
  "planner_base_v6 addr =
     (if expand_v6_throws addr then None else foldl group_step_strict (Some 0) (expand_v6_padded addr))"

definition planner_mask_v6 :: "int \<Rightarrow> int" where
  "planner_mask_v6 prefix = (if prefix = 0 then 0 else (2 ^ 128 - 1) - (big_shift 1 (128 - prefix) - 1))"

definition plan_v6_bases :: "int \<Rightarrow> nat \<Rightarrow> nat \<Rightarrow> nat \<Rightarrow> int list" where
  "plan_v6_bases addr prefix sub count =
     map (\<lambda>i. (addr AND planner_mask_v6 (int prefix)) + int i * big_shift 1 (128 - int sub)) [0..<count]"

text \<open>\<open>toString(16).padStart(32, '0')\<close> cut into groups of four.\<close>

definition hex_groups :: "int \<Rightarrow> string list" where
  "hex_groups n =
     (let s = show_hex (nat n); h = replicate (32 - length s) (CHR ''0'') @ s in
      map (\<lambda>j. take 4 (drop (j * 4) h)) [0..<8])"

datatype plan_error = Sub_prefix_shorter | Too_many_subnets | Bad_address

definition plan_subnets_ipv6 :: "string \<Rightarrow> nat \<Rightarrow> nat \<Rightarrow> nat \<Rightarrow> plan_error + string list" where
  "plan_subnets_ipv6 addr prefix sub count =
     (case planner_base_v6 addr of None \<Rightarrow> Inl Bad_address
      | Some base \<Rightarrow> Inr (map (\<lambda>n. js_join '':'' (hex_groups n) @ ''/'' @ show_nat sub)
                       (plan_v6_bases base prefix sub count)))"

definition plan_subnets :: "string \<Rightarrow> nat \<Rightarrow> nat \<Rightarrow> plan_error + string list" where
  "plan_subnets network prefix sub =
     (if sub < prefix then Inl Sub_prefix_shorter
      else
        let addr = fst (cidr_parts network); count = 2 ^ (sub - prefix) in
        if 65536 < count then Inl Too_many_subnets
        else if CHR '':'' \<in> set addr then plan_subnets_ipv6 addr prefix sub count
        else Inr (plan_subnets_ipv4 addr prefix sub count))"

text \<open>The numeric range of a CIDR: start, end, and whether it is IPv6. A shift count of 32 shifts by
  nothing.\<close>

definition cidr_to_range :: "string \<Rightarrow> (int \<times> int \<times> bool) option" where
  "cidr_to_range cidr =
     (if CHR ''/'' \<notin> set cidr then None
      else case cidr_parts cidr of (addr, bits) \<Rightarrow>
        if CHR '':'' \<in> set addr then
          (case (planner_base_v6 addr, parse_int10 bits) of
             (Some a, Some p) \<Rightarrow>
               let base = a AND planner_mask_v6 p in Some (base, base + big_shift 1 (128 - p) - 1, True)
           | _ \<Rightarrow> None)
        else
          let k = (case parse_int10 bits of None \<Rightarrow> 0 | Some p \<Rightarrow> nat ((32 - p) mod 32));
              step = (if parse_int10 bits = Some 32 then 1 else push_bit k (1 :: 32 word));
              base = dotted_word addr AND push_bit k (- 1)
          in Some (uint base, uint (base + step - 1), False))"

definition cidrs_overlap :: "string \<Rightarrow> string \<Rightarrow> bool" where
  "cidrs_overlap c1 c2 =
     (case (cidr_to_range c1, cidr_to_range c2) of
        (Some (s1, e1, v1), Some (s2, e2, v2)) \<Rightarrow> v1 = v2 \<and> s1 \<le> e2 \<and> s2 \<le> e1
      | _ \<Rightarrow> False)"

definition detect_conflicts :: "ip_pool list \<Rightarrow> nat \<Rightarrow> (nat \<times> nat) list" where
  "detect_conflicts tbl org =
     (let own = filter (\<lambda>p. pl_org p = Some org \<and> pl_live p \<and> pl_network p \<noteq> None) tbl in
      concat (map (\<lambda>a. map (\<lambda>b. (pl_id a, pl_id b))
        (filter (\<lambda>b. pl_id a < pl_id b \<and> cidrs_overlap (the (pl_network a)) (the (pl_network b))) own)) own))"

section \<open>Address blocks\<close>

text \<open>The high bits of an address: \<open>x AND mask\<close> compares them.\<close>

definition v4_block :: "32 word \<Rightarrow> nat \<Rightarrow> 32 word set" where
  "v4_block a p = {x. x AND v4_mask (Some (int p)) = a AND v4_mask (Some (int p))}"

lemma shift_count: "p \<noteq> 0 \<Longrightarrow> p \<le> 32 \<Longrightarrow> nat ((32 - int p) mod 32) = 32 - p"
proof -
  assume "p \<noteq> 0" and p: "p \<le> 32"
  then have "(32 - int p) mod 32 = 32 - int p" by (intro mod_pos_pos_trivial) simp_all
  with p show ?thesis by simp
qed

lemma v4_mask_push: "p \<le> 32 \<Longrightarrow> v4_mask (Some (int p)) = push_bit (32 - p) (- 1)"
proof (cases "p = 0")
  case True
  have "push_bit 32 (- 1) = (0 :: 32 word)" by (rule bit_eqI) (auto simp: bit_simps)
  with True show ?thesis by (simp add: v4_mask_def del: push_bit_minus_one_eq_not_mask)
next
  case False
  assume "p \<le> 32"
  from False this have "nat ((32 - int p) mod 32) = 32 - p" by (rule shift_count)
  with False show ?thesis by (simp add: v4_mask_def)
qed

lemma and_push_mask: "(x :: 32 word) AND push_bit k (- 1) = push_bit k (drop_bit k x)"
  by (rule bit_eqI) (auto simp: bit_simps)

lemma unat_clear_low: "unat (push_bit k (drop_bit k (x :: 32 word))) = unat x div 2 ^ k * 2 ^ k"
proof -
  have "unat x div 2 ^ k * 2 ^ k < 2 ^ 32"
    using unsigned_less [of x] by (auto intro: le_less_trans [OF div_times_less_eq_dividend])
  moreover have "unat (push_bit k (drop_bit k x)) = take_bit 32 (push_bit k (drop_bit k (unat x)))"
    using unsigned_less [of x] by (simp add: unsigned_push_bit_eq unat_drop_bit_eq take_bit_nat_eq_self)
  ultimately show ?thesis
    by (simp add: push_bit_eq_mult drop_bit_eq_div take_bit_nat_eq_self)
qed

lemma unat_set_low:
  assumes "k \<le> 32"
  shows "unat (push_bit k (drop_bit k (x :: 32 word)) OR NOT (push_bit k (- 1))) = unat x div 2 ^ k * 2 ^ k + (2 ^ k - 1)"
proof -
  have n: "NOT (push_bit k (- 1)) = (mask k :: 32 word)"
    by (rule bit_eqI) (auto simp: bit_simps)
  have m: "unat (mask k :: 32 word) = 2 ^ k - 1"
  proof -
    have "unat (mask k :: 32 word) = mask k"
      using assms by (intro bit_eqI) (auto simp: bit_simps)
    then show ?thesis by (simp add: mask_eq_exp_minus_1)
  qed
  have "unat (push_bit k (drop_bit k x)) + unat (mask k :: 32 word) = unat (push_bit k (drop_bit k x)) OR unat (mask k :: 32 word)"
    by (rule disjunctive_add_eq_or) (auto simp: bit_simps bit_unsigned_iff intro!: bit_eqI)
  then show ?thesis
    by (simp only: n unsigned_or_eq unat_clear_low m)
qed

lemma block_div: "(n :: nat) div 2 ^ k * 2 ^ k \<le> x \<and> x \<le> n div 2 ^ k * 2 ^ k + (2 ^ k - 1) \<longleftrightarrow> x div 2 ^ k = n div 2 ^ k"
proof
  assume h: "n div 2 ^ k * 2 ^ k \<le> x \<and> x \<le> n div 2 ^ k * 2 ^ k + (2 ^ k - 1)"
  have "0 < (2 :: nat) ^ k" by simp
  with h have "n div 2 ^ k * 2 ^ k \<le> x" "x < n div 2 ^ k * 2 ^ k + 2 ^ k" by linarith+
  then show "x div 2 ^ k = n div 2 ^ k"
    by (simp add: div_nat_eqI algebra_simps)
next
  assume d: "x div 2 ^ k = n div 2 ^ k"
  have "x = x div 2 ^ k * 2 ^ k + x mod 2 ^ k" "x mod 2 ^ k < 2 ^ k" by (simp_all only: div_mult_mod_eq mod_less_divisor zero_less_power zero_less_numeral)
  then show "n div 2 ^ k * 2 ^ k \<le> x \<and> x \<le> n div 2 ^ k * 2 ^ k + (2 ^ k - 1)"
    unfolding d by linarith
qed

text \<open>The interval of a parsed pool is the block of its prefix.\<close>

lemma v4_range_block:
  assumes "p \<le> 32"
  shows "r4_network (v4_range_of addr (Some (int p))) \<le> x \<and> x \<le> r4_broadcast (v4_range_of addr (Some (int p))) \<longleftrightarrow>
    x \<in> v4_block (ipv4_to_int addr) p"
proof -
  let ?a = "ipv4_to_int addr" and ?k = "32 - p"
  have m: "v4_mask (Some (int p)) = push_bit ?k (- 1)" by (rule v4_mask_push [OF assms])
  have "x \<in> v4_block ?a p \<longleftrightarrow> unat x div 2 ^ ?k = unat ?a div 2 ^ ?k"
    unfolding v4_block_def m and_push_mask mem_Collect_eq word_unat_eq_iff unat_clear_low by simp
  moreover have "r4_network (v4_range_of addr (Some (int p))) = push_bit ?k (drop_bit ?k ?a)"
    "r4_broadcast (v4_range_of addr (Some (int p))) = push_bit ?k (drop_bit ?k ?a) OR NOT (push_bit ?k (- 1))"
    by (simp_all only: v4_range_of_def m and_push_mask Let_def v4_range.simps)
  ultimately show ?thesis
    using unat_set_low [of ?k ?a] by (simp only: word_le_nat_alt unat_clear_low block_div)
qed

section \<open>Ranges\<close>

text \<open>Two closed ranges overlap exactly when they share an element.\<close>

locale addr_range =
  fixes lo hi :: "'r \<Rightarrow> 'a :: linorder" and ok :: "'r \<Rightarrow> bool"
  assumes ordered: "ok r \<Longrightarrow> lo r \<le> hi r"
begin

definition range_of :: "'r \<Rightarrow> 'a set" where
  "range_of r = {x. lo r \<le> x \<and> x \<le> hi r}"

lemma overlap_iff: "ok a \<Longrightarrow> ok b \<Longrightarrow> lo a \<le> hi b \<and> lo b \<le> hi a \<longleftrightarrow> range_of a \<inter> range_of b \<noteq> {}"
proof
  assume "ok a" "ok b" and o: "lo a \<le> hi b \<and> lo b \<le> hi a"
  then have "max (lo a) (lo b) \<in> range_of a \<inter> range_of b"
    using ordered [of a] ordered [of b] by (auto simp: range_of_def max_def)
  then show "range_of a \<inter> range_of b \<noteq> {}" by blast
next
  assume "range_of a \<inter> range_of b \<noteq> {}"
  then show "lo a \<le> hi b \<and> lo b \<le> hi a" by (auto simp: range_of_def)
qed

end

interpretation v4: addr_range r4_network r4_broadcast "\<lambda>r. \<exists>addr prefix. r = v4_range_of addr prefix"
  by unfold_locales (auto simp: v4_range_of_def Let_def le_word_or2)

definition v6_ordered :: "v6_range \<Rightarrow> bool" where
  "v6_ordered r \<longleftrightarrow> r6_network r \<le> r6_broadcast r"

interpretation v6: addr_range r6_network r6_broadcast v6_ordered
  by unfold_locales (simp add: v6_ordered_def)

text \<open>The addresses of an IPv4 pool: those with the network's bits under its mask.\<close>

definition v4_addresses :: "ip_pool \<Rightarrow> 32 word set" where
  "v4_addresses pool =
     (case parse_ipv4_pool pool of None \<Rightarrow> {}
      | Some r \<Rightarrow> {x. x AND v4_mask (r4_prefix r) = r4_network r})"

definition v4_valid :: "ip_pool \<Rightarrow> bool" where
  "v4_valid pool \<longleftrightarrow>
     (case parse_ipv4_pool pool of None \<Rightarrow> False
      | Some r \<Rightarrow> (case r4_prefix r of None \<Rightarrow> False | Some p \<Rightarrow> 0 \<le> p \<and> p \<le> 32))"

lemma parse_ipv4_pool_range: "parse_ipv4_pool pool = Some r \<Longrightarrow> \<exists>addr. r = v4_range_of addr (r4_prefix r)"
  by (auto simp: parse_ipv4_pool_def v4_range_of_def Let_def split: option.splits if_splits prod.splits)

lemma v4_valid_range:
  assumes "v4_valid pool"
  obtains r where "parse_ipv4_pool pool = Some r" and "v4_addresses pool = v4.range_of r"
    and "\<exists>addr prefix. r = v4_range_of addr prefix"
proof -
  obtain r where r: "parse_ipv4_pool pool = Some r" using assms by (auto simp: v4_valid_def split: option.splits)
  then obtain addr where a: "r = v4_range_of addr (r4_prefix r)" using parse_ipv4_pool_range by blast
  obtain p where p: "r4_prefix r = Some (int p)" "p \<le> 32"
    using assms r by (auto simp: v4_valid_def split: option.splits) (metis nat_0_le nat_le_iff of_nat_numeral)
  have a: "r = v4_range_of addr (Some (int p))" using a p(1) by simp
  have net: "r4_network (v4_range_of addr (Some (int p))) = ipv4_to_int addr AND v4_mask (Some (int p))"
    by (simp only: v4_range_of_def Let_def v4_range.simps)
  have "x AND v4_mask (r4_prefix r) = r4_network r \<longleftrightarrow> r4_network r \<le> x \<and> x \<le> r4_broadcast r" for x
    using v4_range_block [OF p(2), of addr x] unfolding p(1) unfolding a net v4_block_def by simp
  then have "v4_addresses pool = v4.range_of r"
    by (simp add: v4_addresses_def r v4.range_of_def)
  with r a that show thesis by blast
qed

lemma pools_overlap_v4:
  assumes "\<not> pl_v6 pool" and "v4_valid pool" and "v4_valid peer"
  shows "pools_overlap pool peer \<longleftrightarrow> v4_addresses pool \<inter> v4_addresses peer \<noteq> {}"
proof -
  obtain r where r: "parse_ipv4_pool pool = Some r" "v4_addresses pool = v4.range_of r"
    "\<exists>addr prefix. r = v4_range_of addr prefix" by (rule v4_valid_range [OF assms(2)])
  obtain s where s: "parse_ipv4_pool peer = Some s" "v4_addresses peer = v4.range_of s"
    "\<exists>addr prefix. s = v4_range_of addr prefix" by (rule v4_valid_range [OF assms(3)])
  show ?thesis
    using assms(1) v4.overlap_iff [OF r(3) s(3)] by (simp add: pools_overlap_def r(1,2) s(1,2))
qed

lemma find_Some_in: "find P xs = Some x \<Longrightarrow> x \<in> set xs \<and> P x"
  by (induction xs) (auto split: if_splits)

text \<open>The overlap check is exact. For IPv4 pools with a prefix from 0 to 32 it accepts a pool
  exactly when no live pool of the same organization shares an address with it, and the pool it
  names shares one.\<close>

theorem detect_overlap_exact:
  assumes "\<not> pl_v6 pool" and "v4_valid pool" and "\<forall>peer\<in>set (overlap_peers tbl pool ex). v4_valid peer"
  shows "(detect_overlap tbl pool ex = None \<longleftrightarrow>
      (\<forall>peer\<in>set (overlap_peers tbl pool ex). v4_addresses pool \<inter> v4_addresses peer = {})) \<and>
    (\<forall>peer. detect_overlap tbl pool ex = Some peer \<longrightarrow>
      peer \<in> set (overlap_peers tbl pool ex) \<and> v4_addresses pool \<inter> v4_addresses peer \<noteq> {})"
proof -
  let ?peers = "overlap_peers tbl pool ex"
  have o: "pools_overlap pool peer \<longleftrightarrow> v4_addresses pool \<inter> v4_addresses peer \<noteq> {}" if "peer \<in> set ?peers" for peer
    by (rule pools_overlap_v4 [OF assms(1,2)]) (use assms(3) that in blast)
  have "detect_overlap tbl pool ex = None \<longleftrightarrow> (\<forall>peer\<in>set ?peers. \<not> pools_overlap pool peer)"
    by (auto simp: detect_overlap_def find_None_iff)
  moreover have "detect_overlap tbl pool ex = Some peer \<Longrightarrow> peer \<in> set ?peers \<and> pools_overlap pool peer" for peer
    unfolding detect_overlap_def by (rule find_Some_in)
  ultimately show ?thesis using o by blast
qed

definition sample_pool :: ip_pool where
  "sample_pool = \<lparr>pl_id = 1, pl_org = Some 7, pl_v6 = False, pl_network = Some ''10.0.0.0/30'', pl_mask = None,
     pl_gateway = Some ''10.0.0.1'', pl_excluded = None, pl_default_len = None, pl_live = True\<rparr>"

lemma sample_pool_parsed:
  "parse_ipv4_pool sample_pool = Some \<lparr>r4_network = 0x0A000000, r4_broadcast = 0x0A000003, r4_prefix = Some 30\<rparr>"
  by code_simp

theorem detect_overlap_exact_witness:
  "detect_overlap [sample_pool] (sample_pool\<lparr>pl_id := 2\<rparr>) (Some 2) \<noteq> None"
proof -
  let ?new = "sample_pool\<lparr>pl_id := 2\<rparr>"
  have parse: "parse_ipv4_pool ?new = parse_ipv4_pool sample_pool"
    by (simp add: parse_ipv4_pool_def sample_pool_def)
  have peers: "overlap_peers [sample_pool] ?new (Some 2) = [sample_pool]"
    by (simp add: overlap_peers_def sample_pool_def)
  have valid: "v4_valid sample_pool" "v4_valid ?new" by (simp_all add: v4_valid_def parse sample_pool_parsed)
  have same: "v4_addresses ?new = v4_addresses sample_pool" by (simp add: v4_addresses_def parse)
  have "(0x0A000000 :: 32 word) AND v4_mask (Some 30) = 0x0A000000" by code_simp
  then have "0x0A000000 \<in> v4_addresses sample_pool" by (simp add: v4_addresses_def sample_pool_parsed)
  with detect_overlap_exact [of ?new "[sample_pool]" "Some 2"] valid peers same show ?thesis
    by (auto simp: sample_pool_def)
qed

section \<open>Assignment is safe\<close>







lemma new_assignment_fields [simp]:
  "as_pool (new_assignment pool rid c k ty ip) = pl_id pool" "as_ip (new_assignment pool rid c k ty ip) = ip"
  "as_org (new_assignment pool rid c k ty ip) = pl_org pool"
  by (simp_all add: new_assignment_def)










section \<open>The planner\<close>

lemma v4_block_div:
  assumes "p \<le> 32"
  shows "x \<in> v4_block a p \<longleftrightarrow> unat x div 2 ^ (32 - p) = unat a div 2 ^ (32 - p)"
  unfolding v4_block_def v4_mask_push [OF assms] and_push_mask mem_Collect_eq word_unat_eq_iff unat_clear_low by simp

lemma len32: "LENGTH(32) = (32 :: nat)" by simp

text \<open>The planned bases as numbers.\<close>

lemma plan_v4_bases_unat:
  assumes "p \<le> s" and "s \<le> 32" and "i < 2 ^ (s - p)"
  shows "unat (plan_v4_bases a p s (2 ^ (s - p)) ! i) = (unat a div 2 ^ (32 - p) * 2 ^ (s - p) + i) * 2 ^ (32 - s)"
proof -
  let ?k = "32 - p" and ?j = "32 - s"
  let ?base = "push_bit ?k (drop_bit ?k a)"
  have mask: "a AND (if p = 0 then 0 else push_bit (nat ((32 - int p) mod 32)) (- 1)) = ?base"
    using v4_mask_push [of p] assms and_push_mask [of a ?k] by (simp add: v4_mask_def split: if_splits)
  have pow: "(2::nat) ^ ?k = 2 ^ (s - p) * 2 ^ ?j" using assms by (simp flip: power_add)
  have step: "of_nat i * (if p = s then 0 else push_bit (nat ((32 - int s) mod 32)) 1) = (of_nat (i * 2 ^ ?j) :: 32 word)"
  proof (cases "p = s")
    case True
    with assms(3) show ?thesis by simp
  next
    case False
    then have "nat ((32 - int s) mod 32) = ?j" using assms by (intro shift_count) simp_all
    with False show ?thesis by (simp add: push_bit_eq_mult)
  qed
  have small: "unat ?base + i * 2 ^ ?j < 2 ^ 32"
  proof -
    have "i + 1 \<le> 2 ^ (s - p)" using assms(3) by simp
    then have "(i + 1) * 2 ^ ?j \<le> 2 ^ ?k" unfolding pow by (rule mult_le_mono1)
    moreover have "(0::nat) < 2 ^ ?j" "(i + 1) * 2 ^ ?j = i * 2 ^ ?j + 2 ^ ?j" by simp_all
    ultimately have "i * 2 ^ ?j < 2 ^ ?k" by linarith
    moreover have "(unat a div 2 ^ ?k + 1) * 2 ^ ?k \<le> 2 ^ 32"
    proof -
      have "unat a < 2 ^ 32" using unsigned_less [of a] by simp
      also have "(2::nat) ^ 32 = 2 ^ p * 2 ^ ?k" using assms by (simp flip: power_add)
      finally have "unat a div 2 ^ ?k < 2 ^ p" by (rule less_mult_imp_div_less)
      then have "(unat a div 2 ^ ?k + 1) * 2 ^ ?k \<le> 2 ^ p * 2 ^ ?k" by (intro mult_le_mono1) simp
      then show ?thesis using assms by (simp flip: power_add)
    qed
    ultimately show ?thesis by (simp add: unat_clear_low algebra_simps)
  qed
  have "plan_v4_bases a p s (2 ^ (s - p)) ! i = ?base + of_nat (i * 2 ^ ?j)"
    using assms(3) by (simp only: plan_v4_bases_def Let_def mask step [symmetric] nth_map_upt diff_zero add_0)
  also have "unat \<dots> = unat ?base + i * 2 ^ ?j"
  proof -
    have u: "unat (of_nat n :: 32 word) = n" if "n < 2 ^ 32" for n
      using that by (simp add: unsigned_of_nat take_bit_nat_eq_self)
    have "unat (of_nat (i * 2 ^ ?j) :: 32 word) = i * 2 ^ ?j"
      by (rule u) (use small in linarith)
    with small show ?thesis by (subst unat_add_lem [THEN iffD1]) (simp_all only: len32)
  qed
  also have "\<dots> = (unat a div 2 ^ ?k * 2 ^ (s - p) + i) * 2 ^ ?j"
    by (simp add: unat_clear_low pow algebra_simps)
  finally show ?thesis .
qed

text \<open>C27: the planner cuts a network into equal parts. When it plans IPv4 subnets of length \<open>s\<close>
  inside a network of length \<open>p\<close>, with at most 65536 parts, every address of the network lies in
  exactly one of the planned subnets, and no other address does.\<close>

theorem plan_subnets_partition:
  fixes a :: "32 word"
  assumes "p \<le> s" and "s \<le> 32"
  defines "bases \<equiv> plan_v4_bases a p s (2 ^ (s - p))"
  shows "length bases = 2 ^ (s - p) \<and>
    (\<forall>x. (x \<in> v4_block a p \<longrightarrow> (\<exists>!i. i < length bases \<and> x \<in> v4_block (bases ! i) s)) \<and>
         (x \<notin> v4_block a p \<longrightarrow> (\<forall>i<length bases. x \<notin> v4_block (bases ! i) s)))"
proof -
  let ?A = "unat a div 2 ^ (32 - p)" and ?q = "\<lambda>x::32 word. unat x div 2 ^ (32 - s)"
  have len: "length bases = 2 ^ (s - p)" by (simp add: bases_def plan_v4_bases_def Let_def)
  have pow: "(2::nat) ^ (32 - p) = 2 ^ (32 - s) * 2 ^ (s - p)" using assms by (simp flip: power_add)
  have inb: "x \<in> v4_block (bases ! i) s \<longleftrightarrow> ?q x = ?A * 2 ^ (s - p) + i" if "i < 2 ^ (s - p)" for x i
    using plan_v4_bases_unat [OF assms(1,2) that, of a] by (simp add: v4_block_div [OF assms(2)] bases_def)
  have ina: "x \<in> v4_block a p \<longleftrightarrow> ?q x div 2 ^ (s - p) = ?A" for x
    using assms by (simp add: v4_block_div pow div_mult2_eq)
  have "\<exists>!i. i < length bases \<and> x \<in> v4_block (bases ! i) s" if x: "x \<in> v4_block a p" for x
  proof (intro ex1I [of _ "?q x mod 2 ^ (s - p)"])
    have "?q x = ?A * 2 ^ (s - p) + ?q x mod 2 ^ (s - p)"
      using x ina [of x] div_mult_mod_eq [of "?q x" "2 ^ (s - p)"] by simp
    then show "?q x mod 2 ^ (s - p) < length bases \<and> x \<in> v4_block (bases ! (?q x mod 2 ^ (s - p))) s"
      using inb [of "?q x mod 2 ^ (s - p)" x] by (simp add: len)
  next
    fix i assume "i < length bases \<and> x \<in> v4_block (bases ! i) s"
    then show "i = ?q x mod 2 ^ (s - p)" using inb [of i x] by (simp add: len)
  qed
  moreover have "x \<in> v4_block a p" if "i < length bases" "x \<in> v4_block (bases ! i) s" for x i
    using that inb [of i x] by (simp add: ina len)
  ultimately show ?thesis using len by blast
qed

theorem plan_subnets_partition_witness:
  "\<exists>!i. i < length (plan_v4_bases 0x0A000000 8 10 (2 ^ (10 - 8))) \<and>
     0x0A800001 \<in> v4_block (plan_v4_bases 0x0A000000 8 10 (2 ^ (10 - 8)) ! i) 10"
proof -
  have "(0x0A800001 :: 32 word) \<in> v4_block 0x0A000000 8" by (simp add: v4_block_div)
  moreover have "(8::nat) \<le> 10" "(10::nat) \<le> 32" by simp_all
  ultimately show ?thesis using plan_subnets_partition [of 8 10 "0x0A000000"] by blast
qed

definition wide_pool :: ip_pool where
  "wide_pool = sample_pool\<lparr>pl_id := 2, pl_network := Some ''0.0.0.0/0''\<rparr>"

definition masked_pool :: ip_pool where
  "masked_pool = sample_pool\<lparr>pl_id := 3, pl_network := Some ''10.0.0.0'', pl_mask := Some ''255.255.255.0''\<rparr>"

text \<open>The planner's conflict check misses overlaps the assignment service refuses. A pool given
  by a network and a mask is never in conflict, and \<open>0.0.0.0/0\<close> is taken for the single address
  0.0.0.0, since a 32-bit shift by 32 shifts by nothing.\<close>

theorem planner_misses_overlaps:
  "detect_conflicts [sample_pool, wide_pool, masked_pool] 7 = [] \<and>
   pools_overlap sample_pool wide_pool \<and> pools_overlap sample_pool masked_pool \<and>
   cidr_to_range ''0.0.0.0/0'' = Some (0, 0, False)"
  by code_simp

end
