(* ===== verification/Ip_Guard.thy ===== *)
theory Ip_Guard
  imports Ip_Pools
begin

text \<open>
  Two guards on addresses. The admin allowlist: \<open>src/src/middleware/ipAllowlist.js\<close> and the policy of
  \<open>src/src/middleware/adminIpAllowlist.js\<close>. The outbound guard against requests to private
  addresses: \<open>src/src/utils/safeOutboundUrl.js\<close>.

  The URL parser of the platform (\<open>new URL\<close>), the punycode conversion (\<open>domainToASCII\<close>) and the DNS
  resolver are parameters: the guard is proved for whatever they answer.
\<close>

unbundle bit_operations_syntax

section \<open>Data\<close>

datatype allow_entry = Entry_v4 "32 word" "32 word" | Entry_v6 "nat list" nat

record allow_row =
  ar_cidr :: string
  ar_active :: bool
  ar_org :: "nat option"
  ar_live :: bool

record allow_status =
  st_enabled :: bool
  st_valid :: bool
  st_active :: nat
  st_invalid :: nat
  st_allowed :: bool

datatype guard_error = Unsafe_url string | Unsafe_host string | Resolution_timeout | Forbidden


record dns_entry =
  dn_address :: string
  dn_family :: nat

datatype dns_answer = Dns_addresses "dns_entry list" | Dns_timeout | Dns_failed


section \<open>The allowlist\<close>

text \<open>An octet must be written the way it is printed.\<close>

definition strict_octet :: "32 word option \<Rightarrow> string \<Rightarrow> 32 word option" where
  "strict_octet acc part =
     (case (acc, parse_int10 part) of
        (Some a, Some n) \<Rightarrow>
          if n < 0 \<or> 255 < n \<or> show_nat (nat n) \<noteq> part then None else Some (a * 256 + word_of_int n)
      | _ \<Rightarrow> None)"

definition allow_ipv4_to_int :: "string \<Rightarrow> 32 word option" where
  "allow_ipv4_to_int ip =
     (let parts = js_split (CHR ''.'') ip in
      if length parts \<noteq> 4 then None else foldl strict_octet (Some 0) parts)"

definition mapped_prefix :: string where "mapped_prefix = ''::ffff:''"

definition dotted_shape :: "string \<Rightarrow> bool" where
  "dotted_shape s \<longleftrightarrow> (let ps = js_split (CHR ''.'') s in
     length ps = 4 \<and> list_all (\<lambda>p. 1 \<le> length p \<and> length p \<le> 3 \<and> list_all is_digit p) ps)"

definition hex_shape :: "string \<Rightarrow> bool" where
  "hex_shape s \<longleftrightarrow> 1 \<le> length s \<and> length s \<le> 4 \<and> list_all is_hex s"

text \<open>The zone is cut off; an IPv4-mapped address becomes the IPv4 address.\<close>

definition normalize_ip :: "string \<Rightarrow> string option" where
  "normalize_ip ip =
     (if ip = [] then None
      else
        let stripped = (case index_of (CHR ''%'') ip of None \<Rightarrow> ip | Some i \<Rightarrow> take i ip);
            mapped = js_lower (take 7 stripped) = mapped_prefix;
            rest = drop 7 stripped
        in if mapped \<and> dotted_shape rest then Some rest
           else case js_split (CHR '':'') rest of
               [hi, lo] \<Rightarrow>
                 if mapped \<and> hex_shape hi \<and> hex_shape lo then
                   let h = hex_digits_val hi; l = hex_digits_val lo in
                   Some (js_join ''.'' (map show_nat [h div 256, h mod 256, l div 256, l mod 256]))
                 else Some stripped
             | _ \<Rightarrow> Some stripped)"

text \<open>\<open>(~0 << (32 - prefix)) >>> 0\<close> for a prefix from 1 to 32.\<close>

definition parse_entry_v4 :: "string \<Rightarrow> allow_entry option" where
  "parse_entry_v4 trimmed =
     (case index_of (CHR ''/'') trimmed of
        Some i \<Rightarrow>
          (case parse_int10 (js_trim (drop (Suc i) trimmed)) of
             None \<Rightarrow> None
           | Some p \<Rightarrow>
               if p < 0 \<or> 32 < p then None
               else
                 (case allow_ipv4_to_int (js_trim (take i trimmed)) of
                    None \<Rightarrow> None
                  | Some a \<Rightarrow>
                      let msk = (if p = 0 then 0 else push_bit (nat (32 - p)) (- 1)) in
                      Some (Entry_v4 (a AND msk) msk)))
      | None \<Rightarrow> map_option (\<lambda>a. Entry_v4 a (- 1)) (allow_ipv4_to_int trimmed))"

definition v6_prefix_part :: "string option \<Rightarrow> nat option" where
  "v6_prefix_part part =
     (case part of None \<Rightarrow> Some 128
      | Some s \<Rightarrow> let t = js_trim s in
          if t \<noteq> [] \<and> list_all is_digit t \<and> digits_val t \<le> 128 then Some (digits_val t) else None)"

definition parse_entry :: "string \<Rightarrow> allow_entry option" where
  "parse_entry entry =
     (let trimmed = js_trim entry in
      if trimmed = [] then None
      else
        let parts = js_split (CHR ''/'') trimmed;
            addr_part = js_trim (hd parts);
            prefix_part = (if 2 \<le> length parts then Some (parts ! 1) else None)
        in case normalize_ip addr_part of
             Some addr \<Rightarrow>
               if is_ipv6 addr then map_option (Entry_v6 (ipv6_words addr)) (v6_prefix_part prefix_part)
               else if is_ipv4 addr \<and> addr \<noteq> addr_part
               then parse_entry_v4 (js_trim (case prefix_part of None \<Rightarrow> addr | Some p \<Rightarrow> addr @ ''/'' @ p))
               else parse_entry_v4 trimmed
           | None \<Rightarrow> parse_entry_v4 trimmed)"

definition keep_some :: "('a \<Rightarrow> 'b option) \<Rightarrow> 'a list \<Rightarrow> 'b list" where
  "keep_some f xs = List.map_filter f xs"

definition parse_allowlist :: "string option \<Rightarrow> allow_entry list option" where
  "parse_allowlist raw =
     (case raw of None \<Rightarrow> None
      | Some s \<Rightarrow>
          if js_trim s = [] then None
          else let entries = keep_some parse_entry (js_split (CHR '','') s) in
            if entries = [] then None else Some entries)"

definition words_num :: "nat list \<Rightarrow> nat" where
  "words_num ws = foldl (\<lambda>n w. n * 65536 + w) 0 ws"

definition v6_in_subnet :: "nat list \<Rightarrow> nat \<Rightarrow> nat list \<Rightarrow> bool" where
  "v6_in_subnet net p ws \<longleftrightarrow> words_num ws div 2 ^ (128 - p) = words_num net div 2 ^ (128 - p)"

definition entry_allows_v4 :: "32 word \<Rightarrow> allow_entry \<Rightarrow> bool" where
  "entry_allows_v4 ip e = (case e of Entry_v4 net msk \<Rightarrow> ip AND msk = net | Entry_v6 _ _ \<Rightarrow> False)"

definition entry_allows_v6 :: "nat list \<Rightarrow> allow_entry \<Rightarrow> bool" where
  "entry_allows_v6 ws e = (case e of Entry_v4 _ _ \<Rightarrow> False | Entry_v6 net p \<Rightarrow> v6_in_subnet net p ws)"

definition is_allowed :: "string \<Rightarrow> allow_entry list option \<Rightarrow> bool" where
  "is_allowed ip allowlist =
     (case allowlist of None \<Rightarrow> True
      | Some entries \<Rightarrow>
          (case normalize_ip ip of None \<Rightarrow> False
           | Some normalized \<Rightarrow>
               if is_ipv6 normalized then list_ex (entry_allows_v6 (ipv6_words normalized)) entries
               else (case allow_ipv4_to_int normalized of None \<Rightarrow> False
                     | Some w \<Rightarrow> list_ex (entry_allows_v4 w) entries)))"

text \<open>The middleware factory: what a request with that client address gets.\<close>

definition create_ip_allowlist :: "allow_entry list option \<Rightarrow> bool \<Rightarrow> string \<Rightarrow> guard_error + unit" where
  "create_ip_allowlist allowlist required ip =
     (case allowlist of
        None \<Rightarrow> if required then Inl Forbidden else Inr ()
      | Some _ \<Rightarrow> if is_allowed ip allowlist then Inr () else Inl Forbidden)"

section \<open>The admin policy\<close>

definition list_active_entries :: "allow_row list \<Rightarrow> nat option \<Rightarrow> allow_row list" where
  "list_active_entries tbl org =
     (case org of None \<Rightarrow> []
      | Some _ \<Rightarrow> filter (\<lambda>r. (ar_org r = org \<or> ar_org r = None) \<and> ar_active r \<and> ar_live r) tbl)"

definition status_from_entries :: "allow_row list \<Rightarrow> string \<Rightarrow> allow_status" where
  "status_from_entries entries ip =
     (let parsed = keep_some (\<lambda>e. parse_entry (ar_cidr e)) entries; enabled = entries \<noteq> [] in
      \<lparr>st_enabled = enabled, st_valid = (\<not> enabled \<or> length parsed = length entries),
       st_active = length entries, st_invalid = length entries - length parsed,
       st_allowed = (\<not> enabled \<or> parsed \<noteq> [] \<and> is_allowed ip (Some parsed))\<rparr>)"

definition status_from_environment :: "string \<Rightarrow> string \<Rightarrow> allow_status" where
  "status_from_environment v ip =
     (let raw = filter (\<lambda>s. s \<noteq> []) (map js_trim (js_split (CHR '','') v));
          parsed = keep_some parse_entry raw; allowlist = parse_allowlist (Some v)
      in \<lparr>st_enabled = True, st_valid = (allowlist \<noteq> None \<and> length parsed = length raw),
          st_active = length parsed, st_invalid = length raw - length parsed,
          st_allowed = (allowlist \<noteq> None \<and> is_allowed ip allowlist)\<rparr>)"

definition admin_allowlist_status :: "string \<Rightarrow> allow_row list \<Rightarrow> nat option \<Rightarrow> string \<Rightarrow> allow_status" where
  "admin_allowlist_status environment tbl org ip =
     (if js_trim environment \<noteq> [] then status_from_environment (js_trim environment) ip
      else status_from_entries (list_active_entries tbl org) ip)"

definition enforce_admin_ip_allowlist :: "string \<Rightarrow> allow_row list \<Rightarrow> nat option \<Rightarrow> string \<Rightarrow> guard_error + unit" where
  "enforce_admin_ip_allowlist environment tbl org ip =
     (let st = admin_allowlist_status environment tbl org ip in
      if \<not> st_enabled st \<or> st_allowed st then Inr () else Inl Forbidden)"

section \<open>Blocked destinations\<close>

definition guard_parse_ipv4 :: "string \<Rightarrow> nat list option" where
  "guard_parse_ipv4 ip =
     (if is_ip ip \<noteq> 4 then None
      else let o' = ipv4_octets ip in
        if length o' \<noteq> 4 \<or> list_ex (\<lambda>n. 255 < n) o' then None else Some o')"

text \<open>The regular expression finds the dotted tail: in a valid address it is the last group.\<close>

definition undot :: "string \<Rightarrow> string option" where
  "undot value =
     (let tail = last (js_split (CHR '':'') value) in
      if CHR ''.'' \<in> set tail then
        (case guard_parse_ipv4 tail of
           Some [a, b, c, d] \<Rightarrow>
             Some (take (length value - length tail) value @ show_hex (a * 256 + b) @ '':'' @ show_hex (c * 256 + d))
         | _ \<Rightarrow> None)
      else Some value)"

definition nonempty_groups :: "string \<Rightarrow> string list" where
  "nonempty_groups s = filter (\<lambda>g. g \<noteq> []) (js_split (CHR '':'') s)"

definition guard_words :: "string list \<Rightarrow> string list \<Rightarrow> nat \<Rightarrow> nat list option" where
  "guard_words left right missing =
     (let words = map (\<lambda>g. parse_int16 g) (left @ replicate missing ''0'' @ right) in
      if length words \<noteq> 8 \<or> list_ex (\<lambda>w. case w of None \<Rightarrow> True | Some n \<Rightarrow> n < 0 \<or> 0xffff < n) words then None
      else Some (map (\<lambda>w. nat (the w)) words))"

definition guard_parse_ipv6 :: "string \<Rightarrow> nat list option" where
  "guard_parse_ipv6 ip =
     (if is_ip ip \<noteq> 6 then None
      else
        (case undot (hd (js_split (CHR ''%'') (js_lower ip))) of
           None \<Rightarrow> None
         | Some value \<Rightarrow>
             (case split_str ''::'' value of
                [w] \<Rightarrow> let left = nonempty_groups w in
                       if length left \<noteq> 8 then None else guard_words left [] 0
              | [l, r] \<Rightarrow> let left = nonempty_groups l; right = nonempty_groups r in
                          if 7 < length left + length right then None
                          else guard_words left right (8 - length left - length right)
              | _ \<Rightarrow> None)))"

definition mapped_ipv4 :: "nat list \<Rightarrow> nat list option" where
  "mapped_ipv4 ws =
     (if length ws \<noteq> 8 \<or> take 5 ws \<noteq> [0, 0, 0, 0, 0] \<or> ws ! 5 \<noteq> 0xffff then None
      else Some [ws ! 6 div 256, ws ! 6 mod 256, ws ! 7 div 256, ws ! 7 mod 256])"

definition is_blocked_ipv4 :: "nat list \<Rightarrow> bool" where
  "is_blocked_ipv4 octets =
     (let a = octets ! 0; b = octets ! 1; c = octets ! 2 in
      a = 0 \<or> a = 10 \<or> a = 127 \<or>
      a = 100 \<and> 64 \<le> b \<and> b \<le> 127 \<or>
      a = 169 \<and> b = 254 \<or>
      a = 172 \<and> 16 \<le> b \<and> b \<le> 31 \<or>
      a = 192 \<and> b = 168 \<or>
      a = 192 \<and> b = 0 \<and> c = 0 \<or>
      a = 192 \<and> b = 0 \<and> c = 2 \<or>
      a = 198 \<and> (b = 18 \<or> b = 19) \<or>
      a = 198 \<and> b = 51 \<and> c = 100 \<or>
      a = 203 \<and> b = 0 \<and> c = 113 \<or>
      224 \<le> a)"

text \<open>The checks on the eight words of an address that is not IPv4-mapped.\<close>

definition is_blocked_words :: "nat list \<Rightarrow> bool" where
  "is_blocked_words ws =
     (let w = (\<lambda>i. ws ! i); tail = [w 6 div 256, w 6 mod 256, w 7 div 256, w 7 mod 256] in
      take 6 ws = replicate 6 0 \<or>
      take 4 ws = replicate 4 0 \<and> w 4 = 0xffff \<and> w 5 = 0 \<or>
      w 0 = 0x0064 \<and> w 1 = 0xff9b \<and> take 4 (drop 2 ws) = replicate 4 0 \<and> is_blocked_ipv4 tail \<or>
      w 0 = 0x0064 \<and> w 1 = 0xff9b \<and> w 2 = 1 \<or>
      w 0 = 0x2002 \<and> is_blocked_ipv4 [w 1 div 256, w 1 mod 256, w 2 div 256, w 2 mod 256] \<or>
      take 7 ws = replicate 7 0 \<and> (w 7 = 0 \<or> w 7 = 1) \<or>
      w 0 AND 0xfe00 = 0xfc00 \<or>
      w 0 AND 0xffc0 = 0xfe80 \<or>
      w 0 AND 0xffc0 = 0xfec0 \<or>
      w 0 AND 0xff00 = 0xff00 \<or>
      w 0 = 0x2001 \<and> w 1 = 0x0db8)"

definition is_blocked_ip :: "string \<Rightarrow> bool" where
  "is_blocked_ip ip =
     (let normalized = hd (js_split (CHR ''%'') ip) in
      case guard_parse_ipv4 normalized of
        Some octets \<Rightarrow> is_blocked_ipv4 octets
      | None \<Rightarrow>
          (case guard_parse_ipv6 normalized of
             None \<Rightarrow> True
           | Some ws \<Rightarrow>
               (case mapped_ipv4 ws of
                  Some octets \<Rightarrow> is_blocked_ipv4 octets
                | None \<Rightarrow> is_blocked_words ws)))"

section \<open>URLs and hosts\<close>

definition local_host_name :: "string \<Rightarrow> bool" where
  "local_host_name h \<longleftrightarrow> h = ''localhost'' \<or> ends_with ''.localhost'' h"



definition bad_host_char :: "char \<Rightarrow> bool" where
  "bad_host_char c \<longleftrightarrow> code_unit c \<le> 32 \<or> code_unit c = 127 \<or> js_ws c"

definition label_ok :: "string \<Rightarrow> bool" where
  "label_ok l \<longleftrightarrow> 1 \<le> length l \<and> length l \<le> 63 \<and>
     list_all (\<lambda>c. is_digit c \<or> 97 \<le> code_unit c \<and> code_unit c \<le> 122 \<or> c = CHR ''-'') l \<and>
     take 1 l \<noteq> ''-'' \<and> last l \<noteq> CHR ''-''"

definition normalize_outbound_host :: "(string \<Rightarrow> string) \<Rightarrow> string \<Rightarrow> bool \<Rightarrow> guard_error + string" where
  "normalize_outbound_host to_ascii v allow_localhost =
     (if v = [] \<or> list_ex bad_host_char v then Inl (Unsafe_host ''is not a valid host'')
      else
        let bracketed = (take 1 v = ''['' \<and> last v = CHR '']'');
            candidate = (if bracketed then butlast (drop 1 v) else v) in
        if CHR ''%'' \<in> set candidate then Inl (Unsafe_host ''is not a valid host'')
        else if is_ip candidate \<noteq> 0 then Inr (js_lower candidate)
        else if bracketed \<or> list_ex (\<lambda>c. c \<in> set [CHR 0x5C, CHR ''/'', CHR ''@'', CHR ''#'', CHR ''?'', CHR '':'']) candidate
        then Inl (Unsafe_host ''is not a valid host'')
        else
          let lowered = js_lower (to_ascii candidate);
              ascii = (if lowered \<noteq> [] \<and> last lowered = CHR ''.'' then butlast lowered else lowered) in
          if ascii = [] \<or> 253 < length ascii \<or> list_ex (\<lambda>l. \<not> label_ok l) (js_split (CHR ''.'') ascii)
          then Inl (Unsafe_host ''is not a valid host'')
          else if \<not> allow_localhost \<and> local_host_name ascii
          then Inl (Unsafe_host ''must not target a private or loopback host'')
          else Inr ascii)"

section \<open>Resolution\<close>

definition normalize_dns :: "dns_entry list \<Rightarrow> dns_entry list" where
  "normalize_dns es =
     filter (\<lambda>e. dn_address e \<noteq> [] \<and> (dn_family e = 4 \<or> dn_family e = 6))
       (map (\<lambda>e. if dn_family e = 0 then e\<lparr>dn_family := is_ip (dn_address e)\<rparr> else e) es)"

definition resolve_host :: "(string \<Rightarrow> dns_answer) \<Rightarrow> bool \<Rightarrow> string \<Rightarrow> guard_error + dns_entry list" where
  "resolve_host lookup allow_private host =
     (case (if is_ip host \<noteq> 0 then Dns_addresses [\<lparr>dn_address = host, dn_family = is_ip host\<rparr>] else lookup host) of
        Dns_timeout \<Rightarrow> Inl Resolution_timeout
      | Dns_failed \<Rightarrow> Inl (Unsafe_url ''host could not be resolved'')
      | Dns_addresses es \<Rightarrow>
          let normalized = normalize_dns es in
          if normalized = [] \<or> \<not> allow_private \<and> list_ex (\<lambda>e. is_blocked_ip (dn_address e)) normalized
          then Inl (Unsafe_url ''must not target a private address'')
          else Inr normalized)"




definition resolve_trusted_outbound_host ::
    "(string \<Rightarrow> string) \<Rightarrow> (string \<Rightarrow> dns_answer) \<Rightarrow> string \<Rightarrow> guard_error + string \<times> dns_entry list" where
  "resolve_trusted_outbound_host to_ascii lookup raw =
     bind_r (normalize_outbound_host to_ascii raw True)
       (\<lambda>h. bind_r (resolve_host lookup True h) (\<lambda>es. Inr (h, es)))"

section \<open>The special-use blocks\<close>

text \<open>The registry the guard enforces, as network and prefix length.\<close>

definition special_v4 :: "(nat list \<times> nat) list" where
  "special_v4 =
     [([0, 0, 0, 0], 8), ([10, 0, 0, 0], 8), ([127, 0, 0, 0], 8), ([100, 64, 0, 0], 10), ([169, 254, 0, 0], 16),
      ([172, 16, 0, 0], 12), ([192, 168, 0, 0], 16), ([192, 0, 0, 0], 24), ([192, 0, 2, 0], 24),
      ([198, 18, 0, 0], 15), ([198, 51, 100, 0], 24), ([203, 0, 113, 0], 24), ([224, 0, 0, 0], 3)]"

definition special_v6 :: "(nat list \<times> nat) list" where
  "special_v6 =
     [([0, 0, 0, 0, 0, 0, 0, 0], 96), ([0, 0, 0, 0, 0xffff, 0, 0, 0], 96), ([0x64, 0xff9b, 1, 0, 0, 0, 0, 0], 48),
      ([0xfc00, 0, 0, 0, 0, 0, 0, 0], 7), ([0xfe80, 0, 0, 0, 0, 0, 0, 0], 10), ([0xfec0, 0, 0, 0, 0, 0, 0, 0], 10),
      ([0xff00, 0, 0, 0, 0, 0, 0, 0], 8), ([0x2001, 0x0db8, 0, 0, 0, 0, 0, 0], 32)]"

text \<open>Membership of a CIDR block: the numbers agree above the host bits.\<close>

definition digits_num :: "nat \<Rightarrow> nat list \<Rightarrow> nat" where
  "digits_num base ds = foldl (\<lambda>n d. n * base + d) 0 ds"

definition in_block :: "nat \<Rightarrow> nat \<Rightarrow> nat list \<Rightarrow> nat list \<times> nat \<Rightarrow> bool" where
  "in_block base bits ds blk \<longleftrightarrow> digits_num base ds div 2 ^ (bits - snd blk) = digits_num base (fst blk) div 2 ^ (bits - snd blk)"

definition special_ipv4 :: "nat list \<Rightarrow> bool" where
  "special_ipv4 octets \<longleftrightarrow> (\<exists>blk\<in>set special_v4. in_block 256 32 octets blk)"

lemma octet_blocks:
  fixes a b c d :: nat
  assumes "b < 256" "c < 256" "d < 256"
  shows "(16777216 * a + 65536 * b + c * 256 + d) div 16777216 = a"
    "(16777216 * a + 65536 * b + c * 256 + d) div 65536 = a * 256 + b"
    "(16777216 * a + 65536 * b + c * 256 + d) div 256 = 65536 * a + b * 256 + c"
    "(16777216 * a + 65536 * b + c * 256 + d) div 536870912 = a div 32"
    "(16777216 * a + 65536 * b + c * 256 + d) div 4194304 = a * 4 + b div 64"
    "(16777216 * a + 65536 * b + c * 256 + d) div 1048576 = a * 16 + b div 16"
    "(16777216 * a + 65536 * b + c * 256 + d) div 131072 = a * 128 + b div 2"
proof -
  have m: "b = 64 * (b div 64) + b mod 64" "b = 16 * (b div 16) + b mod 16" "b = 2 * (b div 2) + b mod 2"
    "a = 32 * (a div 32) + a mod 32" by simp_all
  have r: "b mod 64 < 64" "b mod 16 < 16" "b mod 2 < 2" "a mod 32 < 32" by simp_all
  show "(16777216 * a + 65536 * b + c * 256 + d) div 16777216 = a"
    using assms by (intro div_nat_eqI) simp_all
  show "(16777216 * a + 65536 * b + c * 256 + d) div 65536 = a * 256 + b"
    using assms by (intro div_nat_eqI) simp_all
  show "(16777216 * a + 65536 * b + c * 256 + d) div 256 = 65536 * a + b * 256 + c"
    using assms by (intro div_nat_eqI) simp_all
  show "(16777216 * a + 65536 * b + c * 256 + d) div 536870912 = a div 32"
    using assms m(4) r(4) by (intro div_nat_eqI) simp_all
  show "(16777216 * a + 65536 * b + c * 256 + d) div 4194304 = a * 4 + b div 64"
    using assms m(1) r(1) by (intro div_nat_eqI) simp_all
  show "(16777216 * a + 65536 * b + c * 256 + d) div 1048576 = a * 16 + b div 16"
    using assms m(2) r(2) by (intro div_nat_eqI) simp_all
  show "(16777216 * a + 65536 * b + c * 256 + d) div 131072 = a * 128 + b div 2"
    using assms m(3) r(3) by (intro div_nat_eqI) simp_all
qed

lemma radix_eq: "b < k \<Longrightarrow> y < k \<Longrightarrow> (a :: nat) * k + b = x * k + y \<longleftrightarrow> a = x \<and> b = y"
proof -
  assume "b < k" "y < k"
  then have "(a * k + b) div k = a" "(a * k + b) mod k = b" "(x * k + y) div k = x" "(x * k + y) mod k = y" by simp_all
  then show ?thesis by metis
qed

lemma special_ipv4_cases:
  assumes "b < 256" "c < 256" "d < 256"
  shows "special_ipv4 [a, b, c, d] \<longleftrightarrow>
    a = 0 \<or> a = 10 \<or> a = 127 \<or> a * 4 + b div 64 = 401 \<or> a * 256 + b = 43518 \<or> a * 16 + b div 16 = 2753 \<or>
    a * 256 + b = 49320 \<or> 65536 * a + b * 256 + c = 12582912 \<or> 65536 * a + b * 256 + c = 12582914 \<or>
    a * 128 + b div 2 = 25353 \<or> 65536 * a + b * 256 + c = 12989284 \<or> 65536 * a + b * 256 + c = 13303921 \<or> a div 32 = 7"
  unfolding special_ipv4_def special_v4_def
  by (simp add: in_block_def digits_num_def octet_blocks [OF assms, of a])

lemma div_eq_range: "0 < k \<Longrightarrow> (n :: nat) div k = q \<longleftrightarrow> q * k \<le> n \<and> n < q * k + k"
  by (metis add.commute div_nat_eqI dividend_less_div_times mult.commute mult_Suc_right times_div_less_eq_dividend)

lemma block_cases:
  fixes a b c :: nat
  assumes "a < 256" "b < 256" "c < 256"
  shows "a * 4 + b div 64 = 401 \<longleftrightarrow> a = 100 \<and> 64 \<le> b \<and> b \<le> 127"
    "a * 256 + b = 43518 \<longleftrightarrow> a = 169 \<and> b = 254" "a * 16 + b div 16 = 2753 \<longleftrightarrow> a = 172 \<and> 16 \<le> b \<and> b \<le> 31"
    "a * 256 + b = 49320 \<longleftrightarrow> a = 192 \<and> b = 168" "a * 128 + b div 2 = 25353 \<longleftrightarrow> a = 198 \<and> (b = 18 \<or> b = 19)"
    "a div 32 = 7 \<longleftrightarrow> 224 \<le> a"
proof -
  have "b div 64 = 1 \<longleftrightarrow> 64 \<le> b \<and> b \<le> 127" using div_eq_range [of 64 b 1] by auto
  with radix_eq [of "b div 64" 4 1 a 100] assms show "a * 4 + b div 64 = 401 \<longleftrightarrow> a = 100 \<and> 64 \<le> b \<and> b \<le> 127" by simp
  have "b div 16 = 1 \<longleftrightarrow> 16 \<le> b \<and> b \<le> 31" using div_eq_range [of 16 b 1] by auto
  with radix_eq [of "b div 16" 16 1 a 172] assms show "a * 16 + b div 16 = 2753 \<longleftrightarrow> a = 172 \<and> 16 \<le> b \<and> b \<le> 31" by simp
  have "b div 2 = 9 \<longleftrightarrow> b = 18 \<or> b = 19" using div_eq_range [of 2 b 9] by auto
  with radix_eq [of "b div 2" 128 9 a 198] assms show "a * 128 + b div 2 = 25353 \<longleftrightarrow> a = 198 \<and> (b = 18 \<or> b = 19)" by simp
  show "a * 256 + b = 43518 \<longleftrightarrow> a = 169 \<and> b = 254" using radix_eq [of b 256 254 a 169] assms by simp
  show "a * 256 + b = 49320 \<longleftrightarrow> a = 192 \<and> b = 168" using radix_eq [of b 256 168 a 192] assms by simp
  show "a div 32 = 7 \<longleftrightarrow> 224 \<le> a" using assms div_eq_range [of 32 a 7] by auto
qed

lemma block_cases3:
  assumes "b < 256" "c < 256" "y < 256" "z < (256 :: nat)"
  shows "65536 * a + b * 256 + c = (x * 256 + y) * 256 + z \<longleftrightarrow> a = x \<and> b = y \<and> c = z"
proof -
  have e: "65536 * a + b * 256 + c = (a * 256 + b) * 256 + c" by simp
  show ?thesis unfolding e radix_eq [OF assms(2,4)] radix_eq [OF assms(1,3)] by (rule conj_assoc)
qed

lemma is_blocked_ipv4_exact:
  assumes "length octets = 4" and "list_all (\<lambda>n. n \<le> 255) octets"
  shows "is_blocked_ipv4 octets \<longleftrightarrow> special_ipv4 octets"
proof -
  obtain a b c d where o: "octets = [a, b, c, d]" using length_4_cases [OF assms(1)] by blast
  have bd: "a < 256" "b < 256" "c < 256" "d < 256" using assms(2) by (simp_all add: o)
  have three: "65536 * a + b * 256 + c = 12582912 \<longleftrightarrow> a = 192 \<and> b = 0 \<and> c = 0"
    "65536 * a + b * 256 + c = 12582914 \<longleftrightarrow> a = 192 \<and> b = 0 \<and> c = 2"
    "65536 * a + b * 256 + c = 12989284 \<longleftrightarrow> a = 198 \<and> b = 51 \<and> c = 100"
    "65536 * a + b * 256 + c = 13303921 \<longleftrightarrow> a = 203 \<and> b = 0 \<and> c = 113"
  proof -
    have n: "12582912 = (192 * 256 + 0) * 256 + (0 :: nat)" "12582914 = (192 * 256 + 0) * 256 + (2 :: nat)"
      "12989284 = (198 * 256 + 51) * 256 + (100 :: nat)" "13303921 = (203 * 256 + 0) * 256 + (113 :: nat)" by simp_all
    show "65536 * a + b * 256 + c = 12582912 \<longleftrightarrow> a = 192 \<and> b = 0 \<and> c = 0"
      unfolding n by (rule block_cases3 [OF bd(2,3)]) simp_all
    show "65536 * a + b * 256 + c = 12582914 \<longleftrightarrow> a = 192 \<and> b = 0 \<and> c = 2"
      unfolding n by (rule block_cases3 [OF bd(2,3)]) simp_all
    show "65536 * a + b * 256 + c = 12989284 \<longleftrightarrow> a = 198 \<and> b = 51 \<and> c = 100"
      unfolding n by (rule block_cases3 [OF bd(2,3)]) simp_all
    show "65536 * a + b * 256 + c = 13303921 \<longleftrightarrow> a = 203 \<and> b = 0 \<and> c = 113"
      unfolding n by (rule block_cases3 [OF bd(2,3)]) simp_all
  qed
  have nth: "[a, b, c, d] ! 0 = a" "[a, b, c, d] ! 1 = b" "[a, b, c, d] ! 2 = c" by simp_all
  show ?thesis
    unfolding o special_ipv4_cases [OF bd(2-4)] block_cases [OF bd(1-3)] three is_blocked_ipv4_def Let_def nth
    by (rule refl)
qed

text \<open>The same for the eight words of an IPv6 address.\<close>

lemma digits_num_snoc: "digits_num base (ds @ [d]) = digits_num base ds * base + d"
  by (simp add: digits_num_def)

lemma digits_num_inj:
  "length ds = length es \<Longrightarrow> list_all (\<lambda>d. d < base) ds \<Longrightarrow> list_all (\<lambda>d. d < base) es \<Longrightarrow>
   digits_num base ds = digits_num base es \<longleftrightarrow> ds = es"
proof (induction ds arbitrary: es rule: rev_induct)
  case Nil
  then show ?case by simp
next
  case (snoc d ds)
  then obtain es' e where es: "es = es' @ [e]" by (cases es rule: rev_cases) auto
  with snoc.prems have b: "d < base" "e < base" by simp_all
  from snoc es show ?case by (simp add: digits_num_snoc radix_eq [OF b])
qed

lemma digits_num_div:
  "list_all (\<lambda>d. d < base) ds \<Longrightarrow> k \<le> length ds \<Longrightarrow>
   digits_num base ds div base ^ (length ds - k) = digits_num base (take k ds)"
proof (induction ds rule: rev_induct)
  case Nil
  then show ?case by (simp add: digits_num_def)
next
  case (snoc d ds)
  show ?case
  proof (cases "k = length (ds @ [d])")
    case True
    then show ?thesis by simp
  next
    case False
    with snoc.prems have k: "k \<le> length ds" "d < base" by simp_all
    then have "length (ds @ [d]) - k = Suc (length ds - k)" by simp
    with snoc k show ?thesis by (simp add: digits_num_snoc div_mult2_eq)
  qed
qed

lemma words_in_block:
  assumes "length ws = 8" and "list_all (\<lambda>w. w < 65536) ws" and "length net = 8" and "list_all (\<lambda>w. w < 65536) net"
    and "k \<le> 8"
  shows "in_block 65536 128 ws (net, 16 * k) \<longleftrightarrow> take k ws = take k net"
proof -
  have "(2::nat) ^ (128 - 16 * k) = 2 ^ (16 * (8 - k))" using assms(5) by (simp add: algebra_simps)
  then have pow: "(2::nat) ^ (128 - 16 * k) = 65536 ^ (8 - k)" by (simp add: power_mult)
  show ?thesis
    using digits_num_div [OF assms(2), of k] digits_num_div [OF assms(4), of k] assms
    by (simp add: in_block_def pow digits_num_inj list_all_length)
qed

lemma words_in_partial_block:
  assumes "length ws = 8" and "list_all (\<lambda>w. w < 65536) ws" and "length net = 8" and "list_all (\<lambda>w. w < 65536) net"
    and "p \<le> 16"
  shows "in_block 65536 128 ws (net, p) \<longleftrightarrow> ws ! 0 div 2 ^ (16 - p) = net ! 0 div 2 ^ (16 - p)"
proof -
  have "(2::nat) ^ (128 - p) = 2 ^ (16 * 7 + (16 - p))" using assms(5) by (simp add: algebra_simps)
  then have pow: "(2::nat) ^ (128 - p) = 65536 ^ 7 * 2 ^ (16 - p)" by (simp add: power_add power_mult)
  have "digits_num 65536 (take 1 xs) = xs ! 0" if "length xs = 8" for xs
    using that by (cases xs) (simp_all add: digits_num_def)
  then show ?thesis
    using digits_num_div [OF assms(2), of 1] digits_num_div [OF assms(4), of 1] assms(1,3)
    by (simp add: in_block_def pow div_mult2_eq)
qed

lemma and_high_bits:
  assumes "(w :: nat) < 65536" and "k + j = 16"
  shows "w AND push_bit k (mask j) = w div 2 ^ k * 2 ^ k"
proof -
  have "w AND push_bit k (mask j) = push_bit k (take_bit j (drop_bit k w))"
    by (rule bit_eqI) (auto simp: bit_simps)
  moreover have "drop_bit k w < 2 ^ j"
  proof -
    have "w < 2 ^ j * 2 ^ k" using assms by (simp flip: power_add add: add.commute)
    then show ?thesis by (simp add: drop_bit_eq_div less_mult_imp_div_less)
  qed
  ultimately show ?thesis by (simp add: take_bit_nat_eq_self push_bit_eq_mult drop_bit_eq_div)
qed

lemma high_masks:
  assumes "(w :: nat) < 65536"
  shows "w AND 0xfe00 = 0xfc00 \<longleftrightarrow> w div 2 ^ 9 = 0xfc00 div 2 ^ 9" "w AND 0xffc0 = 0xfe80 \<longleftrightarrow> w div 2 ^ 6 = 0xfe80 div 2 ^ 6"
    "w AND 0xffc0 = 0xfec0 \<longleftrightarrow> w div 2 ^ 6 = 0xfec0 div 2 ^ 6" "w AND 0xff00 = 0xff00 \<longleftrightarrow> w div 2 ^ 8 = 0xff00 div 2 ^ 8"
proof -
  have m: "(0xfe00 :: nat) = push_bit 9 (mask 7)" "(0xffc0 :: nat) = push_bit 6 (mask 10)" "(0xff00 :: nat) = push_bit 8 (mask 8)"
    by (simp_all add: mask_eq_exp_minus_1 push_bit_eq_mult)
  show "w AND 0xfe00 = 0xfc00 \<longleftrightarrow> w div 2 ^ 9 = 0xfc00 div 2 ^ 9"
    using and_high_bits [OF assms, of 9 7] unfolding m(1) by simp
  show "w AND 0xffc0 = 0xfe80 \<longleftrightarrow> w div 2 ^ 6 = 0xfe80 div 2 ^ 6"
    using and_high_bits [OF assms, of 6 10] unfolding m(2) by simp
  show "w AND 0xffc0 = 0xfec0 \<longleftrightarrow> w div 2 ^ 6 = 0xfec0 div 2 ^ 6"
    using and_high_bits [OF assms, of 6 10] unfolding m(2) by simp
  have "w AND 0xff00 = w div 2 ^ 8 * 2 ^ 8" using and_high_bits [OF assms, of 8 8] unfolding m(3) by simp
  then show "w AND 0xff00 = 0xff00 \<longleftrightarrow> w div 2 ^ 8 = 0xff00 div 2 ^ 8" by simp
qed

text \<open>Which IPv6 addresses are special: those of the registry, and those that carry a special IPv4
  address (IPv4-mapped, NAT64, 6to4).\<close>

definition embedded_v4 :: "nat list \<Rightarrow> nat list list" where
  "embedded_v4 ws =
     (if in_block 65536 128 ws ([0x64, 0xff9b, 0, 0, 0, 0, 0, 0], 96)
      then [[ws ! 6 div 256, ws ! 6 mod 256, ws ! 7 div 256, ws ! 7 mod 256]] else []) @
     (if in_block 65536 128 ws ([0x2002, 0, 0, 0, 0, 0, 0, 0], 16)
      then [[ws ! 1 div 256, ws ! 1 mod 256, ws ! 2 div 256, ws ! 2 mod 256]] else [])"

definition special_ipv6 :: "nat list \<Rightarrow> bool" where
  "special_ipv6 ws \<longleftrightarrow>
     (if in_block 65536 128 ws ([0, 0, 0, 0, 0, 0xffff, 0, 0], 96)
      then special_ipv4 [ws ! 6 div 256, ws ! 6 mod 256, ws ! 7 div 256, ws ! 7 mod 256]
      else (\<exists>blk\<in>set special_v6. in_block 65536 128 ws blk) \<or> (\<exists>octets\<in>set (embedded_v4 ws). special_ipv4 octets))"

lemma embedded_v4_bex:
  "(\<exists>octets\<in>set (embedded_v4 ws). P octets) \<longleftrightarrow>
     in_block 65536 128 ws ([0x64, 0xff9b, 0, 0, 0, 0, 0, 0], 96) \<and>
       P [ws ! 6 div 256, ws ! 6 mod 256, ws ! 7 div 256, ws ! 7 mod 256] \<or>
     in_block 65536 128 ws ([0x2002, 0, 0, 0, 0, 0, 0, 0], 16) \<and>
       P [ws ! 1 div 256, ws ! 1 mod 256, ws ! 2 div 256, ws ! 2 mod 256]"
  by (auto simp: embedded_v4_def)

lemma eight_words:
  assumes "length ws = 8"
  obtains a b c d e f g h where "ws = [a, b, c, d, e, f, g, h]"
  using assms by (auto simp: length_Suc_conv eval_nat_numeral)

lemma special_v6_cases:
  assumes "list_all (\<lambda>w. w < 65536) [a, b, c, d, e, f, g, h]"
  shows "(\<exists>blk\<in>set special_v6. in_block 65536 128 [a, b, c, d, e, f, g, h] blk) \<longleftrightarrow>
      a = 0 \<and> b = 0 \<and> c = 0 \<and> d = 0 \<and> e = 0 \<and> f = 0 \<or> a = 0 \<and> b = 0 \<and> c = 0 \<and> d = 0 \<and> e = 0xffff \<and> f = 0 \<or>
      a = 0x64 \<and> b = 0xff9b \<and> c = 1 \<or> a AND 0xfe00 = 0xfc00 \<or> a AND 0xffc0 = 0xfe80 \<or> a AND 0xffc0 = 0xfec0 \<or>
      a AND 0xff00 = 0xff00 \<or> a = 0x2001 \<and> b = 0x0db8"
proof -
  let ?ws = "[a, b, c, d, e, f, g, h]"
  have a: "a < 65536" using assms by simp
  note blk = words_in_block [OF _ assms, where k = 6] words_in_block [OF _ assms, where k = 3]
    words_in_block [OF _ assms, where k = 2]
  note part = words_in_partial_block [OF _ assms, where p = 7] words_in_partial_block [OF _ assms, where p = 10]
    words_in_partial_block [OF _ assms, where p = 8]
  show ?thesis
    unfolding special_v6_def high_masks [OF a] using blk part by simp
qed

lemma embedded_cases:
  assumes "list_all (\<lambda>w. w < 65536) [a, b, c, d, e, f, g, h]"
  shows "in_block 65536 128 [a, b, c, d, e, f, g, h] ([0x64, 0xff9b, 0, 0, 0, 0, 0, 0], 96) \<longleftrightarrow>
      a = 0x64 \<and> b = 0xff9b \<and> c = 0 \<and> d = 0 \<and> e = 0 \<and> f = 0"
    "in_block 65536 128 [a, b, c, d, e, f, g, h] ([0x2002, 0, 0, 0, 0, 0, 0, 0], 16) \<longleftrightarrow> a = 0x2002"
    "in_block 65536 128 [a, b, c, d, e, f, g, h] ([0, 0, 0, 0, 0, 0xffff, 0, 0], 96) \<longleftrightarrow>
      a = 0 \<and> b = 0 \<and> c = 0 \<and> d = 0 \<and> e = 0 \<and> f = 0xffff"
  using words_in_block [OF _ assms, where k = 6] words_in_block [OF _ assms, where k = 1] by simp_all

lemma octet_pair:
  fixes x y :: nat
  assumes "x < 65536" "y < 65536"
  shows "length [x div 256, x mod 256, y div 256, y mod 256] = 4"
    "list_all (\<lambda>n. n \<le> 255) [x div 256, x mod 256, y div 256, y mod 256]"
proof -
  have "x mod 256 \<le> 255" "y mod 256 \<le> 255"
    using mod_less_divisor [of 256 x] mod_less_divisor [of 256 y] by linarith+
  moreover have "x div 256 < 256" "y div 256 < 256" using assms by simp_all
  ultimately show "list_all (\<lambda>n. n \<le> 255) [x div 256, x mod 256, y div 256, y mod 256]" by simp
qed simp

lemma zeros: "replicate 4 0 = [0, 0, 0, 0 :: nat]" "replicate 6 0 = [0, 0, 0, 0, 0, 0 :: nat]"
  "replicate 7 0 = [0, 0, 0, 0, 0, 0, 0 :: nat]"
  by (simp_all add: eval_nat_numeral)

lemma disj_regroup:
  "a1 \<and> a2 \<and> a3 \<and> a4 \<and> a5 \<and> a6 \<or> d2 \<or> n \<or> d3 \<or> s \<or> a1 \<and> a2 \<and> a3 \<and> a4 \<and> a5 \<and> a6 \<and> x \<or> m1 \<or> m2 \<or> m3 \<or> m4 \<or> m5 \<longleftrightarrow>
   (a1 \<and> a2 \<and> a3 \<and> a4 \<and> a5 \<and> a6 \<or> d2 \<or> d3 \<or> m1 \<or> m2 \<or> m3 \<or> m4 \<or> m5) \<or> n \<or> s"
  by blast

lemma is_blocked_words_cases:
  "is_blocked_words [a, b, c, d, e, f, g, h] \<longleftrightarrow>
     (a = 0 \<and> b = 0 \<and> c = 0 \<and> d = 0 \<and> e = 0 \<and> f = 0 \<or> a = 0 \<and> b = 0 \<and> c = 0 \<and> d = 0 \<and> e = 0xffff \<and> f = 0 \<or>
      a = 0x64 \<and> b = 0xff9b \<and> c = 1 \<or> a AND 0xfe00 = 0xfc00 \<or> a AND 0xffc0 = 0xfe80 \<or> a AND 0xffc0 = 0xfec0 \<or>
      a AND 0xff00 = 0xff00 \<or> a = 0x2001 \<and> b = 0x0db8) \<or>
     a = 0x64 \<and> b = 0xff9b \<and> c = 0 \<and> d = 0 \<and> e = 0 \<and> f = 0 \<and> is_blocked_ipv4 [g div 256, g mod 256, h div 256, h mod 256] \<or>
     a = 0x2002 \<and> is_blocked_ipv4 [b div 256, b mod 256, c div 256, c mod 256]"
proof -
  let ?ws = "[a, b, c, d, e, f, g, h]"
  have nth: "?ws ! 0 = a" "?ws ! 1 = b" "?ws ! 2 = c" "?ws ! 4 = e" "?ws ! 5 = f" "?ws ! 6 = g" "?ws ! 7 = h" by simp_all
  have take: "take 6 ?ws = [a, b, c, d, e, f]" "take 4 ?ws = [a, b, c, d]" "take 4 (drop 2 ?ws) = [c, d, e, f]"
    "take 7 ?ws = [a, b, c, d, e, f, g]" by simp_all
  show ?thesis
    unfolding is_blocked_words_def Let_def nth take zeros list.inject simp_thms conj_assoc by (rule disj_regroup)
qed

lemma is_blocked_words_exact:
  assumes "length ws = 8" and "list_all (\<lambda>w. w < 65536) ws"
  shows "(case mapped_ipv4 ws of Some octets \<Rightarrow> is_blocked_ipv4 octets | None \<Rightarrow> is_blocked_words ws) \<longleftrightarrow> special_ipv6 ws"
proof -
  obtain a b c d e f g h where ws: "ws = [a, b, c, d, e, f, g, h]" by (rule eight_words [OF assms(1)])
  note bd = assms(2) [unfolded ws]
  have v4: "is_blocked_ipv4 [x div 256, x mod 256, y div 256, y mod 256] \<longleftrightarrow>
      special_ipv4 [x div 256, x mod 256, y div 256, y mod 256]" if "x < 65536" "y < 65536" for x y :: nat
    by (rule is_blocked_ipv4_exact [OF octet_pair [OF that]])
  have tails: "is_blocked_ipv4 [g div 256, g mod 256, h div 256, h mod 256] \<longleftrightarrow> special_ipv4 [g div 256, g mod 256, h div 256, h mod 256]"
    "is_blocked_ipv4 [b div 256, b mod 256, c div 256, c mod 256] \<longleftrightarrow> special_ipv4 [b div 256, b mod 256, c div 256, c mod 256]"
    using bd by (auto intro!: v4)
  show ?thesis
  proof (cases "a = 0 \<and> b = 0 \<and> c = 0 \<and> d = 0 \<and> e = 0 \<and> f = 0xffff")
    case True
    then have "mapped_ipv4 ws = Some [g div 256, g mod 256, h div 256, h mod 256]" by (simp add: ws mapped_ipv4_def)
    moreover have "special_ipv6 ws \<longleftrightarrow> special_ipv4 [g div 256, g mod 256, h div 256, h mod 256]"
      unfolding ws special_ipv6_def embedded_cases [OF bd] using True by simp
    ultimately show ?thesis using tails(1) by simp
  next
    case False
    then have "mapped_ipv4 ws = None" by (auto simp: ws mapped_ipv4_def)
    moreover have "special_ipv6 ws \<longleftrightarrow> (\<exists>blk\<in>set special_v6. in_block 65536 128 ws blk) \<or>
        (\<exists>octets\<in>set (embedded_v4 ws). special_ipv4 octets)"
      using False by (simp only: special_ipv6_def ws embedded_cases [OF bd] if_False)
    moreover have "(\<exists>octets\<in>set (embedded_v4 ws). special_ipv4 octets) \<longleftrightarrow>
        a = 0x64 \<and> b = 0xff9b \<and> c = 0 \<and> d = 0 \<and> e = 0 \<and> f = 0 \<and> is_blocked_ipv4 [g div 256, g mod 256, h div 256, h mod 256] \<or>
        a = 0x2002 \<and> is_blocked_ipv4 [b div 256, b mod 256, c div 256, c mod 256]"
      unfolding tails embedded_v4_bex ws embedded_cases [OF bd] by simp
    moreover have "is_blocked_words ws \<longleftrightarrow> (\<exists>blk\<in>set special_v6. in_block 65536 128 ws blk) \<or>
        a = 0x64 \<and> b = 0xff9b \<and> c = 0 \<and> d = 0 \<and> e = 0 \<and> f = 0 \<and> is_blocked_ipv4 [g div 256, g mod 256, h div 256, h mod 256] \<or>
        a = 0x2002 \<and> is_blocked_ipv4 [b div 256, b mod 256, c div 256, c mod 256]"
      unfolding ws special_v6_cases [OF bd] by (rule is_blocked_words_cases)
    ultimately show ?thesis by simp
  qed
qed

section \<open>The outbound guard holds\<close>

text \<open>A destination outside the special-use blocks.\<close>

definition public_destination :: "string \<Rightarrow> bool" where
  "public_destination ip \<longleftrightarrow>
     (let normalized = hd (js_split (CHR ''%'') ip) in
      case guard_parse_ipv4 normalized of
        Some octets \<Rightarrow> \<not> special_ipv4 octets
      | None \<Rightarrow> (case guard_parse_ipv6 normalized of Some ws \<Rightarrow> \<not> special_ipv6 ws | None \<Rightarrow> False))"

lemma guard_parse_ipv4_valid:
  "guard_parse_ipv4 s = Some octets \<Longrightarrow> length octets = 4 \<and> list_all (\<lambda>n. n \<le> 255) octets"
  by (auto simp: guard_parse_ipv4_def Let_def list_all_iff list_ex_iff not_less split: if_splits)

lemma guard_words_valid:
  "guard_words l r m = Some ws \<Longrightarrow> length ws = 8 \<and> list_all (\<lambda>w. w < 65536) ws"
proof -
  assume h: "guard_words l r m = Some ws"
  define xs where "xs = map parse_int16 (l @ replicate m ''0'' @ r)"
  from h have len: "length xs = 8" and ws: "ws = map (\<lambda>w. nat (the w)) xs"
    and ok: "\<forall>w\<in>set xs. case w of None \<Rightarrow> False | Some n \<Rightarrow> 0 \<le> n \<and> n \<le> 0xffff"
    unfolding guard_words_def Let_def xs_def [symmetric]
    by (auto simp: list_ex_iff not_less split: if_splits option.splits)
  have "nat (the w) < 65536" if "w \<in> set xs" for w
    using bspec [OF ok that] by (cases w) auto
  with len ws show ?thesis by (simp add: list_all_iff)
qed

lemma guard_parse_ipv6_valid:
  "guard_parse_ipv6 s = Some ws \<Longrightarrow> length ws = 8 \<and> list_all (\<lambda>w. w < 65536) ws"
  by (auto simp: guard_parse_ipv6_def Let_def dest: guard_words_valid split: if_splits option.splits list.splits)

lemma is_blocked_ip_iff: "is_blocked_ip ip \<longleftrightarrow> \<not> public_destination ip"
  using is_blocked_ipv4_exact guard_parse_ipv4_valid is_blocked_words_exact guard_parse_ipv6_valid
  by (auto simp: is_blocked_ip_def public_destination_def Let_def split: option.splits)

text \<open>The destination check is the registry. It blocks exactly the texts that are no address or
  whose address lies in a special-use block or carries an IPv4 address that does.\<close>

theorem is_blocked_ip_exact: "is_blocked_ip ip \<longleftrightarrow> \<not> public_destination ip"
  by (rule is_blocked_ip_iff)







section \<open>The allowlist is exact\<close>

text \<open>The printed form of an IPv4 address is read back.\<close>

definition ip_char :: "char \<Rightarrow> bool" where
  "ip_char c \<longleftrightarrow> is_digit c \<or> c = CHR ''.''"

lemma ip_char_not: "ip_char c \<Longrightarrow> c \<notin> set [CHR '':'', CHR ''/'', CHR ''%'', CHR '','', CHR '' '']"
  by (auto simp: ip_char_def is_digit_def)

definition octets_of :: "32 word \<Rightarrow> nat list" where
  "octets_of w = map (\<lambda>k. unat (drop_bit k w AND 0xff)) [24, 16, 8, 0]"

lemma int_to_ipv4_join: "int_to_ipv4 w = js_join ''.'' (map show_nat (octets_of w))"
  by (simp add: int_to_ipv4_def octets_of_def)

lemma octets_of_div: "octets_of w = [unat w div 2 ^ 24 mod 256, unat w div 2 ^ 16 mod 256, unat w div 2 ^ 8 mod 256, unat w mod 256]"
proof -
  have "unat (drop_bit k w AND 0xff) = unat w div 2 ^ k mod 256" for k
  proof -
    have "(0xff :: 32 word) = mask 8" by (simp add: mask_eq_exp_minus_1)
    then have "drop_bit k w AND 0xff = take_bit 8 (drop_bit k w)" by (simp only: take_bit_eq_mask)
    then have "unat (drop_bit k w AND 0xff) = take_bit 8 (drop_bit k (unat w))"
      by (simp only: unsigned_take_bit_eq unat_drop_bit_eq)
    then show ?thesis by (simp add: take_bit_eq_mod drop_bit_eq_div)
  qed
  then show ?thesis by (simp add: octets_of_def)
qed

lemma show_nat_ip_chars: "list_all ip_char (show_nat n)"
  using show_nat_digits [of n] by (auto simp: list_all_iff ip_char_def)

lemma int_to_ipv4_chars: "list_all ip_char (int_to_ipv4 w)"
  using show_nat_ip_chars by (simp add: int_to_ipv4_join octets_of_def ip_char_def)

lemma int_to_ipv4_parts: "js_split (CHR ''.'') (int_to_ipv4 w) = map show_nat (octets_of w)"
  unfolding int_to_ipv4_join
proof (rule js_split_join)
  show "map show_nat (octets_of w) \<noteq> []" by (simp add: octets_of_def)
  fix p assume "p \<in> set (map show_nat (octets_of w))"
  then obtain n where "p = show_nat n" by auto
  then show "CHR ''.'' \<notin> set p" using show_nat_digits [of n] digit_not_sign by (auto simp: list_all_iff)
qed

lemma int_to_ipv4_value: "allow_ipv4_to_int (int_to_ipv4 w) = Some w"
proof -
  have step: "strict_octet (Some a) (show_nat n) = Some (a * 256 + of_nat n)" if "n < 256" for a n
    using that by (simp add: strict_octet_def)
  obtain a b c d where o: "octets_of w = [a, b, c, d]" and bd: "a < 256" "b < 256" "c < 256" "d < 256"
    by (simp add: octets_of_div)
  have "allow_ipv4_to_int (int_to_ipv4 w) = Some (((of_nat a * 256 + of_nat b) * 256 + of_nat c) * 256 + of_nat d)"
    using bd by (simp add: allow_ipv4_to_int_def int_to_ipv4_parts o step)
  also have "((of_nat a * 256 + of_nat b) * 256 + of_nat c) * 256 + of_nat d = (of_nat (((a * 256 + b) * 256 + c) * 256 + d) :: 32 word)"
    by simp
  also have "((a * 256 + b) * 256 + c) * 256 + d = unat w"
  proof -
    have "unat w < 2 ^ 32" using unsigned_less [of w] by simp
    then have "a = unat w div 2 ^ 24" using o by (simp add: octets_of_div div_nat_eqI less_mult_imp_div_less)
    moreover have "b = unat w div 2 ^ 16 mod 256" "c = unat w div 2 ^ 8 mod 256" "d = unat w mod 256"
      using o by (simp_all add: octets_of_div)
    moreover have "unat w div 2 ^ 24 = unat w div 2 ^ 16 div 256" "unat w div 2 ^ 16 = unat w div 2 ^ 8 div 256"
      "unat w div 2 ^ 8 = unat w div 256" by (simp_all flip: div_mult2_eq)
    ultimately show ?thesis by (metis div_mult_mod_eq)
  qed
  finally show ?thesis by simp
qed

definition cidr_text :: "32 word \<Rightarrow> nat \<Rightarrow> string" where
  "cidr_text w p = int_to_ipv4 w @ CHR ''/'' # show_nat p"

lemma int_to_ipv4_ends:
  "is_digit (hd (int_to_ipv4 w))" "is_digit (last (int_to_ipv4 w))" "int_to_ipv4 w \<noteq> []"
  by (simp_all add: int_to_ipv4_join octets_of_def hd_append show_nat_hd_last_digit)

lemma int_to_ipv4_fresh: "c \<in> set [CHR '':'', CHR ''/'', CHR ''%'', CHR '','', CHR '' ''] \<Longrightarrow> c \<notin> set (int_to_ipv4 w)"
  using int_to_ipv4_chars [of w] ip_char_not by (auto simp only: list_all_iff)

lemma trim_ipv4: "js_trim (int_to_ipv4 w) = int_to_ipv4 w" "js_trim (cidr_text w p) = cidr_text w p"
  "js_trim (show_nat p) = show_nat p"
  using int_to_ipv4_ends [of w] show_nat_hd_last_digit [of p] show_nat_nonempty [of p]
  by (auto intro!: js_trim_id simp: cidr_text_def digit_not_ws)

lemma index_str_None: "c \<notin> set s \<Longrightarrow> c \<in> set p \<Longrightarrow> index_str p s = None"
proof (induction p s rule: index_str.induct)
  case (2 p x s)
  have "\<not> starts_with p (x # s)"
  proof
    assume "starts_with p (x # s)"
    then have "set p \<subseteq> set (x # s)" by (metis starts_with_def set_take_subset)
    with 2(2,3) show False by blast
  qed
  with 2 show ?case by simp
qed auto

lemma not_ipv6: "is_ipv6 (int_to_ipv4 w) = False"
proof -
  have "CHR ''%'' \<notin> set (int_to_ipv4 w)" "CHR '':'' \<notin> set (int_to_ipv4 w)" by (rule int_to_ipv4_fresh; simp)+
  then have z: "index_of (CHR ''%'') (int_to_ipv4 w) = None" and s: "split_str ''::'' (int_to_ipv4 w) = [int_to_ipv4 w]"
    and g: "groups_of (int_to_ipv4 w) = [int_to_ipv4 w]"
    using index_str_None [of "CHR '':''" "int_to_ipv4 w" "''::''"] int_to_ipv4_ends(3) [of w]
    by (simp_all add: index_of_None split_str.simps groups_of_def js_split_fresh)
  have "CHR ''.'' \<in> set (int_to_ipv4 w)" by (simp add: int_to_ipv4_join octets_of_def)
  moreover have "\<not> is_hex (CHR ''.'')" by code_simp
  ultimately have "\<not> ipv6_seg (int_to_ipv4 w)" by (auto simp: ipv6_seg_def list_all_iff)
  then show ?thesis by (simp add: is_ipv6_def z ipv6_body_def s g)
qed

lemma normalize_ipv4: "normalize_ip (int_to_ipv4 w) = Some (int_to_ipv4 w)"
proof -
  let ?s = "int_to_ipv4 w"
  have "CHR ''%'' \<notin> set ?s" "CHR '':'' \<notin> set ?s" by (rule int_to_ipv4_fresh; simp)+
  then have z: "index_of (CHR ''%'') ?s = None" and c: "CHR '':'' \<notin> set (drop 7 ?s)"
    by (auto simp: index_of_None dest: in_set_dropD)
  have digit: "lower_char d = d" if "is_digit d" for d
    using that by (simp add: lower_char_def is_digit_def)
  obtain d ds where s: "?s = d # ds" "is_digit d" using int_to_ipv4_ends [of w] by (cases ?s) auto
  have "js_lower (take 7 ?s) \<noteq> mapped_prefix"
    using s digit digit_not_sign [of d] by (auto simp: js_lower_def mapped_prefix_def is_digit_def)
  then show ?thesis
    using int_to_ipv4_ends(3) [of w] by (simp add: normalize_ip_def z Let_def js_split_fresh [OF c])
qed

lemma parse_entry_cidr:
  assumes "p \<le> 32"
  shows "parse_entry (cidr_text w p) = Some (Entry_v4 (w AND v4_mask (Some (int p))) (v4_mask (Some (int p))))"
proof -
  have fresh: "CHR ''/'' \<notin> set (int_to_ipv4 w)" by (rule int_to_ipv4_fresh) simp
  have "CHR ''/'' \<notin> set (show_nat p)"
    using show_nat_ip_chars [of p] ip_char_not by (auto simp: list_all_iff)
  then have split: "js_split (CHR ''/'') (cidr_text w p) = [int_to_ipv4 w, show_nat p]"
    by (simp add: cidr_text_def js_split_append [OF fresh] js_split_fresh)
  have idx: "index_of (CHR ''/'') (cidr_text w p) = Some (length (int_to_ipv4 w))"
    using fresh by (simp add: cidr_text_def index_of_Some)
  have "parse_entry_v4 (cidr_text w p) = Some (Entry_v4 (w AND v4_mask (Some (int p))) (v4_mask (Some (int p))))"
    unfolding parse_entry_v4_def idx using assms v4_mask_push [OF assms]
    by (auto simp: cidr_text_def trim_ipv4 int_to_ipv4_value Let_def v4_mask_def nat_diff_distrib')
  then show ?thesis
    by (simp add: parse_entry_def Let_def trim_ipv4 split normalize_ipv4 not_ipv6) (simp add: cidr_text_def)
qed

lemma is_allowed_v4: "is_allowed (int_to_ipv4 x) (Some es) \<longleftrightarrow> (\<exists>e\<in>set es. entry_allows_v4 x e)"
  by (simp add: is_allowed_def normalize_ipv4 not_ipv6 int_to_ipv4_value list_ex_iff)

lemma set_keep_some: "set (keep_some f xs) = {y. \<exists>x\<in>set xs. f x = Some y}"
  by (induction xs) (auto simp: keep_some_def List.map_filter_simps split: option.splits)

lemma entry_block: "entry_allows_v4 x (Entry_v4 (w AND v4_mask (Some (int p))) (v4_mask (Some (int p)))) \<longleftrightarrow> x \<in> v4_block w p"
  by (simp add: entry_allows_v4_def v4_block_def)

definition well_formed_rows :: "allow_row list \<Rightarrow> bool" where
  "well_formed_rows rows \<longleftrightarrow> (\<forall>r\<in>set rows. parse_entry (ar_cidr r) = None \<or> (\<exists>w p. p \<le> 32 \<and> ar_cidr r = cidr_text w p))"

definition row_holds :: "32 word \<Rightarrow> allow_row \<Rightarrow> bool" where
  "row_holds x r \<longleftrightarrow> (\<exists>w p. p \<le> 32 \<and> ar_cidr r = cidr_text w p \<and> x \<in> v4_block w p)"

lemma row_holds_parse:
  assumes "parse_entry (ar_cidr r) = None \<or> (\<exists>w p. p \<le> 32 \<and> ar_cidr r = cidr_text w p)"
  shows "row_holds x r \<longleftrightarrow> (\<exists>e. parse_entry (ar_cidr r) = Some e \<and> entry_allows_v4 x e)"
proof
  assume "row_holds x r"
  then obtain w p where "p \<le> 32" "ar_cidr r = cidr_text w p" "x \<in> v4_block w p" by (auto simp: row_holds_def)
  then show "\<exists>e. parse_entry (ar_cidr r) = Some e \<and> entry_allows_v4 x e"
    using parse_entry_cidr [of p w] entry_block [of x w p] by simp
next
  assume "\<exists>e. parse_entry (ar_cidr r) = Some e \<and> entry_allows_v4 x e"
  then obtain e where e: "parse_entry (ar_cidr r) = Some e" "entry_allows_v4 x e" by blast
  with assms obtain w p where wp: "p \<le> 32" "ar_cidr r = cidr_text w p" by auto
  with e parse_entry_cidr [of p w] entry_block [of x w p] have "x \<in> v4_block w p" by simp
  with wp show "row_holds x r" unfolding row_holds_def by blast
qed

lemma parsed_rows_allow:
  assumes "well_formed_rows rows"
  shows "is_allowed (int_to_ipv4 x) (Some (keep_some (\<lambda>e. parse_entry (ar_cidr e)) rows)) \<longleftrightarrow> (\<exists>r\<in>set rows. row_holds x r)"
  unfolding is_allowed_v4 set_keep_some using assms row_holds_parse [of _ x] unfolding well_formed_rows_def by blast

lemma keep_some_none: "\<forall>e\<in>set xs. f e = None \<Longrightarrow> keep_some f xs = []"
  by (induction xs) (simp_all add: keep_some_def List.map_filter_simps)

text \<open>The admin policy is exact and fails closed. With no environment override, a request from an
  IPv4 address passes exactly when the organization has no active row, or an active row's CIDR block
  holds the address; a row that cannot be parsed lets nobody in. An override without a usable entry
  lets nobody in.\<close>

theorem admin_policy_exact:
  assumes "well_formed_rows (list_active_entries tbl org)"
  shows "(enforce_admin_ip_allowlist [] tbl org (int_to_ipv4 x) = Inr () \<longleftrightarrow>
      list_active_entries tbl org = [] \<or> (\<exists>r\<in>set (list_active_entries tbl org). row_holds x r)) \<and>
    (\<forall>env ip. js_trim env \<noteq> [] \<longrightarrow> (\<forall>e\<in>set (js_split (CHR '','') (js_trim env)). parse_entry e = None) \<longrightarrow>
      enforce_admin_ip_allowlist env tbl org ip = Inl Forbidden)"
proof (intro conjI allI impI)
  show "enforce_admin_ip_allowlist [] tbl org (int_to_ipv4 x) = Inr () \<longleftrightarrow>
      list_active_entries tbl org = [] \<or> (\<exists>r\<in>set (list_active_entries tbl org). row_holds x r)"
    using parsed_rows_allow [OF assms, of x]
    by (cases "keep_some (\<lambda>e. parse_entry (ar_cidr e)) (list_active_entries tbl org)")
      (auto simp: enforce_admin_ip_allowlist_def admin_allowlist_status_def status_from_entries_def Let_def js_trim_def is_allowed_v4)
next
  fix env ip
  assume "js_trim env \<noteq> []" and bad: "\<forall>e\<in>set (js_split (CHR '','') (js_trim env)). parse_entry e = None"
  then show "enforce_admin_ip_allowlist env tbl org ip = Inl Forbidden"
    by (simp add: enforce_admin_ip_allowlist_def admin_allowlist_status_def status_from_environment_def
        parse_allowlist_def Let_def keep_some_none [OF bad])
qed

definition sample_rows :: "allow_row list" where
  "sample_rows = [\<lparr>ar_cidr = cidr_text 0x0A000000 8, ar_active = True, ar_org = Some 1, ar_live = True\<rparr>,
     \<lparr>ar_cidr = ''bogus'', ar_active = True, ar_org = Some 1, ar_live = True\<rparr>]"

theorem admin_policy_exact_witness:
  "enforce_admin_ip_allowlist [] sample_rows (Some 1) (int_to_ipv4 0x0A010203) = Inr ()"
proof -
  have bogus: "parse_entry ''bogus'' = None" by code_simp
  have cidr: "\<exists>w p. p \<le> (32 :: nat) \<and> cidr_text 0x0A000000 8 = cidr_text w p"
    by (rule exI [of _ "0x0A000000"], rule exI [of _ 8]) simp
  have wf: "well_formed_rows (list_active_entries sample_rows (Some 1))"
    using bogus cidr by (simp add: well_formed_rows_def list_active_entries_def sample_rows_def)
  have "(0x0A010203 :: 32 word) \<in> v4_block 0x0A000000 8" by (simp add: v4_block_div)
  then have "row_holds 0x0A010203 (sample_rows ! 0)"
    unfolding row_holds_def by (intro exI [of _ "0x0A000000"] exI [of _ 8]) (simp add: sample_rows_def)
  moreover have "sample_rows ! 0 \<in> set (list_active_entries sample_rows (Some 1))"
    by (simp add: list_active_entries_def sample_rows_def)
  ultimately show ?thesis using admin_policy_exact [OF wf] by blast
qed

end
