(* ===== verification/Ip_Canonical.thy ===== *)
theory Ip_Canonical
  imports Ip_Text "HOL-Library.Word"
begin

unbundle bit_operations_syntax

text \<open>
  The address texts that sessions are stored and searched by (\<open>utils/ipAddress.js\<close>): the canonical
  text of an IPv6 address and of a prefix, the list of the prefixes that contain an address, the
  test for an address an operator can assign, and the normal form two spellings of an address share.

  The host parser of a WHATWG URL in brackets, through which the code finds the canonical text, is
  \<open>format_words\<close> of the eight words; it refuses a zone. A BigInt is an \<open>int\<close>.
\<close>

section \<open>The model\<close>

definition canonical_ipv6 :: "string \<Rightarrow> string option" where
  "canonical_ipv6 value =
     (if is_ip value \<noteq> 6 \<or> CHR ''%'' \<in> set value then None
      else Some (js_lower (format_words (ipv6_words value))))"

text \<open>\<open>groups.reduce((n, g) => (n << 16n) | BigInt(parseInt(g, 16)), 0n)\<close>; \<open>BigInt(NaN)\<close> throws.\<close>

definition reduce_group :: "int option \<Rightarrow> string \<Rightarrow> int option" where
  "reduce_group n g = (case (n, parse_int16 g) of (Some a, Some b) \<Rightarrow> Some (push_bit 16 a OR b) | _ \<Rightarrow> None)"

definition ipv6_groups :: "string \<Rightarrow> string list" where
  "ipv6_groups canonical =
     (let parts = split_str ''::'' canonical; head = hd parts; tail = (case tl parts of [] \<Rightarrow> [] | t # _ \<Rightarrow> t);
          compressed = (index_str ''::'' canonical \<noteq> None);
          left = (if head = [] then [] else js_split (CHR '':'') head);
          right = (if compressed \<and> tail \<noteq> [] then js_split (CHR '':'') tail else [])
      in if compressed then left @ replicate (8 - length left - length right) ''0'' @ right else left)"

definition ipv6_to_big_int :: "string \<Rightarrow> int option" where
  "ipv6_to_big_int value =
     Option.bind (canonical_ipv6 value) (\<lambda>canonical. foldl reduce_group (Some 0) (ipv6_groups canonical))"

definition big_int_to_ipv6 :: "int \<Rightarrow> string option" where
  "big_int_to_ipv6 n =
     canonical_ipv6 (js_join '':'' (map (\<lambda>i. show_hex (nat (drop_bit (i * 16) n AND 0xffff))) [7, 6, 5, 4, 3, 2, 1, 0]))"

definition all_ones :: int where
  "all_ones = push_bit 128 1 - 1"

definition mask_of :: "nat \<Rightarrow> int" where
  "mask_of len = (if len = 0 then 0 else push_bit (128 - len) all_ones AND all_ones)"

definition network_of :: "string \<Rightarrow> nat \<Rightarrow> string option" where
  "network_of address len = Option.bind (ipv6_to_big_int address) (\<lambda>n. big_int_to_ipv6 (n AND mask_of len))"

text \<open>The match of \<open>/^(.+)\/(\d{1,3})$/\<close>: the last slash has one to three digits behind it.\<close>

definition match_prefix :: "string \<Rightarrow> (string \<times> nat) option" where
  "match_prefix s =
     (let ds = rev (takeWhile is_digit (rev s)); rest = rev (dropWhile is_digit (rev s)) in
      if ds \<noteq> [] \<and> length ds \<le> 3 \<and> 2 \<le> length rest \<and> last rest = CHR ''/''
      then Some (butlast rest, digits_val ds) else None)"

definition canonical_ipv6_prefix :: "string \<Rightarrow> string option" where
  "canonical_ipv6_prefix value =
     (case match_prefix (js_trim value) of
        None \<Rightarrow> None
      | Some (address, len) \<Rightarrow>
          if 128 < len then None
          else map_option (\<lambda>network. network @ ''/'' @ show_nat len) (network_of address len))"

definition containing_ipv6_prefixes :: "string \<Rightarrow> nat \<Rightarrow> nat \<Rightarrow> string list option" where
  "containing_ipv6_prefixes address min_length max_length =
     Option.bind (ipv6_to_big_int address) (\<lambda>n.
       those (map (\<lambda>len. map_option (\<lambda>a. a @ ''/'' @ show_nat len) (big_int_to_ipv6 (n AND mask_of len)))
         [min_length..<Suc max_length]))"

definition in_prefix :: "int \<Rightarrow> string \<Rightarrow> nat \<Rightarrow> bool" where
  "in_prefix n network len \<longleftrightarrow>
     (case ipv6_to_big_int network of None \<Rightarrow> False | Some m \<Rightarrow> n AND mask_of len = m AND mask_of len)"

definition not_a_subscriber_v6 :: "(string \<times> nat) list" where
  "not_a_subscriber_v6 = [(''2001:db8::'', 32), (''3fff::'', 20), (''2001::'', 23), (''2002::'', 16)]"

text \<open>A zone makes the URL parser throw, which the caller of the code does not expect: \<open>None\<close>.\<close>

definition is_globally_routable_ipv6 :: "string \<Rightarrow> bool option" where
  "is_globally_routable_ipv6 value =
     (if is_ip (js_trim value) \<noteq> 6 then Some False
      else map_option (\<lambda>n. in_prefix n ''2000::'' 3 \<and> \<not> list_ex (\<lambda>(network, len). in_prefix n network len) not_a_subscriber_v6)
        (ipv6_to_big_int (js_trim value)))"

text \<open>The dotted quad of \<open>/^::ffff:([0-9a-f]{1,4}):([0-9a-f]{1,4})$/\<close>.\<close>

definition mapped_quad :: "string \<Rightarrow> string option" where
  "mapped_quad canonical =
     (if \<not> starts_with ''::ffff:'' canonical then None
      else case js_split (CHR '':'') (drop 7 canonical) of
        [h, l] \<Rightarrow>
          if ipv6_seg h \<and> ipv6_seg l
          then (let hi = hex_digits_val h; lo = hex_digits_val l in
                Some (js_join ''.'' (map show_nat [hi div 256, hi mod 256, lo div 256, lo mod 256])))
          else None
      | _ \<Rightarrow> None)"

definition normalize_ip_address :: "string \<Rightarrow> string" where
  "normalize_ip_address value =
     (let trimmed = js_trim value in
      if is_ip trimmed = 4 then trimmed
      else if is_ip trimmed \<noteq> 6 then js_lower trimmed
      else case canonical_ipv6 trimmed of
        None \<Rightarrow> js_lower trimmed
      | Some canonical \<Rightarrow> (case mapped_quad canonical of None \<Rightarrow> canonical | Some quad \<Rightarrow> quad))"


section \<open>Hexadecimal groups\<close>

definition hex_group :: "string \<Rightarrow> bool" where
  "hex_group s \<longleftrightarrow> s \<noteq> [] \<and> list_all is_hex s \<and> js_lower s = s"

lemma hex_digit_char_val:
  "n < 16 \<Longrightarrow> is_hex (hex_digit_char n) \<and> hex_val (hex_digit_char n) = n \<and> lower_char (hex_digit_char n) = hex_digit_char n"
proof -
  assume "n < 16"
  then have "n \<in> {0, 1, 2, 3, 4, 5, 6, 7, 8, 9, 10, 11, 12, 13, 14, 15}" by (simp; presburger)
  then show ?thesis by (auto simp: hex_digit_char_def is_hex_def is_digit_def hex_val_def lower_char_def)
qed

lemma show_hex_group: "hex_group (show_hex n) \<and> hex_digits_val (show_hex n) = n"
proof (induction n rule: show_hex.induct)
  case (1 n)
  show ?case
  proof (cases "n < 16")
    case True
    with hex_digit_char_val [OF True] show ?thesis
      by (subst (1 2) show_hex.simps) (simp add: hex_group_def js_lower_def hex_digits_val_def)
  next
    case False
    have "n mod 16 < 16" by simp
    from hex_digit_char_val [OF this] 1 [OF False] False show ?thesis
      by (subst (1 2) show_hex.simps) (simp add: hex_group_def js_lower_def hex_digits_val_snoc)
  qed
qed

lemma show_hex_length: "n < 16 ^ k \<Longrightarrow> 0 < k \<Longrightarrow> length (show_hex n) \<le> k"
proof (induction k arbitrary: n)
  case (Suc k)
  show ?case
  proof (cases "n < 16")
    case True
    then show ?thesis by (subst show_hex.simps) simp
  next
    case False
    with Suc.prems(1) have "0 < k" by (cases k) auto
    moreover have "n div 16 < 16 ^ k" using Suc.prems(1) by (simp add: less_mult_imp_div_less mult.commute)
    ultimately show ?thesis using Suc.IH False by (subst show_hex.simps) simp
  qed
qed simp

lemma show_hex_seg: "w < 65536 \<Longrightarrow> ipv6_seg (show_hex w)"
  using show_hex_length [of w 4] show_hex_group [of w] by (simp add: ipv6_seg_def hex_group_def)

lemma hex_no_punct: "is_hex c \<Longrightarrow> c \<noteq> CHR '':'' \<and> c \<noteq> CHR ''.'' \<and> c \<noteq> CHR ''%'' \<and> c \<noteq> CHR ''/''"
  by (auto simp: is_hex_def is_digit_def)

lemma hex_group_no_colon: "hex_group s \<Longrightarrow> CHR '':'' \<notin> set s"
  using hex_no_punct by (auto simp: hex_group_def list_all_iff)

lemma group_words_hex:
  "list_all (\<lambda>w. w < 65536) ws \<Longrightarrow>
   group_words (map show_hex ws) = ws \<and> group_count v4 (map show_hex ws) = Some (length ws)"
  using show_hex_group by (induction ws) (auto simp: show_hex_seg)

section \<open>Where the double colon is\<close>

lemma index_cc_skip:
  "CHR '':'' \<notin> set p \<Longrightarrow> index_str ''::'' (p @ t) = map_option ((+) (length p)) (index_str ''::'' t)"
  by (induction p) (auto simp: starts_with_def split: option.splits, (cases "index_str ''::'' t"; simp)+)

lemma index_cc_single: "t \<noteq> [] \<Longrightarrow> hd t \<noteq> CHR '':'' \<Longrightarrow> index_str ''::'' (CHR '':'' # t) = map_option Suc (index_str ''::'' t)"
  by (cases t) (auto simp: starts_with_def)

lemma js_join_hd: "list_all hex_group ps \<Longrightarrow> ps \<noteq> [] \<Longrightarrow> js_join '':'' ps \<noteq> [] \<and> hd (js_join '':'' ps) \<noteq> CHR '':''"
  using hex_no_punct by (cases ps; cases "tl ps") (auto simp: hex_group_def neq_Nil_conv)

lemma index_cc_join:
  "list_all hex_group ps \<Longrightarrow>
   index_str ''::'' (js_join '':'' ps) = None \<and>
   index_str ''::'' (js_join '':'' ps @ ''::'' @ r) = Some (length (js_join '':'' ps))"
proof (induction ps)
  case Nil
  then show ?case by (simp add: starts_with_def)
next
  case (Cons p ps)
  then have p: "CHR '':'' \<notin> set p" by (simp add: hex_group_no_colon)
  show ?case
  proof (cases ps)
    case Nil
    with index_cc_skip [OF p, of "[]"] index_cc_skip [OF p, of "''::'' @ r"] show ?thesis
      by (simp add: starts_with_def)
  next
    case (Cons q qs)
    then have ne: "ps \<noteq> []" by simp
    have j: "js_join '':'' (p # ps) = p @ CHR '':'' # js_join '':'' ps" using ne by (simp add: js_join_Cons)
    from Cons.prems ne js_join_hd [of ps] have h: "js_join '':'' ps \<noteq> []" "hd (js_join '':'' ps) \<noteq> CHR '':''" by auto
    have IH: "index_str ''::'' (js_join '':'' ps) = None"
        "index_str ''::'' (js_join '':'' ps @ ''::'' @ r) = Some (length (js_join '':'' ps))"
      using Cons.IH Cons.prems by simp_all
    show ?thesis
      unfolding j using IH h index_cc_single [of "js_join '':'' ps"] index_cc_single [of "js_join '':'' ps @ ''::'' @ r"]
      by (simp add: index_cc_skip [OF p])
  qed
qed


section \<open>The canonical text is read back\<close>

lemma best_run_cases:
  assumes "best_run ws i b = (s, l)"
  shows "(s, l) = b \<or> (\<exists>j<length ws. s = i + j \<and> l = zero_run (drop j ws))"
  using assms
proof (induction ws arbitrary: i b)
  case (Cons w ws)
  from Cons.prems have "best_run ws (Suc i) (if snd b < zero_run (w # ws) then (i, zero_run (w # ws)) else b) = (s, l)"
    by simp
  from Cons.IH [OF this] show ?case
  proof
    assume "(s, l) = (if snd b < zero_run (w # ws) then (i, zero_run (w # ws)) else b)"
    then show ?thesis by (auto split: if_splits intro: exI [of _ 0])
  next
    assume "\<exists>j<length ws. s = Suc i + j \<and> l = zero_run (drop j ws)"
    then obtain j where "j < length ws" "s = Suc i + j" "l = zero_run (drop j ws)" by blast
    then show ?thesis by (auto intro!: exI [of _ "Suc j"])
  qed
qed simp

lemma zero_run_take: "zero_run xs \<le> length xs \<and> take (zero_run xs) xs = replicate (zero_run xs) 0"
  by (induction xs) auto

lemma best_run_zeros:
  assumes "best_run ws 0 (0, 1) = (s, l)" and "1 < l"
  shows "s + l \<le> length ws \<and> ws = take s ws @ replicate l 0 @ drop (s + l) ws"
proof -
  from best_run_cases [OF assms(1)] assms(2) have s: "s < length ws" "l = zero_run (drop s ws)" by auto
  with zero_run_take [of "drop s ws"] have l: "l \<le> length ws - s" "take l (drop s ws) = replicate l 0" by auto
  have "ws = take s ws @ take l (drop s ws) @ drop l (drop s ws)" by (simp only: append_take_drop_id)
  with l s(1) show ?thesis by (simp add: add.commute)
qed

definition ok_words :: "nat list \<Rightarrow> bool" where
  "ok_words ws \<longleftrightarrow> length ws = 8 \<and> list_all (\<lambda>w. w < 65536) ws"

abbreviation hex_text :: "nat list \<Rightarrow> string" where
  "hex_text ws \<equiv> js_join '':'' (map show_hex ws)"

lemma hex_groups [simp]: "list_all hex_group (map show_hex ws)"
  by (simp add: list_all_iff show_hex_group)

lemma hex_text_Nil: "hex_text ws = [] \<longleftrightarrow> ws = []"
  using js_join_hd [OF hex_groups, of ws] by (cases "ws = []") simp_all

lemma js_split_hex: "ws \<noteq> [] \<Longrightarrow> js_split (CHR '':'') (hex_text ws) = map show_hex ws"
  using show_hex_group hex_group_no_colon by (intro js_split_join) auto

lemma groups_of_hex: "groups_of (hex_text ws) = map show_hex ws"
  by (cases "ws = []") (simp_all add: groups_of_def hex_text_Nil js_split_hex)

lemma split_hex_text: "split_str ''::'' (hex_text ws) = [hex_text ws]"
  using index_cc_join [OF hex_groups] by (subst split_str.simps) simp

lemma split_hex_halves: "split_str ''::'' (hex_text xs @ ''::'' @ hex_text ys) = [hex_text xs, hex_text ys]"
  using index_cc_join [OF hex_groups, of xs "hex_text ys"] split_hex_text [of ys]
  by (subst split_str.simps) (simp add: numeral_2_eq_2)

text \<open>The full text of eight words, and the text with a run of zeros left out.\<close>

lemma full_text_read:
  assumes "ok_words ws"
  shows "ipv6_body (hex_text ws) \<and> ipv6_words (hex_text ws) = ws"
  using assms group_words_hex [of ws]
  by (simp add: ok_words_def ipv6_body_def ipv6_words_def split_hex_text groups_of_hex)

lemma short_text_read:
  assumes "ok_words ws" and "ws = xs @ replicate l 0 @ ys" and "1 < l"
  shows "ipv6_body (hex_text xs @ ''::'' @ hex_text ys) \<and> ipv6_words (hex_text xs @ ''::'' @ hex_text ys) = ws"
proof -
  from assms(1,2) have n: "length xs + l + length ys = 8" "list_all (\<lambda>w. w < 65536) xs" "list_all (\<lambda>w. w < 65536) ys"
    by (auto simp: ok_words_def)
  then have "8 - length xs - length ys = l" by simp
  moreover have "length xs + length ys \<le> 7" using n(1) assms(3) by simp
  ultimately show ?thesis
    using n(2,3) group_words_hex [of xs] group_words_hex [of ys] assms(2)
    by (simp only: ipv6_body_def ipv6_words_def split_hex_halves groups_of_hex list.case option.case prod.case Let_def)
qed

lemma format_cases:
  assumes "ok_words ws"
  obtains (full) "format_words ws = hex_text ws"
  | (short) xs l ys where "ws = xs @ replicate l 0 @ ys" "1 < l" "format_words ws = hex_text xs @ ''::'' @ hex_text ys"
proof -
  obtain s l where b: "best_run ws 0 (0, 1) = (s, l)" by fastforce
  show thesis
  proof (cases "l \<le> 1")
    case True
    with b full show ?thesis by (simp add: format_words_def)
  next
    case False
    with best_run_zeros [OF b] short [of "take s ws" l "drop (s + l) ws"] b show ?thesis
      by (simp add: format_words_def)
  qed
qed

lemma format_words_read:
  assumes "ok_words ws"
  shows "ipv6_body (format_words ws) \<and> ipv6_words (format_words ws) = ws"
  using assms by (rule format_cases) (use full_text_read short_text_read assms in auto)

lemma hex_text_chars: "c \<in> set (hex_text ws) \<Longrightarrow> is_hex c \<and> lower_char c = c \<or> c = CHR '':''"
proof (induction ws)
  case (Cons w ws)
  have w: "c \<in> set (show_hex w) \<Longrightarrow> is_hex c \<and> lower_char c = c" for c
    using show_hex_group [of w] map_eq_conv [of lower_char "show_hex w" id]
    by (auto simp: hex_group_def list_all_iff js_lower_def)
  show ?case
  proof (cases ws)
    case Nil
    with Cons.prems w show ?thesis by simp
  next
    case (Cons v vs)
    with Cons.prems Cons.IH w show ?thesis by (auto simp: js_join_Cons)
  qed
qed simp

lemma format_words_chars:
  assumes "ok_words ws" and "c \<in> set (format_words ws)"
  shows "is_hex c \<and> lower_char c = c \<or> c = CHR '':''"
  using assms(1) by (rule format_cases) (use assms(2) hex_text_chars in auto)


lemma colon_text_is_ipv6:
  assumes "ipv6_body s" and "\<And>c. c \<in> set s \<Longrightarrow> is_hex c \<or> c = CHR '':''"
  shows "is_ip s = 6 \<and> CHR ''%'' \<notin> set s"
proof -
  from assms(2) hex_no_punct have no: "CHR ''.'' \<notin> set s" "CHR ''%'' \<notin> set s" by fastforce+
  then have "\<not> is_ipv4 s" by (simp add: is_ipv4_def js_split_fresh)
  moreover from no(2) have "index_of (CHR ''%'') s = None" by (simp add: index_of_None)
  with assms(1) have "is_ipv6 s" by (simp add: is_ipv6_def)
  ultimately show ?thesis using no(2) by (simp add: is_ip_def)
qed

lemma js_lower_id: "(\<And>c. c \<in> set s \<Longrightarrow> lower_char c = c) \<Longrightarrow> js_lower s = s"
  by (simp add: js_lower_def map_idI)

lemma lower_colon: "lower_char (CHR '':'') = CHR '':''"
  by (simp add: lower_char_def)

lemma canonical_format: "ok_words ws \<Longrightarrow> js_lower (format_words ws) = format_words ws"
  by (intro js_lower_id) (metis format_words_chars lower_colon)

lemma canonical_ipv6_words:
  assumes "canonical_ipv6 a = Some c"
  shows "ok_words (ipv6_words a) \<and> c = format_words (ipv6_words a)"
proof -
  from assms have a: "is_ip a = 6" "CHR ''%'' \<notin> set a" and c: "c = js_lower (format_words (ipv6_words a))"
    by (auto simp: canonical_ipv6_def split: if_splits)
  from a have "is_ipv6 a" by (auto simp: is_ip_def split: if_splits)
  with a(2) have "ipv6_body a" by (simp add: is_ipv6_def index_of_None [THEN iffD2])
  from ipv6_words_valid [OF this] have "ok_words (ipv6_words a)" by (simp add: ok_words_def)
  with c canonical_format show ?thesis by simp
qed

lemma canonical_of_format:
  assumes "ok_words ws"
  shows "canonical_ipv6 (format_words ws) = Some (format_words ws)"
proof -
  have "is_ip (format_words ws) = 6 \<and> CHR ''%'' \<notin> set (format_words ws)"
    using format_words_read [OF assms] format_words_chars [OF assms] by (intro colon_text_is_ipv6) auto
  with assms show ?thesis
    by (simp add: canonical_ipv6_def format_words_read canonical_format)
qed

lemma canonical_of_full:
  assumes "ok_words ws"
  shows "canonical_ipv6 (hex_text ws) = Some (format_words ws)"
proof -
  have "is_ip (hex_text ws) = 6 \<and> CHR ''%'' \<notin> set (hex_text ws)"
    using full_text_read [OF assms] hex_text_chars by (intro colon_text_is_ipv6) auto
  with assms show ?thesis
    by (simp add: canonical_ipv6_def full_text_read canonical_format)
qed

lemma format_words_inj: "ok_words ws \<Longrightarrow> ok_words vs \<Longrightarrow> format_words ws = format_words vs \<longleftrightarrow> ws = vs"
  by (metis format_words_read)

text \<open>C30: an IPv6 address has one canonical text. The text is a fixed point, it has the words of the
  address it was made from, and two spellings have the same canonical text exactly when they are
  the same address, so comparing stored texts compares addresses.\<close>

theorem ipv6_canonical_exact:
  assumes "canonical_ipv6 a = Some c"
  shows "canonical_ipv6 c = Some c \<and> ipv6_words c = ipv6_words a \<and>
    (canonical_ipv6 b = Some c \<longleftrightarrow> canonical_ipv6 b \<noteq> None \<and> ipv6_words b = ipv6_words a)"
proof -
  note a = canonical_ipv6_words [OF assms]
  have "canonical_ipv6 b = Some c \<longleftrightarrow> canonical_ipv6 b \<noteq> None \<and> ipv6_words b = ipv6_words a"
    using a canonical_ipv6_words [of b] format_words_inj by (metis not_None_eq)
  with a canonical_of_format format_words_read show ?thesis by simp
qed

section \<open>Addresses as numbers\<close>

definition words_val :: "nat list \<Rightarrow> int" where
  "words_val ws = foldl (\<lambda>a w. a * 65536 + int w) 0 ws"

lemma push_or_add: "0 \<le> b \<Longrightarrow> b < 65536 \<Longrightarrow> push_bit 16 a OR b = a * 65536 + (b :: int)"
proof -
  assume b: "0 \<le> b" "b < 65536"
  then have "take_bit 16 b = b" by (simp add: take_bit_int_eq_self_iff)
  then have "push_bit 16 a AND b = 0"
    by (intro bit_eqI) (metis bit_0_eq bit_and_iff bit_push_bit_iff bit_take_bit_iff bot_apply bot_bool_def not_less)
  with plus_and_or [of "push_bit 16 a" b] show ?thesis by (simp add: push_bit_eq_mult)
qed

lemma takeWhile_hex: "list_all is_hex s \<Longrightarrow> takeWhile is_hex s = s"
  by (simp add: list_all_iff)

lemma parse_int16_hex: "hex_group s \<Longrightarrow> parse_int16 s = Some (int (hex_digits_val s))"
proof -
  assume s: "hex_group s"
  then obtain c r where cr: "s = c # r" by (cases s) (auto simp: hex_group_def)
  have ws: "is_hex d \<Longrightarrow> \<not> js_ws d" for d by (auto simp: is_hex_def is_digit_def js_ws_def)
  have x: "is_hex d \<Longrightarrow> d \<noteq> CHR ''x'' \<and> d \<noteq> CHR ''X'' \<and> d \<noteq> CHR ''-'' \<and> d \<noteq> CHR ''+''" for d
    by (auto simp: is_hex_def is_digit_def)
  have all: "list_all is_hex s" using s by (simp add: hex_group_def)
  from all cr have c: "is_hex c" "list_all is_hex r" by simp_all
  from c have "take 2 s \<noteq> ''0x'' \<and> take 2 s \<noteq> ''0X''" using x cr by (cases r) auto
  with c ws x cr show ?thesis by (auto simp: parse_int16_def Let_def takeWhile_hex)
qed

lemma reduce_groups:
  "list_all hex_group gs \<Longrightarrow> list_all (\<lambda>g. hex_digits_val g < 65536) gs \<Longrightarrow>
   foldl reduce_group (Some a) gs = Some (foldl (\<lambda>a w. a * 65536 + int w) a (map hex_digits_val gs))"
  by (induction gs arbitrary: a) (simp_all add: reduce_group_def parse_int16_hex push_or_add)

lemma map_val_show_hex [simp]: "map (hex_digits_val \<circ> show_hex) ws = ws"
  using show_hex_group by (simp add: map_idI)

lemma ipv6_groups_format:
  assumes "ok_words ws"
  shows "list_all hex_group (ipv6_groups (format_words ws)) \<and> map hex_digits_val (ipv6_groups (format_words ws)) = ws"
  using assms
proof (rule format_cases)
  assume f: "format_words ws = hex_text ws"
  have "ws \<noteq> []" using assms by (auto simp: ok_words_def)
  then have "ipv6_groups (hex_text ws) = map show_hex ws"
    using index_cc_join [OF hex_groups, of ws] by (simp add: ipv6_groups_def split_hex_text hex_text_Nil js_split_hex)
  then show ?thesis unfolding f by simp
next
  fix xs l ys
  assume w: "ws = xs @ replicate l 0 @ ys" "1 < l" and f: "format_words ws = hex_text xs @ ''::'' @ hex_text ys"
  have l: "8 - length xs - length ys = l" using assms w by (auto simp: ok_words_def)
  have side: "(if hex_text zs = [] then [] else js_split (CHR '':'') (hex_text zs)) = map show_hex zs"
      "(if hex_text zs \<noteq> [] then js_split (CHR '':'') (hex_text zs) else []) = map show_hex zs" for zs
    by (cases "zs = []"; simp add: hex_text_Nil js_split_hex)+
  have idx: "index_str ''::'' (hex_text xs @ ''::'' @ hex_text ys) = Some (length (hex_text xs))"
    using index_cc_join [OF hex_groups, of xs "hex_text ys"] by blast
  have zero: "hex_group ''0'' \<and> hex_digits_val ''0'' = 0" by (simp add: hex_group_def is_hex_def is_digit_def js_lower_def lower_char_def hex_digits_val_def hex_val_def)
  have "ipv6_groups (format_words ws) = map show_hex xs @ replicate l ''0'' @ map show_hex ys"
    unfolding f ipv6_groups_def split_hex_halves Let_def idx
    by (simp only: list.sel list.case option.distinct not_False_eq_True simp_thms if_True side length_map l)
  with zero w(1) show_hex_group show ?thesis by (auto simp: list_all_iff map_replicate_const)
qed

lemma ipv6_to_big_int_words:
  "ipv6_to_big_int a = Some n \<longleftrightarrow> canonical_ipv6 a \<noteq> None \<and> n = words_val (ipv6_words a)"
proof (cases "canonical_ipv6 a")
  case (Some c)
  note c = canonical_ipv6_words [OF Some]
  then have "list_all (\<lambda>w. w < 65536) (ipv6_words a)" by (simp add: ok_words_def)
  with ipv6_groups_format [of "ipv6_words a"] c reduce_groups [of "ipv6_groups c" 0]
  have "foldl reduce_group (Some 0) (ipv6_groups c) = Some (words_val (ipv6_words a))"
    by (metis (no_types, lifting) list.pred_map comp_apply list.pred_cong words_val_def)
  with Some show ?thesis by (auto simp: ipv6_to_big_int_def)
qed (simp add: ipv6_to_big_int_def)


definition words_of :: "int \<Rightarrow> nat list" where
  "words_of n = map (\<lambda>i. nat (drop_bit (i * 16) n AND 0xffff)) [7, 6, 5, 4, 3, 2, 1, 0]"

lemma words_of_div: "words_of n = map (\<lambda>i. nat (n div 65536 ^ i mod 65536)) [7, 6, 5, 4, 3, 2, 1, 0]"
proof -
  have "drop_bit (i * 16) n AND 0xffff = n div 65536 ^ i mod 65536" for i
  proof -
    have "drop_bit (i * 16) n AND 0xffff = take_bit 16 (drop_bit (i * 16) n)"
      by (simp add: take_bit_eq_mask mask_eq_exp_minus_1)
    also have "\<dots> = n div 65536 ^ i mod 65536"
      by (simp add: take_bit_eq_mod drop_bit_eq_div mult.commute [of i] power_mult)
    finally show ?thesis .
  qed
  then show ?thesis by (simp add: words_of_def)
qed

lemma ok_words_of: "ok_words (words_of n)"
  by (simp add: ok_words_def words_of_div nat_less_iff)

lemma words_val_of:
  assumes "0 \<le> n" and "n < 2 ^ 128"
  shows "words_val (words_of n) = n"
proof -
  define q where "q i = n div 65536 ^ i" for i :: nat
  have "q (Suc i) = q i div 65536" for i by (simp add: q_def zdiv_zmult2_eq mult.commute [of 65536])
  then have q: "q (Suc i) * 65536 + q i mod 65536 = q i" for i by simp
  define r where "r i = q i mod 65536" for i
  have nn: "int (nat (n div 65536 ^ i mod 65536)) = r i" for i by (simp add: q_def r_def)
  have up: "q (Suc i) * 65536 + r i = q i" for i using q [of i] by (simp only: r_def)
  have "q 8 = 0" using assms by (simp add: q_def)
  with up [of 7] have "r 7 = q 7" by simp
  moreover have "words_val (words_of n) = ((((((r 7 * 65536 + r 6) * 65536 + r 5) * 65536 + r 4) * 65536 + r 3)
      * 65536 + r 2) * 65536 + r 1) * 65536 + r 0"
    by (simp only: words_val_def words_of_div list.map foldl.simps nn) simp
  moreover have "q 7 * 65536 + r 6 = q 6" "q 6 * 65536 + r 5 = q 5" "q 5 * 65536 + r 4 = q 4" "q 4 * 65536 + r 3 = q 3"
      "q 3 * 65536 + r 2 = q 2" "q 2 * 65536 + r 1 = q 1" "q 1 * 65536 + r 0 = q 0"
    using up [of 6] up [of 5] up [of 4] up [of 3] up [of 2] up [of 1] up [of 0] by (simp_all add: eval_nat_numeral)
  ultimately have "words_val (words_of n) = q 0" by presburger
  then show ?thesis by (simp add: q_def)
qed

lemma big_int_to_ipv6_words: "big_int_to_ipv6 n = Some (format_words (words_of n))"
proof -
  have "big_int_to_ipv6 n = canonical_ipv6 (hex_text (words_of n))"
    by (simp add: big_int_to_ipv6_def words_of_def comp_def)
  with canonical_of_full [OF ok_words_of] show ?thesis by simp
qed

lemma words_val_bounds:
  assumes "ok_words ws"
  shows "0 \<le> words_val ws \<and> words_val ws < 2 ^ 128"
proof -
  have step: "0 \<le> a \<Longrightarrow> a < 65536 ^ k \<Longrightarrow> list_all (\<lambda>w. w < 65536) vs \<Longrightarrow>
      0 \<le> foldl (\<lambda>a w. a * 65536 + int w) a vs \<and> foldl (\<lambda>a w. a * 65536 + int w) a vs < 65536 ^ (k + length vs)"
    for a k vs
  proof (induction vs arbitrary: a k)
    case (Cons v vs)
    from Cons.prems have "a * 65536 + int v < 65536 ^ Suc k" by simp
    with Cons.prems Cons.IH [of "a * 65536 + int v" "Suc k"] show ?case by simp
  qed simp
  from step [of 0 0 ws] assms show ?thesis by (simp add: words_val_def ok_words_def)
qed

text \<open>Masking keeps the first \<open>len\<close> of the 128 bits.\<close>

lemma and_mask_of:
  assumes "len \<le> 128" and "0 \<le> n" and "n < 2 ^ 128"
  shows "n AND mask_of len = push_bit (128 - len) (drop_bit (128 - len) n)"
proof (cases "len = 0")
  case True
  with assms show ?thesis by (simp add: mask_of_def drop_bit_eq_div)
next
  case False
  have ones: "all_ones = mask 128" by (simp add: all_ones_def mask_eq_exp_minus_1)
  have top: "take_bit 128 n = n" using assms by (simp add: take_bit_int_eq_self_iff)
  have hi: "bit n i \<Longrightarrow> i < 128" for i by (metis bit_take_bit_iff top)
  show ?thesis
    using False assms(1)
    by (intro bit_eqI) (auto simp: mask_of_def ones bit_and_iff bit_push_bit_iff bit_mask_iff bit_drop_bit_eq dest: hi)
qed

lemma masked_bounds:
  assumes "len \<le> 128" and "0 \<le> n" and "n < 2 ^ 128"
  shows "0 \<le> n AND mask_of len \<and> n AND mask_of len < 2 ^ 128"
proof -
  have "push_bit k (drop_bit k n) \<le> n" for k
    using minus_mod_eq_div_mult [of n "2 ^ k"] assms(2)
    by (simp add: push_bit_eq_mult drop_bit_eq_div mult.commute) (metis pos_mod_sign zero_less_numeral zero_less_power minus_mod_eq_div_mult diff_ge_0_iff_ge diff_diff_eq2 add_diff_cancel_left')
  with assms show ?thesis by (auto simp: and_mask_of push_bit_eq_mult intro: le_less_trans)
qed


section \<open>Prefixes that contain an address\<close>

definition address_val :: "string \<Rightarrow> int" where
  "address_val a = words_val (ipv6_words a)"

definition prefix_text :: "int \<Rightarrow> nat \<Rightarrow> string" where
  "prefix_text n len = format_words (words_of (n AND mask_of len)) @ ''/'' @ show_nat len"

lemma prefix_text_inj:
  assumes "prefix_text m k = prefix_text n l" and "k \<le> 128" and "l \<le> 128"
    and "0 \<le> m" "m < 2 ^ 128" "0 \<le> n" "n < 2 ^ 128"
  shows "k = l \<and> m AND mask_of k = n AND mask_of k"
proof -
  have "CHR ''/'' \<notin> set (format_words (words_of x))" for x
    using format_words_chars [OF ok_words_of] hex_no_punct by fastforce
  then have s: "js_split (CHR ''/'') (prefix_text x i) = format_words (words_of (x AND mask_of i)) # js_split (CHR ''/'') (show_nat i)"
    for x i by (simp add: prefix_text_def js_split_append)
  have "CHR ''/'' \<notin> set (show_nat i)" for i
    using show_nat_digits [of i] by (auto simp: list_all_iff is_digit_def)
  with s assms(1) have kl: "k = l" and f: "format_words (words_of (m AND mask_of k)) = format_words (words_of (n AND mask_of k))"
    by (metis js_split_fresh list.inject show_nat_inj)+
  from f have "words_of (m AND mask_of k) = words_of (n AND mask_of k)"
    using format_words_inj [OF ok_words_of ok_words_of] by simp
  then have "m AND mask_of k = n AND mask_of k"
    using words_val_of masked_bounds assms by metis
  with kl show ?thesis by simp
qed

lemma those_Some: "those (map (\<lambda>x. Some (f x)) xs) = Some (map f xs)"
  by (induction xs) simp_all

lemma containing_texts:
  "containing_ipv6_prefixes a lo hi = Some ps \<Longrightarrow>
   canonical_ipv6 a \<noteq> None \<and> ps = map (prefix_text (address_val a)) [lo..<Suc hi]"
  by (auto simp: containing_ipv6_prefixes_def ipv6_to_big_int_words big_int_to_ipv6_words those_Some address_val_def
      prefix_text_def Option.bind_eq_Some_conv)

lemma canonical_prefix_text:
  assumes "canonical_ipv6_prefix p = Some q"
  shows "\<exists>a len. match_prefix (js_trim p) = Some (a, len) \<and> len \<le> 128 \<and> canonical_ipv6 a \<noteq> None \<and>
    q = prefix_text (address_val a) len"
  using assms
  by (auto simp: canonical_ipv6_prefix_def network_of_def ipv6_to_big_int_words big_int_to_ipv6_words prefix_text_def
      address_val_def Option.bind_eq_Some_conv split: option.splits prod.splits if_splits)

lemma address_val_bounds: "canonical_ipv6 a \<noteq> None \<Longrightarrow> 0 \<le> address_val a \<and> address_val a < 2 ^ 128"
  using canonical_ipv6_words [of a] words_val_bounds by (auto simp: address_val_def)

lemma and_mask_eq:
  assumes "len \<le> 128" and "0 \<le> m" "m < 2 ^ 128" "0 \<le> n" "n < 2 ^ 128"
  shows "m AND mask_of len = n AND mask_of len \<longleftrightarrow> m div 2 ^ (128 - len) = n div 2 ^ (128 - len)"
  using assms by (simp add: and_mask_of push_bit_eq_mult drop_bit_eq_div)

text \<open>A session is found by an address exactly when its prefix contains the address. Whatever text
  a NAS sent for the prefix, its stored form is in the list searched for the address just when the
  length is in the range asked for and the first \<open>len\<close> bits of the two addresses agree.\<close>

theorem containing_prefixes_exact:
  assumes "containing_ipv6_prefixes address lo hi = Some ps" and "hi \<le> 128"
    and "canonical_ipv6_prefix p = Some stored"
  shows "stored \<in> set ps \<longleftrightarrow>
    (\<exists>network len. match_prefix (js_trim p) = Some (network, len) \<and> lo \<le> len \<and> len \<le> hi \<and>
      address_val network div 2 ^ (128 - len) = address_val address div 2 ^ (128 - len))"
proof -
  obtain a len where a: "match_prefix (js_trim p) = Some (a, len)" "len \<le> 128" "canonical_ipv6 a \<noteq> None"
      "stored = prefix_text (address_val a) len"
    using canonical_prefix_text [OF assms(3)] by blast
  note ps = containing_texts [OF assms(1)]
  note bounds = address_val_bounds [OF a(3)] address_val_bounds [of address]
  have "stored \<in> set ps \<longleftrightarrow> (\<exists>l. lo \<le> l \<and> l \<le> hi \<and> prefix_text (address_val a) len = prefix_text (address_val address) l)"
    using ps a(4) by (auto simp: image_iff less_Suc_eq_le)
  also have "\<dots> \<longleftrightarrow> lo \<le> len \<and> len \<le> hi \<and> address_val a AND mask_of len = address_val address AND mask_of len"
    using prefix_text_inj [of "address_val a" len "address_val address"] bounds ps assms(2) a(2)
    by (auto simp: prefix_text_def dest: le_trans)
  finally show ?thesis using a(1,2) bounds ps by (auto simp: and_mask_eq)
qed

section \<open>Witnesses\<close>

lemma containing_total: "canonical_ipv6 a \<noteq> None \<Longrightarrow> \<exists>ps. containing_ipv6_prefixes a lo hi = Some ps"
  by (auto simp: containing_ipv6_prefixes_def big_int_to_ipv6_words those_Some ipv6_to_big_int_def
      ipv6_to_big_int_words [of a, THEN iffD2, unfolded ipv6_to_big_int_def])

lemma canonical_prefix_total:
  "match_prefix (js_trim p) = Some (a, len) \<Longrightarrow> len \<le> 128 \<Longrightarrow> canonical_ipv6 a \<noteq> None \<Longrightarrow>
   \<exists>q. canonical_ipv6_prefix p = Some q"
  by (auto simp: canonical_ipv6_prefix_def network_of_def big_int_to_ipv6_words ipv6_to_big_int_def
      ipv6_to_big_int_words [of a, THEN iffD2, unfolded ipv6_to_big_int_def])

lemmas text_eval = canonical_ipv6_def is_ip_def is_ipv4_def is_ipv6_def ipv6_body_def groups_of_def ipv6_seg_def
  is_hex_def is_digit_def split_str.simps starts_with_def ipv6_words_def hex_digits_val_def hex_val_def Let_def

lemma sample_address: "canonical_ipv6 ''::7'' \<noteq> None" "ipv6_words ''::7'' = [0, 0, 0, 0, 0, 0, 0, 7]"
  by (simp_all add: text_eval eval_nat_numeral(2,3))

lemma sample_network: "canonical_ipv6 ''::6'' \<noteq> None" "ipv6_words ''::6'' = [0, 0, 0, 0, 0, 0, 0, 6]"
    "match_prefix (js_trim ''::6/127'') = Some (''::6'', 127)"
  by (simp add: text_eval, simp add: text_eval eval_nat_numeral(2,3), code_simp)

theorem ipv6_canonical_exact_witness:
  "\<exists>c. canonical_ipv6 ''::7'' = Some c \<and> canonical_ipv6 c = Some c \<and> canonical_ipv6 ''::6'' \<noteq> Some c"
proof -
  obtain c where c: "canonical_ipv6 ''::7'' = Some c" using sample_address(1) by blast
  from ipv6_canonical_exact [OF c, of "''::6''"] c sample_address(2) sample_network(2) show ?thesis by auto
qed

theorem containing_prefixes_exact_witness:
  "\<exists>ps stored. containing_ipv6_prefixes ''::7'' 64 128 = Some ps \<and>
     canonical_ipv6_prefix ''::6/127'' = Some stored \<and> stored \<in> set ps"
proof -
  obtain ps where ps: "containing_ipv6_prefixes ''::7'' 64 128 = Some ps"
    using containing_total [OF sample_address(1)] by blast
  obtain stored where stored: "canonical_ipv6_prefix ''::6/127'' = Some stored"
    using canonical_prefix_total [OF sample_network(3) _ sample_network(1)] by auto
  have "address_val ''::6'' div 2 = address_val ''::7'' div 2"
    by (simp add: address_val_def sample_address sample_network words_val_def)
  with containing_prefixes_exact [OF ps _ stored] sample_network(3) ps stored show ?thesis by simp
qed

end
