(* ===== verification/Radius_Codec.thy ===== *)
theory Radius_Codec
  imports Ip_Text
begin

text \<open>
  The RADIUS wire format: \<open>src/src/services/radiusServerCodec.js\<close> and the attribute and packet encoders
  of \<open>src/src/services/radiusCoaEncoder.js\<close>.

  A \<open>Buffer\<close> is a list of bytes. Text that the code only carries (user names, passwords, secrets) is the
  list of its UTF-8 bytes; text that the code parses or builds is a string of code units, and
  \<open>utf8\<close> encodes it. MD5 and HMAC-MD5 come from the platform's crypto library: they are the
  parameters \<open>md5\<close> and \<open>hmac\<close> of the operations, and the lemmas hold for any functions with digests of
  sixteen bytes.
\<close>

unbundle bit_operations_syntax

section \<open>Bytes\<close>

type_synonym bytes = "8 word list"

record radius_attr =
  ra_type :: "8 word"
  ra_value :: bytes

record radius_packet =
  rp_code :: "8 word"
  rp_identifier :: "8 word"
  rp_length :: nat
  rp_authenticator :: bytes
  rp_attributes :: "radius_attr list"
  rp_raw :: bytes

datatype radius_error = Packet_too_short | Length_out_of_range | Malformed_prefix | Value_too_long | Out_of_range

datatype attr_item = Ready bytes | Raw "8 word" bytes

definition utf8_char :: "char \<Rightarrow> bytes" where
  "utf8_char c = (let n = code_unit c in
     if n < 128 then [of_nat n] else [of_nat (192 + n div 64), of_nat (128 + n mod 64)])"

definition utf8 :: "string \<Rightarrow> bytes" where
  "utf8 s = concat (map utf8_char s)"

definition be16 :: "nat \<Rightarrow> bytes" where
  "be16 n = [of_nat (n div 256), of_nat (n mod 256)]"

definition read_be16 :: "bytes \<Rightarrow> nat \<Rightarrow> nat" where
  "read_be16 b i = unat (b ! i) * 256 + unat (b ! Suc i)"

definition be32 :: "32 word \<Rightarrow> bytes" where
  "be32 w = map (\<lambda>k. ucast (drop_bit k w)) [24, 16, 8, 0]"

definition read_be32 :: "bytes \<Rightarrow> 32 word" where
  "read_be32 b = foldl (\<lambda>a x. push_bit 8 a OR ucast x) 0 (take 4 b)"

text \<open>\<open>src.copy(dst, off)\<close>, and \<open>buf.fill(0, a, b)\<close>, which throws when \<open>b\<close> is past the end.\<close>

definition copy_at :: "nat \<Rightarrow> bytes \<Rightarrow> bytes \<Rightarrow> bytes" where
  "copy_at off src dst = take off dst @ take (length dst - off) src @ drop (off + length src) dst"

definition zero_fill :: "nat \<Rightarrow> nat \<Rightarrow> bytes \<Rightarrow> radius_error + bytes" where
  "zero_fill a b buf = (if length buf < b then Inl Out_of_range else Inr (copy_at a (replicate (b - a) 0) buf))"

section \<open>Decoding\<close>

text \<open>One attribute off the front: type, length, value.\<close>

definition next_attr :: "bytes \<Rightarrow> (radius_attr \<times> bytes) option" where
  "next_attr b =
     (case b of
        ty # l # rest \<Rightarrow>
          let alen = unat l in
          if alen < 2 \<or> length b < alen then None
          else Some (\<lparr>ra_type = ty, ra_value = take (alen - 2) rest\<rparr>, drop (alen - 2) rest)
      | _ \<Rightarrow> None)"

lemma next_attr_shorter: "next_attr b = Some (a, r) \<Longrightarrow> length r < length b"
  by (auto simp: next_attr_def Let_def split: list.splits if_splits)

function decode_attrs :: "bytes \<Rightarrow> radius_attr list" where
  "decode_attrs b = (case next_attr b of None \<Rightarrow> [] | Some (a, r) \<Rightarrow> a # decode_attrs r)"
  by pat_completeness auto
termination by (relation "measure length") (auto dest: next_attr_shorter)

declare decode_attrs.simps [simp del]

definition decode_packet :: "bytes \<Rightarrow> radius_error + radius_packet" where
  "decode_packet buf =
     (if length buf < 20 then Inl Packet_too_short
      else
        let len = read_be16 buf 2 in
        if len < 20 \<or> length buf < len then Inl Length_out_of_range
        else Inr \<lparr>rp_code = buf ! 0, rp_identifier = buf ! 1, rp_length = len,
                  rp_authenticator = take 16 (drop 4 buf),
                  rp_attributes = decode_attrs (drop 20 (take len buf)), rp_raw = take len buf\<rparr>)"

definition get_attr :: "radius_attr list \<Rightarrow> 8 word \<Rightarrow> bytes option" where
  "get_attr attributes ty = map_option ra_value (find (\<lambda>a. ra_type a = ty) attributes)"

definition get_int :: "radius_attr list \<Rightarrow> 8 word \<Rightarrow> 32 word option" where
  "get_int attributes ty =
     (case get_attr attributes ty of None \<Rightarrow> None | Some v \<Rightarrow> if 4 \<le> length v then Some (read_be32 v) else None)"

definition get_ip :: "radius_attr list \<Rightarrow> 8 word \<Rightarrow> string option" where
  "get_ip attributes ty =
     (case get_attr attributes ty of
        None \<Rightarrow> None
      | Some v \<Rightarrow> if length v = 4 then Some (js_join ''.'' (map (\<lambda>b. show_nat (unat b)) v)) else None)"

section \<open>IPv6 attributes\<close>

text \<open>The dotted tail of an address becomes two groups.\<close>

definition dotted_tail :: "string \<Rightarrow> string" where
  "dotted_tail value =
     (let tail = last (js_split (CHR '':'') value) in
      if CHR ''.'' \<in> set tail then
        (case ipv4_octets tail of
           [a, b, c, d] \<Rightarrow>
             take (length value - length tail) value @ show_hex (a * 256 + b) @ '':'' @ show_hex (c * 256 + d)
         | _ \<Rightarrow> value)
      else value)"

definition ipv6_groups :: "string \<Rightarrow> string list" where
  "ipv6_groups value =
     (let parts = split_str ''::'' value;
          left = hd parts; right = (if 2 \<le> length parts then parts ! 1 else []);
          head = (if left = [] then [] else js_split (CHR '':'') left);
          tail = (if 2 \<le> length parts \<and> right \<noteq> [] then js_split (CHR '':'') right else [])
      in if 2 \<le> length parts then head @ replicate (8 - length head - length tail) ''0'' @ tail else head)"

definition group_word :: "string \<Rightarrow> nat" where
  "group_word g = (case parse_int16 (if g = [] then ''0'' else g) of None \<Rightarrow> 0 | Some n \<Rightarrow> nat n)"

definition ipv6_bytes :: "string \<Rightarrow> bytes option" where
  "ipv6_bytes address =
     (let txt = js_lower (hd (js_split (CHR ''%'') address)) in
      if is_ip txt \<noteq> 6 then None
      else let groups = ipv6_groups (dotted_tail txt) in
        if length groups \<noteq> 8 then None else Some (concat (map (\<lambda>g. be16 (group_word g)) groups)))"

text \<open>The first \<open>len\<close> bits, padded with zero bits to whole bytes.\<close>

definition prefix_body :: "nat \<Rightarrow> bytes \<Rightarrow> bytes" where
  "prefix_body len b =
     (let n = (len + 7) div 8; body = take n b in
      if len mod 8 \<noteq> 0 then body[n - 1 := body ! (n - 1) AND push_bit (8 - len mod 8) 0xFF] else body)"

definition encode_ipv6_prefix_attr :: "8 word \<Rightarrow> string \<Rightarrow> int option \<Rightarrow> bytes option" where
  "encode_ipv6_prefix_attr ty prefix prefix_length =
     (case (ipv6_bytes prefix, prefix_length) of
        (Some b, Some len) \<Rightarrow>
          if len < 0 \<or> 128 < len then None
          else let n = (nat len + 7) div 8 in
            Some ([ty, of_nat (4 + n), 0, of_nat (nat len)] @ prefix_body (nat len) b)
      | _ \<Rightarrow> None)"

definition encode_ipv6_address_attr :: "8 word \<Rightarrow> string \<Rightarrow> bytes option" where
  "encode_ipv6_address_attr ty address = map_option (\<lambda>b. [ty, 18] @ b) (ipv6_bytes address)"

definition encode_string_attr :: "8 word \<Rightarrow> bytes \<Rightarrow> bytes option" where
  "encode_string_attr ty v =
     (if v = [] \<or> 253 < length v then None else Some ([ty, of_nat (2 + length v)] @ v))"

text \<open>The longest run of zero groups, the first one of several.\<close>

function best_zeros :: "nat list \<Rightarrow> nat \<Rightarrow> nat \<times> nat \<Rightarrow> nat \<times> nat" where
  "best_zeros ws start best =
     (if ws = [] then best
      else if hd ws \<noteq> 0 then best_zeros (tl ws) (Suc start) best
      else let run = zero_run ws in
        best_zeros (drop run ws) (start + run) (if snd best < run then (start, run) else best))"
  by pat_completeness auto
termination
proof (relation "measure (\<lambda>(ws, _, _). length ws)", goal_cases)
  case 1
  show ?case by simp
next
  case (2 ws start best)
  then show ?case by (cases ws) auto
next
  case (3 ws start best run)
  then show ?case by (cases ws) auto
qed

declare best_zeros.simps [simp del]

definition compress_words :: "nat list \<Rightarrow> string" where
  "compress_words ws =
     (case best_zeros ws 0 (0, 0) of (start, len) \<Rightarrow>
        if 1 < len
        then js_join '':'' (map show_hex (take start ws)) @ ''::'' @ js_join '':'' (map show_hex (drop (start + len) ws))
        else js_join '':'' (map show_hex ws))"

definition words_of_bytes :: "bytes \<Rightarrow> nat list" where
  "words_of_bytes b = map (\<lambda>i. read_be16 b (2 * i)) [0..<length b div 2]"

definition get_ipv6_prefix :: "radius_attr list \<Rightarrow> 8 word \<Rightarrow> radius_error + string option" where
  "get_ipv6_prefix attributes ty =
     (case get_attr attributes ty of
        None \<Rightarrow> Inr None
      | Some v \<Rightarrow>
          if length v < 2 \<or> v ! 0 \<noteq> 0 then Inl Malformed_prefix
          else
            let len = unat (v ! 1) in
            if 128 < len \<or> length v \<noteq> 2 + (len + 7) div 8 then Inl Malformed_prefix
            else if len mod 8 \<noteq> 0 \<and> 2 < length v \<and> last v AND (push_bit (8 - len mod 8) 1 - 1) \<noteq> 0
            then Inl Malformed_prefix
            else Inr (Some (compress_words (words_of_bytes (copy_at 0 (drop 2 v) (replicate 16 0))) @ ''/'' @ show_nat len)))"

definition get_ipv6_address :: "radius_attr list \<Rightarrow> 8 word \<Rightarrow> radius_error + string option" where
  "get_ipv6_address attributes ty =
     (case get_attr attributes ty of
        None \<Rightarrow> Inr None
      | Some v \<Rightarrow>
          if length v \<noteq> 16 then Inr None
          else bind_r (get_ipv6_prefix [\<lparr>ra_type = 255, ra_value = [0, 128] @ v\<rparr>] 255)
            (\<lambda>r. Inr (map_option (\<lambda>s. hd (js_split (CHR ''/'') s)) r)))"

section \<open>Passwords\<close>

definition xor_bytes :: "bytes \<Rightarrow> bytes \<Rightarrow> bytes" where
  "xor_bytes a b = map2 (XOR) a b"

fun pap_decode :: "(bytes \<Rightarrow> bytes) \<Rightarrow> bytes \<Rightarrow> bytes \<Rightarrow> bytes \<Rightarrow> bytes" where
  "pap_decode md5 secret prev [] = []"
| "pap_decode md5 secret prev (c # cs) =
     xor_bytes (take 16 (c # cs)) (md5 (secret @ prev)) @ pap_decode md5 secret (take 16 (c # cs)) (drop 16 (c # cs))"

definition strip_nul :: "bytes \<Rightarrow> bytes" where
  "strip_nul b = rev (dropWhile (\<lambda>x. x = 0) (rev b))"

definition decode_pap_password :: "(bytes \<Rightarrow> bytes) \<Rightarrow> bytes \<Rightarrow> bytes \<Rightarrow> bytes \<Rightarrow> bytes option" where
  "decode_pap_password md5 enc secret authenticator =
     (if enc = [] \<or> length enc mod 16 \<noteq> 0 then None
      else Some (strip_nul (pap_decode md5 secret authenticator enc)))"

fun pap_encode :: "(bytes \<Rightarrow> bytes) \<Rightarrow> bytes \<Rightarrow> bytes \<Rightarrow> bytes \<Rightarrow> bytes" where
  "pap_encode md5 secret prev [] = []"
| "pap_encode md5 secret prev (p # ps) =
     (let c = xor_bytes (take 16 (p # ps)) (md5 (secret @ prev)) in
      c @ pap_encode md5 secret c (drop 16 (p # ps)))"

definition pad16 :: "bytes \<Rightarrow> bytes" where
  "pad16 src = src @ replicate (max 16 ((length src + 15) div 16 * 16) - length src) 0"

definition encode_pap_password :: "(bytes \<Rightarrow> bytes) \<Rightarrow> bytes \<Rightarrow> bytes \<Rightarrow> bytes \<Rightarrow> bytes" where
  "encode_pap_password md5 plaintext secret authenticator = pap_encode md5 secret authenticator (pad16 plaintext)"

definition verify_chap :: "(bytes \<Rightarrow> bytes) \<Rightarrow> bytes \<Rightarrow> bytes \<Rightarrow> bytes \<Rightarrow> bool" where
  "verify_chap md5 chap_password challenge plaintext =
     (if length chap_password < 17 then False
      else take 16 (drop 1 chap_password) = md5 ([chap_password ! 0] @ plaintext @ challenge))"

section \<open>Authenticators\<close>

abbreviation message_authenticator :: "8 word" where "message_authenticator \<equiv> 80"

text \<open>The offset of the first Message-Authenticator of eighteen bytes, from \<open>off\<close> on.\<close>

function ma_offset :: "bytes \<Rightarrow> nat \<Rightarrow> nat option" where
  "ma_offset packet off =
     (if length packet < off + 2 then None
      else let alen = unat (packet ! Suc off) in
        if alen < 2 then None
        else if packet ! off = message_authenticator \<and> alen = 18 then Some off
        else ma_offset packet (off + alen))"
  by pat_completeness auto
termination by (relation "measure (\<lambda>(p, off). length p - off)") auto

declare ma_offset.simps [simp del]

definition verify_message_authenticator ::
    "(bytes \<Rightarrow> bytes \<Rightarrow> bytes) \<Rightarrow> bytes \<Rightarrow> radius_attr list \<Rightarrow> bytes \<Rightarrow> radius_error + bool" where
  "verify_message_authenticator hmac packet attributes secret =
     (case get_attr attributes message_authenticator of
        None \<Rightarrow> Inr True
      | Some ma \<Rightarrow>
          if length ma \<noteq> 16 then Inr False
          else (case ma_offset packet 20 of
              None \<Rightarrow> Inr False
            | Some off \<Rightarrow> bind_r (zero_fill (off + 2) (off + 18) packet) (\<lambda>work. Inr (hmac secret work = ma))))"

definition sign_response ::
    "(bytes \<Rightarrow> bytes) \<Rightarrow> (bytes \<Rightarrow> bytes \<Rightarrow> bytes) \<Rightarrow> bytes \<Rightarrow> bytes \<Rightarrow> bytes \<Rightarrow> bool \<Rightarrow> radius_error + bytes" where
  "sign_response md5 hmac packet authenticator secret with_message_auth =
     (let p0 = copy_at 4 authenticator packet in
      bind_r
        (if with_message_auth then
           (case ma_offset p0 20 of
              None \<Rightarrow> Inr p0
            | Some off \<Rightarrow>
                bind_r (zero_fill (off + 2) (off + 18) p0) (\<lambda>z. Inr (copy_at (off + 2) (hmac secret z) z)))
         else Inr p0)
        (\<lambda>p1. Inr (copy_at 4 (md5 (p1 @ secret)) p1)))"

definition message_authenticator_placeholder :: bytes where
  "message_authenticator_placeholder = [message_authenticator, 18] @ replicate 16 0"

section \<open>Attribute encoders\<close>

definition encode_int_attr :: "8 word \<Rightarrow> 32 word \<Rightarrow> bytes" where
  "encode_int_attr ty v = [ty, 6] @ be32 v"

definition encode_user_name :: "bytes \<Rightarrow> bytes" where
  "encode_user_name v = [1, of_nat (2 + length v)] @ v"

text \<open>A number stored in a byte of a buffer: NaN and \<open>undefined\<close> become 0.\<close>

definition byte_of :: "int option \<Rightarrow> 8 word" where
  "byte_of n = (case n of None \<Rightarrow> 0 | Some i \<Rightarrow> of_int i)"

definition encode_framed_ip_address :: "string \<Rightarrow> bytes" where
  "encode_framed_ip_address ip =
     (let parts = map parse_int10 (js_split (CHR ''.'') ip) @ replicate 4 None in
      [8, 6] @ map byte_of (take 4 parts))"

definition encode_vsa :: "32 word \<Rightarrow> 8 word \<Rightarrow> bytes \<Rightarrow> radius_error + bytes" where
  "encode_vsa vendor_id vendor_type v =
     (if 247 < length v then Inl Value_too_long
      else Inr ([26, of_nat (8 + length v)] @ be32 vendor_id @ [vendor_type, of_nat (2 + length v)] @ v))"

definition encode_mikrotik_rate_limit :: "bytes \<Rightarrow> radius_error + bytes" where
  "encode_mikrotik_rate_limit v = encode_vsa 14988 8 v"

definition encode_mikrotik_address_list :: "bytes \<Rightarrow> radius_error + bytes" where
  "encode_mikrotik_address_list v = encode_vsa 14988 19 v"

definition encode_cisco_av_pair :: "bytes \<Rightarrow> radius_error + bytes" where
  "encode_cisco_av_pair v = encode_vsa 9 1 v"

definition encode_acct_session_id :: "bytes \<Rightarrow> radius_error + bytes" where
  "encode_acct_session_id v =
     (if 253 < length v then Inl Value_too_long else Inr ([44, of_nat (2 + length v)] @ v))"

text \<open>\<open>Number(bps) >>> 0\<close> of a decimal integer text; any other text is taken as NaN.\<close>

definition uint32_text :: "string \<Rightarrow> 32 word" where
  "uint32_text s = (let t = js_trim s in if t \<noteq> [] \<and> list_all is_digit t then of_nat (digits_val t) else 0)"

definition encode_wispr_bandwidth :: "8 word \<Rightarrow> string \<Rightarrow> radius_error + bytes" where
  "encode_wispr_bandwidth vendor_type bps = encode_vsa 14122 vendor_type (be32 (uint32_text bps))"

definition encode_item :: "attr_item \<Rightarrow> radius_error + bytes" where
  "encode_item item =
     (case item of
        Ready b \<Rightarrow> Inr b
      | Raw ty v \<Rightarrow> if 253 < length v then Inl Value_too_long else Inr ([ty, of_nat (2 + length v)] @ v))"

definition encode_attributes :: "attr_item list \<Rightarrow> radius_error + bytes" where
  "encode_attributes items = bind_r (map_r encode_item items) (\<lambda>bs. Inr (concat bs))"

definition named_encoder :: "string \<Rightarrow> (string \<Rightarrow> radius_error + bytes) option" where
  "named_encoder name = map_of
     [(''User-Name'', \<lambda>v. Inr (encode_user_name (utf8 v))),
      (''Framed-IP-Address'', \<lambda>v. Inr (encode_framed_ip_address v)),
      (''Acct-Session-Id'', \<lambda>v. encode_acct_session_id (utf8 v)),
      (''Mikrotik-Rate-Limit'', \<lambda>v. encode_mikrotik_rate_limit (utf8 v)),
      (''Mikrotik-Address-List'', \<lambda>v. encode_mikrotik_address_list (utf8 v)),
      (''Cisco-AVPair'', \<lambda>v. encode_cisco_av_pair (utf8 v)),
      (''WISPr-Bandwidth-Max-Down'', encode_wispr_bandwidth 8),
      (''WISPr-Bandwidth-Max-Up'', encode_wispr_bandwidth 7)] name"

definition encode_named_attributes :: "(string \<times> string) list \<Rightarrow> radius_error + bytes" where
  "encode_named_attributes defs =
     bind_r (map_r (\<lambda>(name, v). the (named_encoder name) v) (filter (\<lambda>d. named_encoder (fst d) \<noteq> None) defs))
       (\<lambda>bs. Inr (concat bs))"

section \<open>Packets\<close>

text \<open>\<open>writeUInt16BE\<close> throws on a length above 65535.\<close>

definition build_radius_packet :: "8 word \<Rightarrow> 8 word \<Rightarrow> bytes \<Rightarrow> bytes \<Rightarrow> radius_error + bytes" where
  "build_radius_packet code ident authenticator attributes =
     (let total = 20 + length attributes in
      if 65535 < total then Inl Out_of_range
      else Inr ([code, ident] @ be16 total @ copy_at 0 (take 16 authenticator) (replicate 16 0) @ attributes))"

definition compute_request_authenticator :: "(bytes \<Rightarrow> bytes) \<Rightarrow> bytes \<Rightarrow> bytes \<Rightarrow> radius_error + bytes" where
  "compute_request_authenticator md5 packet secret =
     bind_r (zero_fill 4 20 packet) (\<lambda>zeroed. Inr (md5 (zeroed @ secret)))"

section \<open>Attributes and packets round trip\<close>

definition encode_attr :: "radius_attr \<Rightarrow> bytes" where
  "encode_attr a = [ra_type a, of_nat (2 + length (ra_value a))] @ ra_value a"

definition attr_ok :: "radius_attr \<Rightarrow> bool" where
  "attr_ok a \<longleftrightarrow> length (ra_value a) \<le> 253"

lemma unat_byte: "n < 256 \<Longrightarrow> unat (of_nat n :: 8 word) = n"
  by (simp add: unat_of_nat)

lemma next_attr_encode:
  assumes "attr_ok a"
  shows "next_attr (encode_attr a @ r) = Some (a, r)"
proof -
  have "unat (of_nat (2 + length (ra_value a)) :: 8 word) = 2 + length (ra_value a)"
    by (rule unat_byte) (use assms in \<open>simp add: attr_ok_def\<close>)
  then show ?thesis by (simp add: next_attr_def encode_attr_def Let_def)
qed

interpretation attr_frame: framing encode_attr next_attr attr_ok decode_attrs
proof
  show "next_attr [] = None" by (simp add: next_attr_def)
qed (simp_all add: next_attr_encode decode_attrs.simps)

text \<open>Conversely, what is decoded is what the bytes say: they are the encodings of the attributes, then a
  rest in which no attribute starts.\<close>

lemma unat_byte_less: "unat (x :: 8 word) < 256"
  using unsigned_less [of x] by simp

lemma next_attr_prefix: "next_attr b = Some (a, r) \<Longrightarrow> b = encode_attr a @ r \<and> attr_ok a"
proof -
  assume "next_attr b = Some (a, r)"
  then obtain ty l rest where b: "b = ty # l # rest" "2 \<le> unat l" "unat l \<le> length rest + 2"
      and a: "a = \<lparr>ra_type = ty, ra_value = take (unat l - 2) rest\<rparr>" "r = drop (unat l - 2) rest"
    by (auto simp: next_attr_def Let_def split: list.splits if_splits)
  have "of_nat (2 + (unat l - 2)) = l" using le_add_diff_inverse [OF b(2)] by (simp only:) simp
  with a b have "encode_attr a = ty # l # take (unat l - 2) rest" by (simp add: encode_attr_def min_absorb2)
  then show ?thesis using a b unat_byte_less [of l] by (simp add: attr_ok_def)
qed

lemma decode_attrs_sound:
  "\<exists>r. b = concat (map encode_attr (decode_attrs b)) @ r \<and> next_attr r = None \<and> list_all attr_ok (decode_attrs b)"
proof (induction b rule: decode_attrs.induct)
  case (1 b)
  show ?case
  proof (cases "next_attr b")
    case None
    then show ?thesis by (subst (1 2) decode_attrs.simps) simp
  next
    case (Some p)
    obtain a r where p: "p = (a, r)" by (cases p)
    with Some next_attr_prefix have b: "b = encode_attr a @ r" "attr_ok a" by simp_all
    from 1 [OF Some] p obtain r' where
      "r = concat (map encode_attr (decode_attrs r)) @ r' \<and> next_attr r' = None \<and> list_all attr_ok (decode_attrs r)"
      by blast
    moreover have "decode_attrs b = a # decode_attrs r"
      using Some p by (subst decode_attrs.simps) simp
    ultimately show ?thesis using b by (intro exI [of _ r']) simp
  qed
qed

lemma read_be16_encode: "n < 65536 \<Longrightarrow> read_be16 (xs @ be16 n @ ys) (length xs) = n"
  by (simp add: read_be16_def be16_def nth_append unat_byte less_mult_imp_div_less)

lemma encode_raw_items:
  assumes "list_all attr_ok as"
  shows "encode_attributes (map (\<lambda>a. Raw (ra_type a) (ra_value a)) as) = Inr (concat (map encode_attr as))"
proof -
  have "map_r encode_item (map (\<lambda>a. Raw (ra_type a) (ra_value a)) as) = Inr (map encode_attr as)"
    using assms by (induction as) (simp_all add: encode_item_def attr_ok_def encode_attr_def)
  then show ?thesis by (simp add: encode_attributes_def)
qed

lemma build_decode:
  assumes "length auth = 16" and "list_all attr_ok as" and "20 + length (concat (map encode_attr as)) \<le> 65535"
  shows "\<exists>p. build_radius_packet code ident auth (concat (map encode_attr as)) = Inr p \<and>
    decode_packet (p @ rest) =
      Inr \<lparr>rp_code = code, rp_identifier = ident, rp_length = length p, rp_authenticator = auth,
           rp_attributes = as, rp_raw = p\<rparr>"
proof -
  let ?body = "concat (map encode_attr as)"
  let ?n = "20 + length ?body"
  let ?p = "[code, ident] @ be16 ?n @ auth @ ?body"
  have built: "build_radius_packet code ident auth ?body = Inr ?p"
    using assms by (simp add: build_radius_packet_def Let_def copy_at_def)
  have len: "length ?p = ?n" using assms(1) by (simp add: be16_def)
  have "read_be16 ([code, ident] @ be16 ?n @ (auth @ ?body @ rest)) (length [code, ident]) = ?n"
    by (rule read_be16_encode) (use assms(3) in simp)
  then have n: "read_be16 (?p @ rest) 2 = ?n" by (simp add: numeral_2_eq_2)
  have "drop 20 ?p = ?body" using assms(1) by (simp add: be16_def)
  moreover have "take 16 (drop 4 (?p @ rest)) = auth" using assms(1) by (simp add: be16_def)
  moreover have "take ?n (?p @ rest) = ?p" using len by (metis append_eq_conv_conj)
  ultimately have "decode_packet (?p @ rest) = Inr \<lparr>rp_code = code, rp_identifier = ident, rp_length = length ?p,
      rp_authenticator = auth, rp_attributes = as, rp_raw = ?p\<rparr>"
    unfolding decode_packet_def Let_def n using len attr_frame.loop_received [OF assms(2)]
    by (simp add: nth_append)
  with built show ?thesis by blast
qed

text \<open>C28: an attribute list goes through the wire unchanged. Encoding attributes of at most 253 bytes and
  building a packet of at most 65535 bytes succeeds, and the decoder reads back the code, the
  identifier, the authenticator and exactly those attributes, whatever follows the packet in the
  datagram. Conversely, whatever a datagram holds, the attributes that are decoded are encoded, in
  order, at the start of its attribute area.\<close>

theorem packet_roundtrip:
  assumes "length auth = 16" and "list_all attr_ok as" and "20 + length (concat (map encode_attr as)) \<le> 65535"
  shows "(\<exists>body p. encode_attributes (map (\<lambda>a. Raw (ra_type a) (ra_value a)) as) = Inr body \<and>
      build_radius_packet code ident auth body = Inr p \<and>
      decode_packet (p @ rest) = Inr \<lparr>rp_code = code, rp_identifier = ident, rp_length = length p,
        rp_authenticator = auth, rp_attributes = as, rp_raw = p\<rparr>) \<and>
    (\<forall>buf pkt. decode_packet buf = Inr pkt \<longrightarrow>
      (\<exists>junk. drop 20 (rp_raw pkt) = concat (map encode_attr (rp_attributes pkt)) @ junk \<and> next_attr junk = None) \<and>
      rp_raw pkt = take (rp_length pkt) buf \<and> list_all attr_ok (rp_attributes pkt))"
proof (intro conjI allI impI)
  show "\<exists>body p. encode_attributes (map (\<lambda>a. Raw (ra_type a) (ra_value a)) as) = Inr body \<and>
      build_radius_packet code ident auth body = Inr p \<and>
      decode_packet (p @ rest) = Inr \<lparr>rp_code = code, rp_identifier = ident, rp_length = length p,
        rp_authenticator = auth, rp_attributes = as, rp_raw = p\<rparr>"
    using build_decode [OF assms] encode_raw_items [OF assms(2)] by blast
next
  fix buf pkt
  assume "decode_packet buf = Inr pkt"
  then have pkt: "rp_raw pkt = take (rp_length pkt) buf" "rp_attributes pkt = decode_attrs (drop 20 (rp_raw pkt))"
    by (auto simp: decode_packet_def Let_def split: if_splits)
  from decode_attrs_sound [of "drop 20 (rp_raw pkt)"] pkt(2)
  show "\<exists>junk. drop 20 (rp_raw pkt) = concat (map encode_attr (rp_attributes pkt)) @ junk \<and> next_attr junk = None"
    and "list_all attr_ok (rp_attributes pkt)" by auto
  show "rp_raw pkt = take (rp_length pkt) buf" by (rule pkt(1))
qed

definition sample_attrs :: "radius_attr list" where
  "sample_attrs = [\<lparr>ra_type = 1, ra_value = utf8 ''ana''\<rparr>, \<lparr>ra_type = 8, ra_value = [10, 0, 0, 1]\<rparr>]"

lemma sample_attrs_ok: "list_all attr_ok sample_attrs"
  by (simp add: sample_attrs_def attr_ok_def utf8_def utf8_char_def Let_def)

lemma sample_attrs_length: "length (concat (map encode_attr sample_attrs)) = 11"
  by (simp add: sample_attrs_def encode_attr_def utf8_def utf8_char_def Let_def)

theorem packet_roundtrip_witness:
  "\<exists>body p. encode_attributes (map (\<lambda>a. Raw (ra_type a) (ra_value a)) sample_attrs) = Inr body \<and>
      build_radius_packet 1 7 (replicate 16 5) body = Inr p \<and> length p = 31 \<and>
      decode_packet (p @ [0, 0]) = Inr \<lparr>rp_code = 1, rp_identifier = 7, rp_length = length p,
        rp_authenticator = replicate 16 5, rp_attributes = sample_attrs, rp_raw = p\<rparr>"
proof -
  have sizes: "length (replicate 16 5 :: bytes) = 16"
      "20 + length (concat (map encode_attr sample_attrs)) \<le> 65535"
    by (simp_all add: sample_attrs_length)
  have body: "encode_attributes (map (\<lambda>a. Raw (ra_type a) (ra_value a)) sample_attrs) =
      Inr (concat (map encode_attr sample_attrs))"
    by (rule encode_raw_items [OF sample_attrs_ok])
  from conjunct1 [OF packet_roundtrip [OF sizes(1) sample_attrs_ok sizes(2), of 1 7 "[0, 0]"]] obtain p where
    p: "build_radius_packet 1 7 (replicate 16 5) (concat (map encode_attr sample_attrs)) = Inr p"
      "decode_packet (p @ [0, 0]) = Inr \<lparr>rp_code = 1, rp_identifier = 7, rp_length = length p,
        rp_authenticator = replicate 16 5, rp_attributes = sample_attrs, rp_raw = p\<rparr>"
    unfolding body by auto
  from p(1) have "length p = 31"
    by (auto simp: build_radius_packet_def Let_def sample_attrs_length be16_def copy_at_def)
  with p body show ?thesis by blast
qed

section \<open>Passwords round trip\<close>

lemma length_xor_bytes [simp]: "length (xor_bytes a b) = min (length a) (length b)"
  by (simp add: xor_bytes_def)

lemma xor_bytes_twice: "length a = length k \<Longrightarrow> xor_bytes (xor_bytes a k) k = a"
  by (simp add: xor_bytes_def list_eq_iff_nth_eq xor.assoc)

lemma pap_decode_block:
  "length c = 16 \<Longrightarrow> pap_decode md5 secret prev (c @ cs) =
    xor_bytes c (md5 (secret @ prev)) @ pap_decode md5 secret c cs"
  by (cases c) auto

lemma pap_blocks:
  assumes digest: "\<And>x. length (md5 x) = 16" and "length p mod 16 = 0"
  shows "pap_decode md5 secret prev (pap_encode md5 secret prev p) = p \<and>
    length (pap_encode md5 secret prev p) = length p"
  using assms(2)
proof (induction p arbitrary: prev rule: length_induct)
  case (1 p)
  show ?case
  proof (cases p)
    case (Cons x xs)
    have long: "16 \<le> length p"
    proof (rule ccontr)
      assume "\<not> 16 \<le> length p"
      then have "length p mod 16 = length p" by simp
      with 1(2) Cons show False by simp
    qed
    define c where "c = xor_bytes (take 16 p) (md5 (secret @ prev))"
    have c: "length c = 16" using long by (simp add: c_def digest)
    have enc: "pap_encode md5 secret prev p = c @ pap_encode md5 secret c (drop 16 p)"
      by (simp add: Cons c_def Let_def)
    have "length (drop 16 p) mod 16 = 0" "length (drop 16 p) < length p"
      using 1(2) long by (simp_all add: le_mod_geq)
    from 1(1) [rule_format, OF this(2) this(1), of c]
    have ih: "pap_decode md5 secret c (pap_encode md5 secret c (drop 16 p)) = drop 16 p"
        "length (pap_encode md5 secret c (drop 16 p)) = length (drop 16 p)"
      by (rule conjunct1, rule conjunct2)
    have "xor_bytes c (md5 (secret @ prev)) = take 16 p"
      unfolding c_def by (rule xor_bytes_twice) (use long digest in simp)
    with ih c long show ?thesis by (simp add: enc pap_decode_block)
  qed simp
qed

lemma length_pad16: "length (pad16 src) = max 16 ((length src + 15) div 16 * 16)"
  using div_times_less_eq_dividend [of "length src + 15" 16] by (simp add: pad16_def)

lemma dropWhile_zeros: "dropWhile (\<lambda>x. x = 0) (replicate n 0 @ xs) = dropWhile (\<lambda>x. x = 0) xs"
  by (induction n) simp_all

lemma strip_nul_pad:
  assumes "p = [] \<or> last p \<noteq> 0"
  shows "strip_nul (p @ replicate n 0) = p"
proof -
  have "dropWhile (\<lambda>x. x = 0) (rev p) = rev p"
    using assms by (cases p rule: rev_cases) auto
  then show ?thesis by (simp add: strip_nul_def dropWhile_zeros)
qed

lemma pap_password_decodes:
  assumes "\<And>x. length (md5 x) = 16" and "p = [] \<or> last p \<noteq> 0"
  shows "decode_pap_password md5 (encode_pap_password md5 p secret auth) secret auth = Some p"
proof -
  have padded: "length (pad16 p) mod 16 = 0" "pad16 p \<noteq> []"
    unfolding length_pad16 by (simp add: max_def) (use length_pad16 [of p] in auto)
  note blocks = pap_blocks [of md5, OF assms(1) padded(1), where secret = secret and prev = auth]
  then have "encode_pap_password md5 p secret auth \<noteq> []" using padded(2) by (auto simp: encode_pap_password_def)
  then show ?thesis
    using blocks padded(1) strip_nul_pad [OF assms(2)]
    by (simp add: decode_pap_password_def encode_pap_password_def) (simp add: pad16_def)
qed

text \<open>A PAP password survives its encryption. Whatever MD5 computes, as long as it computes sixteen
  bytes: for every secret and authenticator, the decoder recovers a password that does not end in a
  NUL byte, of any length; the encryption is never empty, always a multiple of sixteen bytes, and the
  decoder refuses every other length.\<close>

theorem pap_roundtrip:
  assumes "\<forall>x. length (md5 x) = 16" and "p = [] \<or> last p \<noteq> 0"
  shows "decode_pap_password md5 (encode_pap_password md5 p secret auth) secret auth = Some p \<and>
    16 \<le> length (encode_pap_password md5 p secret auth) \<and>
    length (encode_pap_password md5 p secret auth) mod 16 = 0 \<and>
    (\<forall>enc. decode_pap_password md5 enc secret auth = None \<longleftrightarrow> length enc < 16 \<or> length enc mod 16 \<noteq> 0)"
proof (intro conjI allI)
  have digest: "length (md5 x) = 16" for x using assms(1) by simp
  show "decode_pap_password md5 (encode_pap_password md5 p secret auth) secret auth = Some p"
    by (rule pap_password_decodes [OF digest assms(2)])
  have "length (pad16 p) mod 16 = 0" unfolding length_pad16 by (simp add: max_def)
  then show "16 \<le> length (encode_pap_password md5 p secret auth)"
    and "length (encode_pap_password md5 p secret auth) mod 16 = 0"
    using pap_blocks [OF digest, of "pad16 p"] length_pad16 [of p] by (simp_all add: encode_pap_password_def)
  fix enc :: bytes
  show "decode_pap_password md5 enc secret auth = None \<longleftrightarrow> length enc < 16 \<or> length enc mod 16 \<noteq> 0"
    by (cases "enc = []") (auto simp: decode_pap_password_def dest: dvd_imp_le)
qed

theorem pap_roundtrip_witness:
  "decode_pap_password (\<lambda>x. replicate 16 (of_nat (length x)))
     (encode_pap_password (\<lambda>x. replicate 16 (of_nat (length x))) (utf8 ''secret word, twenty'') (utf8 ''s'') (replicate 16 9))
     (utf8 ''s'') (replicate 16 9) = Some (utf8 ''secret word, twenty'')"
proof -
  have "last (utf8 ''secret word, twenty'') \<noteq> 0" by (simp add: utf8_def utf8_char_def Let_def)
  then show ?thesis
    using pap_roundtrip [of "\<lambda>x. replicate 16 (of_nat (length x))" "utf8 ''secret word, twenty''" "utf8 ''s''" "replicate 16 9"]
    by simp
qed

section \<open>Signed replies\<close>

lemma copy_at_middle: "length b = length src \<Longrightarrow> copy_at (length a) src (a @ b @ c) = a @ src @ c"
  by (simp add: copy_at_def)

lemma zero_fill_middle:
  "length a = i \<Longrightarrow> i + length b = j \<Longrightarrow> zero_fill i j (a @ b @ c) = Inr (a @ replicate (length b) 0 @ c)"
  using copy_at_middle [of b "replicate (length b) 0" a c] by (auto simp: zero_fill_def)

text \<open>A reply whose first attribute is a Message-Authenticator: header, authenticator, attribute, rest.\<close>

definition reply_bytes :: "bytes \<Rightarrow> bytes \<Rightarrow> bytes \<Rightarrow> bytes \<Rightarrow> bytes" where
  "reply_bytes h auth mac rest = h @ auth @ [message_authenticator, 18] @ mac @ rest"

lemma reply_ma_offset:
  assumes "length h = 4" and "length auth = 16" and "length mac = 16"
  shows "ma_offset (reply_bytes h auth mac rest) 20 = Some 20"
  using assms by (subst ma_offset.simps) (simp add: reply_bytes_def nth_append Let_def)

lemma reply_copy_auth:
  assumes "length h = 4" and "length auth = 16" and "length auth' = 16"
  shows "copy_at 4 auth' (reply_bytes h auth mac rest) = reply_bytes h auth' mac rest"
  using copy_at_middle [of auth auth' h] assms by (simp add: reply_bytes_def)

lemma reply_copy_mac:
  assumes "length h = 4" and "length auth = 16" and "length mac = 16" and "length mac' = 16"
  shows "copy_at 22 mac' (reply_bytes h auth mac rest) = reply_bytes h auth mac' rest"
  using copy_at_middle [of mac mac' "h @ auth @ [message_authenticator, 18]" rest] assms by (simp add: reply_bytes_def)

lemma reply_zero_mac:
  assumes "length h = 4" and "length auth = 16" and "length mac = 16"
  shows "zero_fill 22 38 (reply_bytes h auth mac rest) = Inr (reply_bytes h auth (replicate 16 0) rest)"
  using zero_fill_middle [of "h @ auth @ [message_authenticator, 18]" 22 mac 38 rest] assms by (simp add: reply_bytes_def)

lemmas reply_layout = reply_ma_offset reply_copy_auth reply_copy_mac reply_zero_mac

lemma sign_reply:
  fixes rest secret :: bytes
  assumes "length h = 4" and "length a0 = 16" and "length auth = 16" and "\<And>x. length (md5 x) = 16" and "\<And>k x. length (hmac k x) = 16"
  defines "mac \<equiv> hmac secret (reply_bytes h auth (replicate 16 0) rest)"
  shows "sign_response md5 hmac (reply_bytes h a0 (replicate 16 0) rest) auth secret True =
    Inr (reply_bytes h (md5 (reply_bytes h auth mac rest @ secret)) mac rest)"
proof -
  have mac: "length mac = 16" by (simp add: mac_def assms(5))
  show ?thesis
    unfolding sign_response_def Let_def
    using assms(1-4) mac by (simp add: reply_layout mac_def [symmetric])
qed

lemma verify_reply:
  assumes "length h = 4" and "length auth = 16" and "length mac = 16"
  shows "verify_message_authenticator hmac (reply_bytes h auth mac rest) (\<lparr>ra_type = message_authenticator, ra_value = mac\<rparr> # as) secret =
    Inr (hmac secret (reply_bytes h auth (replicate 16 0) rest) = mac)"
  using assms by (simp add: verify_message_authenticator_def get_attr_def reply_layout)

text \<open>The packet a reply starts from: the placeholder first, then the attributes.\<close>

lemma build_reply:
  assumes "20 + length (message_authenticator_placeholder @ attrs) \<le> 65535"
  shows "\<exists>h. length h = 4 \<and>
    build_radius_packet code ident (replicate 16 0) (message_authenticator_placeholder @ attrs) =
      Inr (reply_bytes h (replicate 16 0) (replicate 16 0) attrs) \<and>
    h = [code, ident] @ be16 (38 + length attrs)"
  using assms
  by (simp add: build_radius_packet_def Let_def reply_bytes_def message_authenticator_placeholder_def copy_at_def be16_def)

lemma decode_reply:
  assumes "length auth = 16" and "length mac = 16" and "38 + length attrs \<le> 65535"
  shows "decode_packet (reply_bytes ([code, ident] @ be16 (38 + length attrs)) auth mac attrs) =
    Inr \<lparr>rp_code = code, rp_identifier = ident, rp_length = 38 + length attrs, rp_authenticator = auth,
         rp_attributes = \<lparr>ra_type = message_authenticator, ra_value = mac\<rparr> # decode_attrs attrs,
         rp_raw = reply_bytes ([code, ident] @ be16 (38 + length attrs)) auth mac attrs\<rparr>"
proof -
  let ?n = "38 + length attrs"
  let ?p = "reply_bytes ([code, ident] @ be16 ?n) auth mac attrs"
  have len: "length ?p = ?n" using assms by (simp add: reply_bytes_def be16_def)
  have "read_be16 ([code, ident] @ be16 ?n @ (auth @ [message_authenticator, 18] @ mac @ attrs)) (length [code, ident]) = ?n"
    by (rule read_be16_encode) (use assms(3) in simp)
  then have n: "read_be16 ?p 2 = ?n" by (simp add: reply_bytes_def numeral_2_eq_2)
  have attr: "encode_attr \<lparr>ra_type = message_authenticator, ra_value = mac\<rparr> = [message_authenticator, 18] @ mac"
    using assms(2) by (simp add: encode_attr_def)
  have "decode_attrs (drop 20 ?p) = \<lparr>ra_type = message_authenticator, ra_value = mac\<rparr> # decode_attrs attrs"
    using attr_frame.loop_frames [of "[\<lparr>ra_type = message_authenticator, ra_value = mac\<rparr>]" attrs] assms attr
    by (simp add: reply_bytes_def be16_def attr_ok_def)
  moreover have "take 16 (drop 4 ?p) = auth" "?p ! 0 = code" "?p ! Suc 0 = ident"
    using assms(1) by (simp_all add: reply_bytes_def be16_def)
  ultimately show ?thesis unfolding decode_packet_def Let_def n using len by simp
qed

lemma signed_reply:
  assumes "\<forall>x. length (md5 x) = 16" and "\<forall>k x. length (hmac k x) = 16" and "length auth = 16"
    and "38 + length attrs \<le> 65535"
  shows "\<exists>p q mac. build_radius_packet code ident (replicate 16 0) (message_authenticator_placeholder @ attrs) = Inr p \<and>
    sign_response md5 hmac p auth secret True = Inr q \<and> length q = length p \<and> length mac = 16 \<and>
    decode_packet q = Inr \<lparr>rp_code = code, rp_identifier = ident, rp_length = length p,
      rp_authenticator = md5 (copy_at 4 auth q @ secret),
      rp_attributes = \<lparr>ra_type = message_authenticator, ra_value = mac\<rparr> # decode_attrs attrs, rp_raw = q\<rparr> \<and>
    (\<forall>other. verify_message_authenticator hmac (copy_at 4 auth q)
        (\<lparr>ra_type = message_authenticator, ra_value = mac\<rparr> # decode_attrs attrs) other =
      Inr (hmac other (copy_at 4 auth p) = hmac secret (copy_at 4 auth p)))"
proof -
  let ?h = "[code, ident] @ be16 (38 + length attrs)"
  let ?p = "reply_bytes ?h (replicate 16 0) (replicate 16 0) attrs"
  let ?signed = "reply_bytes ?h auth (replicate 16 0) attrs"
  define mac where "mac = hmac secret ?signed"
  let ?q = "reply_bytes ?h (md5 (reply_bytes ?h auth mac attrs @ secret)) mac attrs"
  have h: "length ?h = 4" and mac: "length mac = 16" using assms(2) by (simp_all add: be16_def mac_def)
  have md5: "length (md5 x) = 16" for x using assms(1) by simp
  have "build_radius_packet code ident (replicate 16 0) (message_authenticator_placeholder @ attrs) = Inr ?p"
    using build_reply [of attrs code ident] assms(4) by (simp add: message_authenticator_placeholder_def)
  moreover have "sign_response md5 hmac ?p auth secret True = Inr ?q"
    unfolding mac_def by (rule sign_reply) (use h assms in simp_all)
  moreover have q: "copy_at 4 auth ?q = reply_bytes ?h auth mac attrs" "copy_at 4 auth ?p = ?signed"
    using h md5 assms(3) by (simp_all only: reply_copy_auth length_replicate)
  moreover have "verify_message_authenticator hmac (copy_at 4 auth ?q)
      (\<lparr>ra_type = message_authenticator, ra_value = mac\<rparr> # decode_attrs attrs) other = Inr (hmac other ?signed = mac)" for other
    unfolding q by (rule verify_reply [OF h assms(3) mac])
  moreover have "length ?q = length ?p" "length ?p = 38 + length attrs"
    using mac md5 by (simp_all add: reply_bytes_def be16_def)
  ultimately show ?thesis
    using decode_reply [OF md5 mac assms(4), of code ident "reply_bytes ?h auth mac attrs @ secret"] mac
    by (intro exI [of _ ?p] exI [of _ ?q] exI [of _ mac]) (simp add: mac_def)
qed

text \<open>What the server signs, its client can check. For any hash functions with digests of sixteen
  bytes: a reply whose first attribute is the Message-Authenticator placeholder is signed without
  error, keeps its code, identifier and attributes, carries as authenticator the digest of the reply
  under the request's authenticator, and its Message-Authenticator verifies, once the request's
  authenticator is back in place, under the same secret; a client with another secret accepts it
  exactly when the two secrets give the same keyed digest.\<close>

theorem signed_reply_verifies:
  assumes "\<forall>x. length (md5 x) = 16" and "\<forall>k x. length (hmac k x) = 16" and "length auth = 16"
    and "38 + length attrs \<le> 65535"
  shows "\<exists>p q mac. build_radius_packet code ident (replicate 16 0) (message_authenticator_placeholder @ attrs) = Inr p \<and>
    sign_response md5 hmac p auth secret True = Inr q \<and> length q = length p \<and> length mac = 16 \<and>
    decode_packet q = Inr \<lparr>rp_code = code, rp_identifier = ident, rp_length = length p,
      rp_authenticator = md5 (copy_at 4 auth q @ secret),
      rp_attributes = \<lparr>ra_type = message_authenticator, ra_value = mac\<rparr> # decode_attrs attrs, rp_raw = q\<rparr> \<and>
    (\<forall>other. verify_message_authenticator hmac (copy_at 4 auth q)
        (\<lparr>ra_type = message_authenticator, ra_value = mac\<rparr> # decode_attrs attrs) other =
      Inr (hmac other (copy_at 4 auth p) = hmac secret (copy_at 4 auth p)))"
  by (rule signed_reply [OF assms])

theorem signed_reply_verifies_witness:
  "\<exists>p q. build_radius_packet 3 9 (replicate 16 0) (message_authenticator_placeholder @ [18, 4, 78, 79]) = Inr p \<and>
    sign_response (\<lambda>x. replicate 16 (of_nat (length x))) (\<lambda>k x. replicate 16 (of_nat (length k + length x))) p
      (replicate 16 5) (utf8 ''shared'') True = Inr q \<and> length q = length p"
  using signed_reply_verifies [of "\<lambda>x. replicate 16 (of_nat (length x))" "\<lambda>k x. replicate 16 (of_nat (length k + length x))"
      "replicate 16 5" "[18, 4, 78, 79]" 3 9 "utf8 ''shared''"]
  by force

text \<open>On a packet the decoder accepted, the search for the Message-Authenticator stays inside the packet.\<close>

lemma next_attr_at:
  "next_attr (drop off p) = Some (a, r) \<Longrightarrow>
   off + 2 \<le> length p \<and> ra_type a = p ! off \<and> unat (p ! Suc off) = length (ra_value a) + 2 \<and>
   off + unat (p ! Suc off) \<le> length p \<and> r = drop (off + unat (p ! Suc off)) p"
proof -
  assume "next_attr (drop off p) = Some (a, r)"
  then obtain ty l rest where d: "drop off p = ty # l # rest" "2 \<le> unat l" "unat l \<le> length rest + 2"
      and a: "a = \<lparr>ra_type = ty, ra_value = take (unat l - 2) rest\<rparr>" "r = drop (unat l - 2) rest"
    by (auto simp: next_attr_def Let_def split: list.splits if_splits)
  have "length (drop off p) = 2 + length rest" by (simp only: d(1)) simp
  then have len: "length p = off + 2 + length rest" by simp
  have "p ! off = ty" "p ! Suc off = l"
    using nth_drop [of off p 0] nth_drop [of off p 1] len d(1) by simp_all
  moreover have "drop (unat l - 2) rest = drop (off + unat l) p"
    using arg_cong [OF d(1), of "drop (unat l)"] d(2) by (simp add: drop_Cons' add.commute numeral_2_eq_2)
  ultimately show ?thesis using d(2,3) a len by simp
qed

lemma ma_offset_inside:
  "get_attr (decode_attrs (drop off p)) message_authenticator = Some ma \<Longrightarrow> length ma = 16 \<Longrightarrow>
   \<exists>i. ma_offset p off = Some i \<and> i + 18 \<le> length p"
proof (induction p off rule: ma_offset.induct)
  case (1 p off)
  from 1(2) obtain a r where n: "next_attr (drop off p) = Some (a, r)"
    by (subst (asm) decode_attrs.simps) (auto simp: get_attr_def split: option.splits)
  note at = next_attr_at [OF n]
  show ?case
  proof (cases "ra_type a = message_authenticator")
    case True
    then have "ma = ra_value a" using 1(2) n by (subst (asm) decode_attrs.simps) (simp add: get_attr_def)
    with True at 1(3) show ?thesis by (subst ma_offset.simps) (simp add: Let_def)
  next
    case False
    then have "get_attr (decode_attrs r) message_authenticator = Some ma"
      using 1(2) n by (subst (asm) decode_attrs.simps) (simp add: get_attr_def)
    with False at 1(1) [OF _ refl] 1(3) have "\<exists>i. ma_offset p (off + unat (p ! Suc off)) = Some i \<and> i + 18 \<le> length p" by simp
    with False at show ?thesis by (subst ma_offset.simps) (simp add: Let_def)
  qed
qed

lemma verify_decoded_returns:
  assumes "decode_packet buf = Inr pkt"
  shows "\<exists>b. verify_message_authenticator hmac (rp_raw pkt) (rp_attributes pkt) secret = Inr b"
proof -
  have pkt: "rp_attributes pkt = decode_attrs (drop 20 (rp_raw pkt))"
    using assms by (auto simp: decode_packet_def Let_def split: if_splits)
  show ?thesis
  proof (cases "get_attr (rp_attributes pkt) message_authenticator")
    case (Some ma)
    show ?thesis
    proof (cases "length ma = 16")
      case True
      with ma_offset_inside [of 20 "rp_raw pkt" ma] Some pkt obtain i where
        "ma_offset (rp_raw pkt) 20 = Some i" "i + 18 \<le> length (rp_raw pkt)" by auto
      with Some True show ?thesis by (simp add: verify_message_authenticator_def zero_fill_def)
    qed (intro exI [of _ False], simp add: Some verify_message_authenticator_def)
  qed (intro exI [of _ True], simp add: verify_message_authenticator_def)
qed

section \<open>User names\<close>

text \<open>The encoders of text attributes keep their text apart from what follows, all but one. An
  Acct-Session-Id that is encoded is decoded to its text, whatever follows, and one longer than 253
  bytes is refused. A User-Name is not checked: its length byte wraps, so a name of 256 bytes that
  spells attributes is decoded as an empty name followed by those attributes.\<close>

theorem user_name_injects:
  assumes "encode_acct_session_id v = Inr b" and "list_all attr_ok as" and "length (concat (map encode_attr as)) = 256"
  shows "decode_attrs (b @ rest) = \<lparr>ra_type = 44, ra_value = v\<rparr> # decode_attrs rest \<and>
    decode_attrs (encode_user_name (concat (map encode_attr as)) @ rest) = \<lparr>ra_type = 1, ra_value = []\<rparr> # as @ decode_attrs rest"
proof
  let ?a = "\<lparr>ra_type = 44, ra_value = v\<rparr>"
  have "b = encode_attr ?a" "attr_ok ?a"
    using assms(1) by (auto simp: encode_acct_session_id_def encode_attr_def attr_ok_def split: if_splits)
  then show "decode_attrs (b @ rest) = ?a # decode_attrs rest"
    using attr_frame.loop_frames [of "[?a]" rest] by simp
  let ?e = "\<lparr>ra_type = 1, ra_value = []\<rparr>"
  have "encode_user_name (concat (map encode_attr as)) = encode_attr ?e @ concat (map encode_attr as)"
    unfolding encode_user_name_def assms(3) by (simp add: encode_attr_def)
  then show "decode_attrs (encode_user_name (concat (map encode_attr as)) @ rest) = ?e # as @ decode_attrs rest"
    using attr_frame.loop_frames [of "?e # as" rest] assms(2) by (simp add: attr_ok_def)
qed

definition injected :: "radius_attr list" where
  "injected = [\<lparr>ra_type = 8, ra_value = [10, 0, 0, 1]\<rparr>, \<lparr>ra_type = 18, ra_value = replicate 248 65\<rparr>]"

theorem user_name_injects_witness:
  "decode_attrs (encode_user_name (concat (map encode_attr injected)) @ []) =
     \<lparr>ra_type = 1, ra_value = []\<rparr> # injected @ decode_attrs []"
proof -
  have "list_all attr_ok injected" "length (concat (map encode_attr injected)) = 256"
    by (simp_all add: injected_def attr_ok_def encode_attr_def)
  then show ?thesis
    using user_name_injects [of "[]" "[44, 2]" injected "[]"] by (simp add: encode_acct_session_id_def)
qed

end
