(* ===== verification/Radius_Server.thy ===== *)
theory Radius_Server
  imports Radius_Codec
begin

text \<open>
  The embedded RADIUS server: \<open>src/src/services/radiusServerService.js\<close>, with the plan attributes of
  \<open>src/src/services/radiusAttributeService.js\<close>, the speed window in force
  (\<open>getActiveWindow\<close> and \<open>windowEffectivePlan\<close> of \<open>src/src/services/speedWindowService.js\<close>) and the
  resolution of a NAS by address (\<open>src/src/services/tenantNasResolverService.js\<close>).

  The tables are lists of rows, one set for the primary database and one for each organization whose
  database is isolated. Columns of other tables that a query joins are fields of the row it joins
  them to. \<open>radius_env\<close> holds what the code takes from outside: the hash functions, the
  configuration, the clock and the collation of the user name column.
\<close>

section \<open>Data\<close>

datatype radius_attr_name =
    User_name | User_password | Chap_password | Nas_ip_address | Nas_port | Service_type | Framed_protocol
  | Framed_ip_address | Framed_pool | Reply_message | Vendor_specific | Called_station_id | Calling_station_id
  | Session_timeout | Acct_status_type | Acct_delay_time | Acct_input_octets | Acct_output_octets
  | Acct_session_id | Acct_session_time | Acct_input_packets | Acct_output_packets | Acct_terminate_cause
  | Acct_input_gigawords | Acct_output_gigawords | Event_timestamp | Chap_challenge | Nas_port_id
  | Framed_ipv6_prefix | Framed_ipv6_pool | Delegated_ipv6_prefix | Framed_ipv6_address
  | Delegated_ipv6_prefix_pool | Message_authenticator

datatype radius_code = Access_request | Access_accept | Access_reject | Accounting_request | Accounting_response

datatype acct_status = Acct_start | Acct_stop | Acct_interim | Acct_on | Acct_off

datatype vendor = Mikrotik | Cisco | Juniper

datatype attr_text = One string | Many "string list"

datatype line_status = Line_pending | Line_active | Line_other

record plan_row =
  pl_id :: nat
  pl_org :: "nat option"
  pl_down :: nat
  pl_up :: nat
  pl_burst_down :: "nat option"
  pl_burst_up :: "nat option"
  pl_burst_threshold :: "nat option"
  pl_burst_time :: "nat option"
  pl_vendor :: "vendor option"
  pl_priority :: "nat option"
  pl_fup_down :: "nat option"
  pl_fup_up :: "nat option"

record window_row =
  sw_id :: nat
  sw_plan :: nat
  sw_org :: "nat option"
  sw_active :: bool
  sw_live :: bool
  sw_day_mask :: nat
  sw_start :: nat
  sw_end :: nat
  sw_priority :: nat
  sw_down :: nat
  sw_up :: nat

record line_contract =
  lc_id :: nat
  lc_status :: line_status
  lc_plan :: "nat option"
  lc_soft_down :: "nat option"
  lc_soft_up :: "nat option"
  lc_fup_month :: "nat option"
  lc_cleanup_pending :: bool
  lc_test_expires :: "int option"
  lc_walled_list :: "string option"

record radius_row =
  rr_id :: nat
  rr_org :: "nat option"
  rr_contract :: "nat option"
  rr_username :: bytes
  rr_password :: bytes
  rr_ip :: "string option"
  rr_ipv6 :: "string option"
  rr_ipv6_delegated :: "string option"
  rr_ipv6_prefix_len :: "nat option"
  rr_ipv6_pool :: "string option"
  rr_active :: bool
  rr_live :: bool

record nas_row =
  na_id :: nat
  na_org :: "nat option"
  na_ip :: string
  na_secret :: bytes
  na_require_ma :: bool
  na_active :: bool
  na_live :: bool

record radius_db =
  db_nas :: "nas_row list"
  db_radius :: "radius_row list"
  db_contracts :: "line_contract list"
  db_plans :: "plan_row list"
  db_windows :: "window_row list"

text \<open>The primary database, and the databases of the isolated organizations.\<close>

record deployment =
  dp_primary :: radius_db
  dp_isolated :: "(nat \<times> radius_db) list"

record nas_descriptor =
  nd_id :: nat
  nd_org :: nat
  nd_ip :: string
  nd_isolated :: bool

text \<open>A subscriber row as the query returns it.\<close>

record subscriber =
  su_row :: radius_row
  su_contract :: "line_contract option"
  su_fup_active :: bool
  su_test_seconds :: "int option"

record radius_env =
  en_md5 :: "bytes \<Rightarrow> bytes"
  en_hmac :: "bytes \<Rightarrow> bytes \<Rightarrow> bytes"
  en_global_secret :: bytes
  en_name_eq :: "bytes \<Rightarrow> bytes \<Rightarrow> bool"
  en_slice :: "nat \<Rightarrow> bytes \<Rightarrow> bytes"
  en_now :: int
  en_month :: nat
  en_weekday :: nat
  en_time :: nat

datatype auth_reason = Accepted | Missing_username | Unknown_or_inactive_user | Password_not_configured
  | Unsupported_auth_method | Bad_password

text \<open>What accounting hands to the session store: the text and number attributes by name, the framed IPv4
  address, the NAS address, the IPv6 prefix, delegated prefix and address, and the NAS.\<close>

datatype acct_request =
    Subscriber_acct acct_status "(radius_attr_name \<times> bytes option) list" "(radius_attr_name \<times> 32 word option) list"
      "string option" string "string option" "string option" "string option" nas_row
  | Infrastructure_acct acct_status nas_row

record auth_log =
  al_org :: "nat option"
  al_nas :: nat
  al_username :: bytes
  al_accepted :: bool
  al_nas_ip :: string
  al_calling :: "bytes option"
  al_reason :: auth_reason

record radius_counters =
  ct_auth_requests :: nat
  ct_accepts :: nat
  ct_rejects :: nat
  ct_auth_dropped :: nat
  ct_acct_requests :: nat
  ct_acct_ingested :: nat
  ct_acct_dropped :: nat
  ct_no_message_auth :: nat
  ct_post_auth_skipped :: nat

fun attr_code :: "radius_attr_name \<Rightarrow> 8 word" where
  "attr_code User_name = 1"
| "attr_code User_password = 2"
| "attr_code Chap_password = 3"
| "attr_code Nas_ip_address = 4"
| "attr_code Nas_port = 5"
| "attr_code Service_type = 6"
| "attr_code Framed_protocol = 7"
| "attr_code Framed_ip_address = 8"
| "attr_code Framed_pool = 88"
| "attr_code Reply_message = 18"
| "attr_code Vendor_specific = 26"
| "attr_code Called_station_id = 30"
| "attr_code Calling_station_id = 31"
| "attr_code Session_timeout = 27"
| "attr_code Acct_status_type = 40"
| "attr_code Acct_delay_time = 41"
| "attr_code Acct_input_octets = 42"
| "attr_code Acct_output_octets = 43"
| "attr_code Acct_session_id = 44"
| "attr_code Acct_session_time = 46"
| "attr_code Acct_input_packets = 47"
| "attr_code Acct_output_packets = 48"
| "attr_code Acct_terminate_cause = 49"
| "attr_code Acct_input_gigawords = 52"
| "attr_code Acct_output_gigawords = 53"
| "attr_code Event_timestamp = 55"
| "attr_code Chap_challenge = 60"
| "attr_code Nas_port_id = 87"
| "attr_code Framed_ipv6_prefix = 97"
| "attr_code Framed_ipv6_pool = 100"
| "attr_code Delegated_ipv6_prefix = 123"
| "attr_code Framed_ipv6_address = 168"
| "attr_code Delegated_ipv6_prefix_pool = 171"
| "attr_code Message_authenticator = 80"

fun packet_code :: "radius_code \<Rightarrow> 8 word" where
  "packet_code Access_request = 1"
| "packet_code Access_accept = 2"
| "packet_code Access_reject = 3"
| "packet_code Accounting_request = 4"
| "packet_code Accounting_response = 5"

definition acct_status_of :: "32 word \<Rightarrow> acct_status option" where
  "acct_status_of n =
     map_of [(1, Acct_start), (2, Acct_stop), (3, Acct_interim), (7, Acct_on), (8, Acct_off)] n"

section \<open>Plan attributes\<close>

text \<open>\<open>a || b\<close> for a number column: NULL and 0 give way to \<open>b\<close>.\<close>

definition or_else :: "nat option \<Rightarrow> nat \<Rightarrow> nat" where
  "or_else a b = (case a of None \<Rightarrow> b | Some n \<Rightarrow> if n = 0 then b else n)"

definition generate_mikrotik_attributes ::
    "nat \<Rightarrow> nat \<Rightarrow> nat \<Rightarrow> nat \<Rightarrow> nat \<Rightarrow> nat \<Rightarrow> nat \<Rightarrow> nat option \<Rightarrow> (string \<times> attr_text) list" where
  "generate_mikrotik_attributes dl ul burst_dl burst_ul thresh_dl thresh_ul burst_time priority =
     [(''Mikrotik-Rate-Limit'', One
        (show_nat ul @ ''M/'' @ show_nat dl @ ''M '' @ show_nat burst_ul @ ''M/'' @ show_nat burst_dl @ ''M '' @
         show_nat thresh_ul @ ''M/'' @ show_nat thresh_dl @ ''M '' @ show_nat burst_time @
         (case priority of None \<Rightarrow> [] | Some p \<Rightarrow> '' '' @ show_nat p)))]"

definition generate_cisco_attributes :: "nat \<Rightarrow> nat \<Rightarrow> (string \<times> attr_text) list" where
  "generate_cisco_attributes dl ul =
     [(''Cisco-AVPair'', Many
        [''sub-qos-policy-in=ISP_DL_'' @ show_nat dl @ ''M'', ''sub-qos-policy-out=ISP_UL_'' @ show_nat ul @ ''M''])]"

definition generate_juniper_attributes :: "nat \<Rightarrow> nat \<Rightarrow> (string \<times> attr_text) list" where
  "generate_juniper_attributes dl ul =
     [(''ERX-Qos-Profile-Name'', One (''ISP_'' @ show_nat dl @ ''M_'' @ show_nat ul @ ''M'')),
      (''ERX-Input-Gigapkts'', One (show_nat dl))]"

definition generate_generic_attributes :: "nat \<Rightarrow> nat \<Rightarrow> (string \<times> attr_text) list" where
  "generate_generic_attributes dl ul =
     [(''WISPr-Bandwidth-Max-Down'', One (show_nat (dl * 1000000))),
      (''WISPr-Bandwidth-Max-Up'', One (show_nat (ul * 1000000)))]"

definition generate_attributes :: "plan_row \<Rightarrow> (string \<times> attr_text) list" where
  "generate_attributes plan =
     (let dl = pl_down plan; ul = pl_up plan;
          burst_dl = or_else (pl_burst_down plan) (dl * 2);
          burst_ul = or_else (pl_burst_up plan) (ul * 2);
          thresh_dl = or_else (pl_burst_threshold plan) dl;
          thresh_ul = or_else (pl_burst_threshold plan) ul;
          burst_time = or_else (pl_burst_time plan) 8
      in case pl_vendor plan of
           Some Mikrotik \<Rightarrow>
             generate_mikrotik_attributes dl ul burst_dl burst_ul thresh_dl thresh_ul burst_time (pl_priority plan)
         | Some Cisco \<Rightarrow> generate_cisco_attributes dl ul
         | Some Juniper \<Rightarrow> generate_juniper_attributes dl ul
         | None \<Rightarrow> generate_generic_attributes dl ul)"

definition generate_throttle_attributes :: "vendor option \<Rightarrow> nat \<Rightarrow> nat \<Rightarrow> (string \<times> attr_text) list" where
  "generate_throttle_attributes v download_kbps upload_kbps =
     (let dl = max 1 download_kbps; ul = max 1 upload_kbps in
      case v of
        Some Mikrotik \<Rightarrow> [(''Mikrotik-Rate-Limit'', One (show_nat ul @ ''k/'' @ show_nat dl @ ''k''))]
      | Some Cisco \<Rightarrow> [(''Cisco-AVPair'', Many
          [''sub-qos-policy-in=ISP_DL_'' @ show_nat dl @ ''K'', ''sub-qos-policy-out=ISP_UL_'' @ show_nat ul @ ''K''])]
      | Some Juniper \<Rightarrow> [(''ERX-Qos-Profile-Name'', One (''ISP_'' @ show_nat dl @ ''K_'' @ show_nat ul @ ''K''))]
      | None \<Rightarrow> [(''WISPr-Bandwidth-Max-Down'', One (show_nat (dl * 1000))),
                 (''WISPr-Bandwidth-Max-Up'', One (show_nat (ul * 1000)))])"

definition has_throttle :: "line_contract option \<Rightarrow> bool" where
  "has_throttle c =
     (case c of None \<Rightarrow> False
      | Some l \<Rightarrow> 0 < or_else (lc_soft_down l) 0 \<and> 0 < or_else (lc_soft_up l) 0)"

text \<open>Download and upload in kbps.\<close>

definition effective_throttle :: "subscriber \<Rightarrow> plan_row \<Rightarrow> (nat \<times> nat) option" where
  "effective_throttle s plan =
     (if has_throttle (su_contract s)
      then map_option (\<lambda>l. (or_else (lc_soft_down l) 0, or_else (lc_soft_up l) 0)) (su_contract s)
      else
        let dl = or_else (pl_fup_down plan) 0; ul = or_else (pl_fup_up plan) 0 in
        if su_fup_active s \<and> 0 < dl \<and> 0 < ul then Some (dl * 1000, ul * 1000) else None)"

definition to_named_attributes :: "(string \<times> attr_text) list \<Rightarrow> (string \<times> string) list" where
  "to_named_attributes attrs =
     concat (map (\<lambda>(name, v). case v of One s \<Rightarrow> [(name, s)] | Many ss \<Rightarrow> map (\<lambda>s. (name, s)) ss) attrs)"

section \<open>Speed windows\<close>

definition window_in_force :: "radius_env \<Rightarrow> plan_row \<Rightarrow> window_row \<Rightarrow> bool" where
  "window_in_force env p w \<longleftrightarrow>
     sw_plan w = pl_id p \<and> sw_org w = pl_org p \<and> sw_active w \<and> sw_live w \<and>
     odd (sw_day_mask w div 2 ^ en_weekday env) \<and> sw_start w \<le> en_time env \<and> en_time env < sw_end w"

text \<open>\<open>ORDER BY priority, id LIMIT 1\<close>.\<close>

definition window_before :: "window_row \<Rightarrow> window_row \<Rightarrow> bool" where
  "window_before a b \<longleftrightarrow> sw_priority a < sw_priority b \<or> sw_priority a = sw_priority b \<and> sw_id a \<le> sw_id b"

definition first_window :: "window_row list \<Rightarrow> window_row option" where
  "first_window ws =
     (case ws of [] \<Rightarrow> None | w # rest \<Rightarrow> Some (foldl (\<lambda>a b. if window_before a b then a else b) w rest))"

definition get_active_window :: "radius_env \<Rightarrow> radius_db \<Rightarrow> plan_row \<Rightarrow> window_row option" where
  "get_active_window env db p = first_window (filter (window_in_force env p) (db_windows db))"

definition window_effective_plan :: "plan_row \<Rightarrow> window_row \<Rightarrow> plan_row" where
  "window_effective_plan p w =
     p\<lparr>pl_down := sw_down w, pl_up := sw_up w, pl_burst_down := None, pl_burst_up := None, pl_burst_threshold := None\<rparr>"

section \<open>Finding the NAS\<close>

definition is_isolated :: "deployment \<Rightarrow> nat \<Rightarrow> bool" where
  "is_isolated d org \<longleftrightarrow> map_of (dp_isolated d) org \<noteq> None"

text \<open>\<open>withTenantContext\<close>: the database that holds the rows of an organization.\<close>

definition tenant_db :: "deployment \<Rightarrow> nat option \<Rightarrow> radius_db" where
  "tenant_db d org =
     (case org of None \<Rightarrow> dp_primary d
      | Some og \<Rightarrow> (case map_of (dp_isolated d) og of None \<Rightarrow> dp_primary d | Some db \<Rightarrow> db))"

definition nas_usable :: "nas_row \<Rightarrow> bool" where
  "nas_usable n \<longleftrightarrow> na_active n \<and> na_live n"

definition describe :: "bool \<Rightarrow> nas_row \<Rightarrow> nas_descriptor" where
  "describe isolated n =
     \<lparr>nd_id = na_id n, nd_org = (case na_org n of None \<Rightarrow> 0 | Some og \<Rightarrow> og), nd_ip = na_ip n, nd_isolated = isolated\<rparr>"

definition build_snapshot :: "deployment \<Rightarrow> nas_descriptor list" where
  "build_snapshot d =
     map (describe False)
       (filter (\<lambda>n. nas_usable n \<and> (case na_org n of None \<Rightarrow> False | Some og \<Rightarrow> \<not> is_isolated d og)) (db_nas (dp_primary d))) @
     concat (map (\<lambda>(og, db). map (describe True) (filter (\<lambda>n. na_org n = Some og \<and> nas_usable n) (db_nas db)))
       (dp_isolated d))"

definition fetch_secret :: "deployment \<Rightarrow> nas_descriptor \<Rightarrow> nas_row option" where
  "fetch_secret d nd =
     find (\<lambda>n. na_id n = nd_id nd \<and> na_org n = Some (nd_org nd) \<and> na_ip n = nd_ip nd \<and> nas_usable n)
       (db_nas (if nd_isolated nd then tenant_db d (Some (nd_org nd)) else dp_primary d))"

text \<open>The routing snapshot may be stale, or missing when a database could not be read. An address that
  two NAS share is ambiguous: nobody answers for it.\<close>

definition resolve_nas_by_ip :: "deployment \<Rightarrow> nas_descriptor list option \<Rightarrow> string \<Rightarrow> nas_row option" where
  "resolve_nas_by_ip d snapshot ip =
     (case snapshot of
        None \<Rightarrow> None
      | Some descriptors \<Rightarrow>
          (case filter (\<lambda>nd. nd_ip nd = ip) descriptors of [nd] \<Rightarrow> fetch_secret d nd | _ \<Rightarrow> None))"

definition secret_for :: "radius_env \<Rightarrow> nas_row option \<Rightarrow> bytes option" where
  "secret_for env n =
     (case n of None \<Rightarrow> None
      | Some r \<Rightarrow> if na_secret r \<noteq> [] then Some (na_secret r)
                  else if en_global_secret env \<noteq> [] then Some (en_global_secret env) else None)"

section \<open>Finding the subscriber\<close>

text \<open>No contract, an active one, or a pending one inside its installation test window.\<close>

definition may_authenticate :: "radius_env \<Rightarrow> line_contract option \<Rightarrow> bool" where
  "may_authenticate env c =
     (case c of
        None \<Rightarrow> True
      | Some l \<Rightarrow>
          lc_status l = Line_active \<or>
          lc_status l = Line_pending \<and> \<not> lc_cleanup_pending l \<and>
            (case lc_test_expires l of None \<Rightarrow> False | Some t \<Rightarrow> en_now env < t))"

definition joined_contract :: "radius_db \<Rightarrow> radius_row \<Rightarrow> line_contract option" where
  "joined_contract db r =
     (case rr_contract r of None \<Rightarrow> None | Some c \<Rightarrow> find (\<lambda>l. lc_id l = c) (db_contracts db))"

definition subscriber_of :: "radius_env \<Rightarrow> radius_db \<Rightarrow> radius_row \<Rightarrow> subscriber" where
  "subscriber_of env db r =
     (let c = joined_contract db r in
      \<lparr>su_row = r, su_contract = c,
       su_fup_active = (case c of None \<Rightarrow> False
         | Some l \<Rightarrow> (case lc_fup_month l of None \<Rightarrow> False | Some mo \<Rightarrow> en_month env \<le> mo)),
       su_test_seconds = (case c of None \<Rightarrow> None
         | Some l \<Rightarrow> if lc_status l = Line_pending
             then map_option (\<lambda>t. max (t - en_now env) 1) (lc_test_expires l) else None)\<rparr>)"

definition find_subscriber :: "radius_env \<Rightarrow> radius_db \<Rightarrow> bytes \<Rightarrow> nat option \<Rightarrow> subscriber option" where
  "find_subscriber env db username org =
     map_option (subscriber_of env db)
       (find (\<lambda>r. en_name_eq env (rr_username r) username \<and> rr_org r = org \<and> rr_live r \<and> rr_active r \<and>
               may_authenticate env (joined_contract db r)) (db_radius db))"

definition find_plan :: "radius_db \<Rightarrow> nat option \<Rightarrow> plan_row option" where
  "find_plan db plan_id =
     (case plan_id of None \<Rightarrow> None | Some i \<Rightarrow> find (\<lambda>p. pl_id p = i) (db_plans db))"

section \<open>Reply attributes\<close>

definition is_ipv4_text :: "string \<Rightarrow> bool" where
  "is_ipv4_text s \<longleftrightarrow>
     (let ps = js_split (CHR ''.'') s in
      length ps = 4 \<and> list_all (\<lambda>p. 1 \<le> length p \<and> length p \<le> 3 \<and> list_all is_digit p \<and> digits_val p \<le> 255) ps)"

text \<open>\<open>Number(text)\<close> of a text without sign, exponent or radix prefix; any other text is taken as NaN.\<close>

definition number_text :: "string \<Rightarrow> int option" where
  "number_text s =
     (let t = js_trim s in
      if t = [] then Some 0 else if list_all is_digit t then Some (int (digits_val t)) else None)"

text \<open>\<open>Number(null)\<close> is 0.\<close>

definition delegated_length :: "string list \<Rightarrow> nat option \<Rightarrow> int option" where
  "delegated_length parts column =
     (if 2 \<le> length parts then number_text (parts ! 1)
      else Some (case column of None \<Rightarrow> 0 | Some n \<Rightarrow> int n))"

definition non_empty :: "string option \<Rightarrow> string option" where
  "non_empty s = (case s of None \<Rightarrow> None | Some t \<Rightarrow> if t = [] then None else Some t)"

definition ipv6_accept_attributes :: "radius_row \<Rightarrow> bytes list" where
  "ipv6_accept_attributes r =
     (case non_empty (rr_ipv6 r) of None \<Rightarrow> []
      | Some a \<Rightarrow> (case encode_ipv6_address_attr (attr_code Framed_ipv6_address) a of None \<Rightarrow> [] | Some b \<Rightarrow> [b])) @
     (case non_empty (rr_ipv6_delegated r) of None \<Rightarrow> []
      | Some p \<Rightarrow>
          let parts = js_split (CHR ''/'') p in
          (case encode_ipv6_prefix_attr (attr_code Delegated_ipv6_prefix) (hd parts) (delegated_length parts (rr_ipv6_prefix_len r)) of
             None \<Rightarrow> [] | Some b \<Rightarrow> [b])) @
     (case non_empty (rr_ipv6_pool r) of None \<Rightarrow> []
      | Some n \<Rightarrow> (case encode_string_attr (attr_code Delegated_ipv6_prefix_pool) (utf8 n) of None \<Rightarrow> [] | Some b \<Rightarrow> [b]))"

definition policy_attributes :: "subscriber \<Rightarrow> plan_row \<Rightarrow> (string \<times> attr_text) list" where
  "policy_attributes s plan =
     (case (if (case su_contract s of None \<Rightarrow> False | Some l \<Rightarrow> lc_status l = Line_active)
            then effective_throttle s plan else None) of
        Some (dl, ul) \<Rightarrow> generate_throttle_attributes (pl_vendor plan) dl ul
      | None \<Rightarrow> generate_attributes plan)"

definition test_window_attribute :: "subscriber \<Rightarrow> bytes list" where
  "test_window_attribute s =
     (case su_test_seconds s of
        None \<Rightarrow> []
      | Some n \<Rightarrow> if 0 < n then [encode_int_attr (attr_code Session_timeout) (of_int n)] else [])"

definition build_accept_attributes :: "subscriber \<Rightarrow> plan_row option \<Rightarrow> bool \<Rightarrow> radius_error + bytes" where
  "build_accept_attributes s plan with_message_auth =
     (let r = su_row s;
          start = [encode_int_attr (attr_code Service_type) 2, encode_int_attr (attr_code Framed_protocol) 1] @
            (case rr_ip r of None \<Rightarrow> [] | Some ip \<Rightarrow> if is_ipv4_text ip then [encode_framed_ip_address ip] else []) @
            ipv6_accept_attributes r @ test_window_attribute s
      in bind_r (case plan of None \<Rightarrow> Inr [] | Some p \<Rightarrow> encode_named_attributes (to_named_attributes (policy_attributes s p)))
         (\<lambda>policy.
            bind_r (case Option.bind (su_contract s) (\<lambda>l. non_empty (lc_walled_list l)) of
                      None \<Rightarrow> Inr []
                    | Some name \<Rightarrow> encode_named_attributes [(''Mikrotik-Address-List'', name)])
              (\<lambda>walled.
                 Inr ((if with_message_auth then message_authenticator_placeholder else []) @
                      concat start @ policy @ walled))))"

section \<open>Access requests\<close>

text \<open>What the credentials of the packet say about a subscriber.\<close>

definition check_credentials :: "radius_env \<Rightarrow> radius_packet \<Rightarrow> bytes \<Rightarrow> bytes \<Rightarrow> auth_reason" where
  "check_credentials env pkt secret password =
     (case get_attr (rp_attributes pkt) (attr_code User_password) of
        Some user_pw \<Rightarrow>
          (case decode_pap_password (en_md5 env) user_pw secret (rp_authenticator pkt) of
             None \<Rightarrow> Bad_password
           | Some plain \<Rightarrow> if plain = password then Accepted else Bad_password)
      | None \<Rightarrow>
          (case get_attr (rp_attributes pkt) (attr_code Chap_password) of
             Some chap_pw \<Rightarrow>
               (let challenge = (case get_attr (rp_attributes pkt) (attr_code Chap_challenge) of
                                   None \<Rightarrow> rp_authenticator pkt | Some c \<Rightarrow> c) in
                if verify_chap (en_md5 env) chap_pw challenge password then Accepted else Bad_password)
           | None \<Rightarrow> Unsupported_auth_method))"

definition authenticate :: "radius_env \<Rightarrow> deployment \<Rightarrow> radius_packet \<Rightarrow> bytes \<Rightarrow> nas_row \<Rightarrow> auth_reason \<times> subscriber option" where
  "authenticate env d pkt secret nas =
     (case get_attr (rp_attributes pkt) (attr_code User_name) of
        None \<Rightarrow> (Missing_username, None)
      | Some username \<Rightarrow>
          if username = [] then (Missing_username, None)
          else
            (case find_subscriber env (tenant_db d (na_org nas)) username (na_org nas) of
               None \<Rightarrow> (Unknown_or_inactive_user, None)
             | Some s \<Rightarrow>
                 if rr_password (su_row s) = [] then (Password_not_configured, Some s)
                 else (check_credentials env pkt secret (rr_password (su_row s)), Some s)))"

text \<open>The plan of an accepted subscriber, with the speed window in force.\<close>

definition plan_in_force :: "radius_env \<Rightarrow> radius_db \<Rightarrow> subscriber \<Rightarrow> plan_row option" where
  "plan_in_force env db s =
     (case find_plan db (Option.bind (su_contract s) lc_plan) of
        None \<Rightarrow> None
      | Some p \<Rightarrow> (case get_active_window env db p of None \<Rightarrow> Some p | Some w \<Rightarrow> Some (window_effective_plan p w)))"

definition reject_attributes :: "radius_error + bytes" where
  "reject_attributes =
     bind_r (encode_attributes [Raw (attr_code Reply_message) (utf8 ''Access denied'')])
       (\<lambda>b. Inr (message_authenticator_placeholder @ b))"

definition accepted_attributes :: "radius_env \<Rightarrow> deployment \<Rightarrow> nas_row \<Rightarrow> subscriber option \<Rightarrow> radius_error + bytes" where
  "accepted_attributes env d nas su =
     (case su of None \<Rightarrow> Inr []
      | Some s \<Rightarrow> build_accept_attributes s (plan_in_force env (tenant_db d (na_org nas)) s) True)"

definition signed_packet :: "radius_env \<Rightarrow> radius_packet \<Rightarrow> bytes \<Rightarrow> bool \<Rightarrow> radius_code \<Rightarrow> bytes \<Rightarrow> radius_error + bytes" where
  "signed_packet env pkt secret with_message_auth code attrs =
     bind_r (build_radius_packet (packet_code code) (rp_identifier pkt) (replicate 16 0) attrs)
       (\<lambda>p. sign_response (en_md5 env) (en_hmac env) p (rp_authenticator pkt) secret with_message_auth)"

datatype drop_reason = Undecodable | Wrong_code | Unknown_nas | Bad_message_auth | No_message_auth
  | Bad_request_auth | Unsupported_status | Not_persisted

datatype auth_result =
    Auth_dropped drop_reason
  | Auth_failed radius_error "auth_reason option"
  | Auth_replied bytes auth_reason nas_row "bytes option"

definition handle_auth_result :: "radius_env \<Rightarrow> deployment \<Rightarrow> nas_descriptor list option \<Rightarrow> bytes \<Rightarrow> string \<Rightarrow> auth_result" where
  "handle_auth_result env d snapshot msg source =
     (case decode_packet msg of
        Inl _ \<Rightarrow> Auth_dropped Undecodable
      | Inr pkt \<Rightarrow>
          if rp_code pkt \<noteq> packet_code Access_request then Auth_dropped Wrong_code
          else
            (let found = resolve_nas_by_ip d snapshot source in
             case (found, secret_for env found) of
               (Some nas, Some secret) \<Rightarrow>
                 (case verify_message_authenticator (en_hmac env) (rp_raw pkt) (rp_attributes pkt) secret of
                    Inl e \<Rightarrow> Auth_failed e None
                  | Inr False \<Rightarrow> Auth_dropped Bad_message_auth
                  | Inr True \<Rightarrow>
                      if na_require_ma nas \<and> get_attr (rp_attributes pkt) (attr_code Message_authenticator) = None
                      then Auth_dropped No_message_auth
                      else
                        (let (reason, su) = authenticate env d pkt secret nas in
                         case bind_r
                           (if reason = Accepted then accepted_attributes env d nas su else reject_attributes)
                           (signed_packet env pkt secret True (if reason = Accepted then Access_accept else Access_reject)) of
                           Inl e \<Rightarrow> Auth_failed e (Some reason)
                         | Inr reply \<Rightarrow>
                             Auth_replied reply reason nas (get_attr (rp_attributes pkt) (attr_code User_name))))
             | _ \<Rightarrow> Auth_dropped Unknown_nas))"

text \<open>The state of the server: its counters, the log of outcomes, and the number of datagrams in flight.\<close>

record radius_state =
  rs_counters :: radius_counters
  rs_log :: "auth_log list"
  rs_in_flight :: nat

definition count_decision :: "auth_reason \<Rightarrow> radius_counters \<Rightarrow> radius_counters" where
  "count_decision reason c =
     (if reason = Accepted then c\<lparr>ct_accepts := ct_accepts c + 1\<rparr> else c\<lparr>ct_rejects := ct_rejects c + 1\<rparr>)"

definition log_entry :: "radius_env \<Rightarrow> radius_attr list \<Rightarrow> string \<Rightarrow> nas_row \<Rightarrow> bytes option \<Rightarrow> auth_reason \<Rightarrow> auth_log" where
  "log_entry env attributes source nas username reason =
     \<lparr>al_org = na_org nas, al_nas = na_id nas,
      al_username = (case username of None \<Rightarrow> [] | Some u \<Rightarrow> en_slice env 64 u),
      al_accepted = (reason = Accepted),
      al_nas_ip = take 45 (case get_ip attributes (attr_code Nas_ip_address) of None \<Rightarrow> source | Some ip \<Rightarrow> ip),
      al_calling = map_option (en_slice env 100) (get_attr attributes (attr_code Calling_station_id)),
      al_reason = reason\<rparr>"

definition msg_attributes :: "bytes \<Rightarrow> radius_attr list" where
  "msg_attributes msg = (case decode_packet msg of Inl _ \<Rightarrow> [] | Inr pkt \<Rightarrow> rp_attributes pkt)"

definition handle_auth ::
    "radius_env \<Rightarrow> deployment \<Rightarrow> nas_descriptor list option \<Rightarrow> nat \<Rightarrow> radius_state \<Rightarrow> bytes \<Rightarrow> string \<Rightarrow>
     radius_state \<times> bytes option" where
  "handle_auth env d snapshot max_in_flight st msg source =
     (let c = (rs_counters st)\<lparr>ct_auth_requests := ct_auth_requests (rs_counters st) + 1\<rparr> in
      case handle_auth_result env d snapshot msg source of
        Auth_dropped why \<Rightarrow>
          (st\<lparr>rs_counters := c\<lparr>ct_auth_dropped := ct_auth_dropped c + 1,
              ct_no_message_auth := ct_no_message_auth c + (if why = No_message_auth then 1 else 0)\<rparr>\<rparr>, None)
      | Auth_failed e decision \<Rightarrow>
          (st\<lparr>rs_counters := (case decision of None \<Rightarrow> c | Some reason \<Rightarrow> count_decision reason c)\<rparr>, None)
      | Auth_replied reply reason nas username \<Rightarrow>
          let c' = count_decision reason c in
          (if max_in_flight \<le> 2 * rs_in_flight st
           then st\<lparr>rs_counters := c'\<lparr>ct_post_auth_skipped := ct_post_auth_skipped c' + 1\<rparr>\<rparr>
           else st\<lparr>rs_counters := c', rs_log := rs_log st @ [log_entry env (msg_attributes msg) source nas username reason]\<rparr>,
           Some reply))"

section \<open>Accounting requests\<close>

definition acct_request_of :: "radius_packet \<Rightarrow> string \<Rightarrow> nas_row \<Rightarrow> acct_status \<Rightarrow> radius_error + acct_request" where
  "acct_request_of pkt source nas status =
     (let as = rp_attributes pkt in
      if status = Acct_on \<or> status = Acct_off then Inr (Infrastructure_acct status nas)
      else
        bind_r (get_ipv6_prefix as (attr_code Framed_ipv6_prefix)) (\<lambda>framed6.
        bind_r (get_ipv6_prefix as (attr_code Delegated_ipv6_prefix)) (\<lambda>delegated.
        bind_r (get_ipv6_address as (attr_code Framed_ipv6_address)) (\<lambda>address6.
          Inr (Subscriber_acct status
            (map (\<lambda>n. (n, get_attr as (attr_code n)))
              [User_name, Acct_session_id, Nas_port_id, Called_station_id, Calling_station_id])
            (map (\<lambda>n. (n, get_int as (attr_code n)))
              [Acct_input_octets, Acct_output_octets, Acct_input_gigawords, Acct_output_gigawords,
               Acct_input_packets, Acct_output_packets, Acct_session_time, Acct_terminate_cause,
               Event_timestamp, Acct_delay_time])
            (get_ip as (attr_code Framed_ip_address))
            (case get_ip as (attr_code Nas_ip_address) of None \<Rightarrow> source | Some ip \<Rightarrow> ip)
            framed6 delegated address6 nas)))))"

datatype acct_result =
    Acct_dropped drop_reason
  | Acct_failed radius_error
  | Acct_replied bytes acct_request

text \<open>\<open>ingest\<close> says whether the session store has durably taken the request.\<close>

definition handle_acct_result ::
    "radius_env \<Rightarrow> deployment \<Rightarrow> nas_descriptor list option \<Rightarrow> (acct_request \<Rightarrow> bool) \<Rightarrow> bytes \<Rightarrow> string \<Rightarrow> acct_result" where
  "handle_acct_result env d snapshot ingest msg source =
     (case decode_packet msg of
        Inl _ \<Rightarrow> Acct_dropped Undecodable
      | Inr pkt \<Rightarrow>
          if rp_code pkt \<noteq> packet_code Accounting_request then Acct_dropped Wrong_code
          else
            (let found = resolve_nas_by_ip d snapshot source in
             case (found, secret_for env found) of
               (Some nas, Some secret) \<Rightarrow>
                 (case compute_request_authenticator (en_md5 env) (rp_raw pkt) secret of
                    Inl e \<Rightarrow> Acct_failed e
                  | Inr expected \<Rightarrow>
                      if expected \<noteq> rp_authenticator pkt then Acct_dropped Bad_request_auth
                      else
                        (case Option.bind (get_int (rp_attributes pkt) (attr_code Acct_status_type)) acct_status_of of
                           None \<Rightarrow> Acct_dropped Unsupported_status
                         | Some status \<Rightarrow>
                             (case acct_request_of pkt source nas status of
                                Inl _ \<Rightarrow> Acct_dropped Not_persisted
                              | Inr req \<Rightarrow>
                                  if \<not> ingest req then Acct_dropped Not_persisted
                                  else
                                    (case signed_packet env pkt secret False Accounting_response [] of
                                       Inl e \<Rightarrow> Acct_failed e
                                     | Inr reply \<Rightarrow> Acct_replied reply req))))
             | _ \<Rightarrow> Acct_dropped Unknown_nas))"

definition handle_acct ::
    "radius_env \<Rightarrow> deployment \<Rightarrow> nas_descriptor list option \<Rightarrow> (acct_request \<Rightarrow> bool) \<Rightarrow> radius_state \<Rightarrow> bytes \<Rightarrow> string \<Rightarrow>
     radius_state \<times> bytes option" where
  "handle_acct env d snapshot ingest st msg source =
     (let c = (rs_counters st)\<lparr>ct_acct_requests := ct_acct_requests (rs_counters st) + 1\<rparr> in
      case handle_acct_result env d snapshot ingest msg source of
        Acct_dropped why \<Rightarrow> (st\<lparr>rs_counters := c\<lparr>ct_acct_dropped := ct_acct_dropped c + 1\<rparr>\<rparr>, None)
      | Acct_failed e \<Rightarrow> (st\<lparr>rs_counters := c\<rparr>, None)
      | Acct_replied reply req \<Rightarrow> (st\<lparr>rs_counters := c\<lparr>ct_acct_ingested := ct_acct_ingested c + 1\<rparr>\<rparr>, Some reply))"

end
