(* ===== verification/Radius_Safety.thy ===== *)
theory Radius_Safety
  imports Radius_Server
begin

text \<open>
  What the embedded RADIUS server guarantees: who is accepted, what its replies carry, and that every
  datagram is accounted for.
\<close>

section \<open>Who is accepted\<close>

text \<open>The credentials of a packet fit a password.\<close>

definition credentials_fit :: "radius_env \<Rightarrow> radius_packet \<Rightarrow> bytes \<Rightarrow> bytes \<Rightarrow> bool" where
  "credentials_fit env pkt secret password \<longleftrightarrow>
     (case get_attr (rp_attributes pkt) (attr_code User_password) of
        Some pw \<Rightarrow> decode_pap_password (en_md5 env) pw secret (rp_authenticator pkt) = Some password
      | None \<Rightarrow> (\<exists>chap challenge.
          get_attr (rp_attributes pkt) (attr_code Chap_password) = Some chap \<and> 17 \<le> length chap \<and>
          challenge \<in> {rp_authenticator pkt} \<union> ra_value ` {a \<in> set (rp_attributes pkt). ra_type a = attr_code Chap_challenge} \<and>
          take 16 (drop 1 chap) = en_md5 env ([chap ! 0] @ password @ challenge)))"

lemma get_attr_in: "get_attr as ty = Some v \<Longrightarrow> v \<in> ra_value ` {a \<in> set as. ra_type a = ty}"
  by (auto simp: get_attr_def find_Some_iff)

lemma accepted_credentials:
  "check_credentials env pkt secret password = Accepted \<Longrightarrow> credentials_fit env pkt secret password"
  using get_attr_in [of "rp_attributes pkt" "attr_code Chap_challenge"]
  by (auto simp: check_credentials_def credentials_fit_def verify_chap_def Let_def simp del: attr_code.simps
      split: option.splits if_splits)

lemma find_in: "find P xs = Some x \<Longrightarrow> x \<in> set xs \<and> P x"
  by (auto simp: find_Some_iff)

text \<open>The account a request may be accepted for: in the NAS's organization, active, its contract allowing
  it, with a password.\<close>

definition line_admitted :: "int \<Rightarrow> line_contract option \<Rightarrow> bool" where
  "line_admitted now c \<longleftrightarrow>
     (\<forall>l. c = Some l \<longrightarrow> lc_status l = Line_active \<or>
        lc_status l = Line_pending \<and> \<not> lc_cleanup_pending l \<and>
          (\<exists>t. lc_test_expires l = Some t \<and> now < t))"

lemma may_authenticate_admits: "may_authenticate env c \<Longrightarrow> line_admitted (en_now env) c"
  by (auto simp: may_authenticate_def line_admitted_def split: option.splits)

definition may_accept :: "radius_env \<Rightarrow> deployment \<Rightarrow> nas_row \<Rightarrow> bytes \<Rightarrow> radius_row \<Rightarrow> bool" where
  "may_accept env d nas username r \<longleftrightarrow>
     r \<in> set (db_radius (tenant_db d (na_org nas))) \<and> rr_org r = na_org nas \<and> rr_live r \<and> rr_active r \<and>
     en_name_eq env (rr_username r) username \<and> username \<noteq> [] \<and> rr_password r \<noteq> [] \<and>
     line_admitted (en_now env) (joined_contract (tenant_db d (na_org nas)) r)"

lemma authenticate_accepted:
  assumes "authenticate env d pkt secret nas = (Accepted, su)"
  shows "\<exists>username r. get_attr (rp_attributes pkt) (attr_code User_name) = Some username \<and>
    may_accept env d nas username r \<and> credentials_fit env pkt secret (rr_password r) \<and>
    su = Some (subscriber_of env (tenant_db d (na_org nas)) r)"
  using assms
  by (auto simp: authenticate_def find_subscriber_def may_accept_def subscriber_of_def Let_def simp del: attr_code.simps
      dest!: find_in accepted_credentials dest!: may_authenticate_admits split: option.splits if_splits)




text \<open>What a request went through to be answered.\<close>

lemma replied_request:
  assumes "handle_auth_result env d snapshot msg source = Auth_replied reply reason nas username"
  obtains pkt secret su where "decode_packet msg = Inr pkt" "rp_code pkt = packet_code Access_request"
    "resolve_nas_by_ip d snapshot source = Some nas" "secret_for env (Some nas) = Some secret"
    "verify_message_authenticator (en_hmac env) (rp_raw pkt) (rp_attributes pkt) secret = Inr True"
    "na_require_ma nas \<longrightarrow> get_attr (rp_attributes pkt) (attr_code Message_authenticator) \<noteq> None"
    "authenticate env d pkt secret nas = (reason, su)" "username = get_attr (rp_attributes pkt) (attr_code User_name)"
    "bind_r (if reason = Accepted then accepted_attributes env d nas su else reject_attributes)
       (signed_packet env pkt secret True (if reason = Accepted then Access_accept else Access_reject)) = Inr reply"
proof -
  from assms show ?thesis
    unfolding handle_auth_result_def Let_def
    by (auto simp del: attr_code.simps packet_code.simps split: sum.splits option.splits if_splits bool.splits prod.splits intro: that)
qed


section \<open>What a reply carries\<close>

named_theorems attr_area \<open>bytes that are encoded attributes and nothing else\<close>

definition whole_attrs :: "bytes \<Rightarrow> bool" where
  "whole_attrs b \<longleftrightarrow> (\<exists>as. b = concat (map encode_attr as) \<and> list_all attr_ok as)"

lemma whole_attrs_Nil [attr_area]: "whole_attrs []"
  unfolding whole_attrs_def by (intro exI [of _ "[]"]) simp

lemma whole_attrs_append [attr_area]: "whole_attrs a \<Longrightarrow> whole_attrs b \<Longrightarrow> whole_attrs (a @ b)"
proof -
  assume "whole_attrs a" "whole_attrs b"
  then obtain as bs where "a = concat (map encode_attr as)" "list_all attr_ok as"
      "b = concat (map encode_attr bs)" "list_all attr_ok bs" by (auto simp: whole_attrs_def)
  then show ?thesis unfolding whole_attrs_def by (intro exI [of _ "as @ bs"]) simp
qed

lemma whole_attrs_one: "b = [ty, of_nat (2 + length v)] @ v \<Longrightarrow> length v \<le> 253 \<Longrightarrow> whole_attrs b"
  unfolding whole_attrs_def
  by (intro exI [of _ "[\<lparr>ra_type = ty, ra_value = v\<rparr>]"]) (simp add: encode_attr_def attr_ok_def)

lemma whole_attrs_concat: "list_all whole_attrs bs \<Longrightarrow> whole_attrs (concat bs)"
  by (induction bs) (simp_all add: attr_area)

lemma length_be32 [simp]: "length (be32 w) = 4"
  by (simp add: be32_def)

lemma whole_int_attr [attr_area]: "whole_attrs (encode_int_attr ty v)"
  by (rule whole_attrs_one [of _ ty "be32 v"]) (simp_all add: encode_int_attr_def)

lemma whole_framed_ip [attr_area]: "whole_attrs (encode_framed_ip_address ip)"
proof -
  define v where "v = map byte_of (take 4 (map parse_int10 (js_split (CHR ''.'') ip) @ replicate 4 None))"
  have "4 \<le> length (map parse_int10 (js_split (CHR ''.'') ip) @ replicate 4 None)" by simp
  then have len: "length v = 4" unfolding v_def length_map length_take by (rule min_absorb2)
  have "encode_framed_ip_address ip = [8, of_nat (2 + length v)] @ v"
    unfolding len by (simp add: encode_framed_ip_address_def v_def Let_def)
  then show ?thesis by (rule whole_attrs_one) (simp add: len)
qed

lemma length_ipv6_bytes: "ipv6_bytes s = Some b \<Longrightarrow> length b = 16"
proof -
  assume "ipv6_bytes s = Some b"
  then obtain gs where "length gs = 8" "b = concat (map (\<lambda>g. be16 (group_word g)) gs)"
    by (auto simp: ipv6_bytes_def Let_def split: if_splits)
  moreover have "length (concat (map (\<lambda>g. be16 (group_word g)) gs)) = 2 * length gs" for gs
    by (induction gs) (simp_all add: be16_def)
  ultimately show ?thesis by simp
qed

lemma whole_ipv6_address:
  assumes "encode_ipv6_address_attr ty a = Some b"
  shows "whole_attrs b"
proof -
  from assms obtain z where z: "ipv6_bytes a = Some z" "b = [ty, 18] @ z"
    by (auto simp: encode_ipv6_address_attr_def)
  then show ?thesis by (intro whole_attrs_one [of b ty z]) (simp_all add: length_ipv6_bytes)
qed

lemma whole_ipv6_prefix:
  assumes "encode_ipv6_prefix_attr ty a l = Some b"
  shows "whole_attrs b"
proof -
  from assms obtain v len where v: "ipv6_bytes a = Some v" "l = Some len"
    by (auto simp: encode_ipv6_prefix_attr_def split: option.splits)
  define n where "n = nat len"
  from assms v have b: "n \<le> 128" "b = [ty, of_nat (4 + (n + 7) div 8), 0, of_nat n] @ prefix_body n v"
    by (auto simp: encode_ipv6_prefix_attr_def Let_def n_def split: if_splits)
  have n: "(n + 7) div 8 \<le> 16" using b(1) by simp
  have "length (prefix_body n v) = (n + 7) div 8"
    using n length_ipv6_bytes [OF v(1)] by (simp add: prefix_body_def Let_def min_absorb2)
  then show ?thesis
    using n b(2) by (intro whole_attrs_one [of _ ty "[0, of_nat n] @ prefix_body n v"]) simp_all
qed

lemma whole_string_attr: "encode_string_attr ty v = Some b \<Longrightarrow> whole_attrs b"
  by (auto simp: encode_string_attr_def intro!: whole_attrs_one split: if_splits)

lemma whole_vsa: "encode_vsa vendor_id ty v = Inr b \<Longrightarrow> whole_attrs b"
  by (rule whole_attrs_one [of _ 26 "be32 vendor_id @ [ty, of_nat (2 + length v)] @ v"])
    (auto simp: encode_vsa_def split: if_splits)

lemmas whole_optional = whole_ipv6_address whole_ipv6_prefix whole_string_attr

lemma whole_ipv6_accept: "list_all whole_attrs (ipv6_accept_attributes r)"
  by (auto simp: ipv6_accept_attributes_def Let_def dest: whole_optional split: option.splits)

text \<open>The names the plan attributes use: none of them is the unguarded User-Name.\<close>

definition policy_names :: "string list" where
  "policy_names = [''Mikrotik-Rate-Limit'', ''Mikrotik-Address-List'', ''Cisco-AVPair'', ''WISPr-Bandwidth-Max-Down'',
     ''WISPr-Bandwidth-Max-Up'', ''ERX-Qos-Profile-Name'', ''ERX-Input-Gigapkts'']"

lemma whole_named:
  assumes "list_all (\<lambda>d. fst d \<in> set policy_names) defs" and "encode_named_attributes defs = Inr b"
  shows "whole_attrs b"
proof -
  from assms(2) obtain bs where bs: "b = concat bs"
      "map_r (\<lambda>(name, v). the (named_encoder name) v) (filter (\<lambda>d. named_encoder (fst d) \<noteq> None) defs) = Inr bs"
    by (auto simp: encode_named_attributes_def bind_r_Inr_conv)
  have one: "whole_attrs y" if "the (named_encoder name) v = Inr y" "name \<in> set policy_names" "named_encoder name \<noteq> None" for name v y
    using that by (auto simp: policy_names_def named_encoder_def encode_mikrotik_rate_limit_def encode_mikrotik_address_list_def
        encode_cisco_av_pair_def encode_wispr_bandwidth_def dest: whole_vsa)
  have "list_all2 (\<lambda>d y. (case d of (name, v) \<Rightarrow> the (named_encoder name) v) = Inr y)
      (filter (\<lambda>d. named_encoder (fst d) \<noteq> None) defs) bs"
    using bs(2) by (simp add: map_r_Inr_conv)
  moreover have "list_all (\<lambda>d. fst d \<in> set policy_names \<and> named_encoder (fst d) \<noteq> None)
      (filter (\<lambda>d. named_encoder (fst d) \<noteq> None) defs)"
    using assms(1) by (auto simp: list_all_iff)
  ultimately have "list_all whole_attrs bs"
  proof (induction rule: list_all2_induct)
    case (Cons d ds y ys)
    then show ?case using one [of "fst d" "snd d" y] by (auto simp: case_prod_beta)
  qed simp
  with bs(1) show ?thesis by (simp add: whole_attrs_concat)
qed

lemma policy_named: "list_all (\<lambda>d. fst d \<in> set policy_names) (to_named_attributes (policy_attributes s p))"
  by (auto simp: policy_attributes_def generate_attributes_def generate_throttle_attributes_def to_named_attributes_def
      generate_mikrotik_attributes_def generate_cisco_attributes_def generate_juniper_attributes_def
      generate_generic_attributes_def policy_names_def Let_def split: option.splits vendor.splits prod.splits)

lemma whole_encoded_policy:
  assumes "(case plan of None \<Rightarrow> Inr [] | Some p \<Rightarrow> encode_named_attributes (to_named_attributes (policy_attributes s p))) = Inr b"
  shows "whole_attrs b"
  using assms whole_named [OF policy_named] by (auto simp: attr_area split: option.splits)

lemma whole_walled:
  assumes "(case w of None \<Rightarrow> Inr [] | Some name \<Rightarrow> encode_named_attributes [(''Mikrotik-Address-List'', name)]) = Inr b"
  shows "whole_attrs b"
  using assms whole_named [of "[(''Mikrotik-Address-List'', _)]" b] by (auto simp: attr_area policy_names_def split: option.splits)

lemma whole_test_window: "list_all whole_attrs (test_window_attribute s)"
  by (simp add: test_window_attribute_def attr_area split: option.splits)

lemma whole_accept:
  assumes "build_accept_attributes s plan True = Inr b"
  shows "\<exists>c. b = message_authenticator_placeholder @ c \<and> whole_attrs c"
proof -
  from assms obtain policy walled start where parts:
      "(case plan of None \<Rightarrow> Inr [] | Some p \<Rightarrow> encode_named_attributes (to_named_attributes (policy_attributes s p))) = Inr policy"
      "(case Option.bind (su_contract s) (\<lambda>l. non_empty (lc_walled_list l)) of None \<Rightarrow> Inr []
        | Some name \<Rightarrow> encode_named_attributes [(''Mikrotik-Address-List'', name)]) = Inr walled"
      "start = [encode_int_attr (attr_code Service_type) 2, encode_int_attr (attr_code Framed_protocol) 1] @
            (case rr_ip (su_row s) of None \<Rightarrow> [] | Some ip \<Rightarrow> if is_ipv4_text ip then [encode_framed_ip_address ip] else []) @
            ipv6_accept_attributes (su_row s) @ test_window_attribute s"
      "b = message_authenticator_placeholder @ concat start @ policy @ walled"
    unfolding build_accept_attributes_def Let_def bind_r_Inr_conv by auto
  have "list_all whole_attrs start"
    unfolding parts(3) by (simp add: attr_area whole_ipv6_accept whole_test_window split: option.splits)
  then have "whole_attrs (concat start @ policy @ walled)"
    using whole_encoded_policy [OF parts(1)] whole_walled [OF parts(2)] by (intro attr_area whole_attrs_concat)
  with parts(4) show ?thesis by blast
qed

lemma whole_reject: "reject_attributes = Inr b \<Longrightarrow> \<exists>c. b = message_authenticator_placeholder @ c \<and> whole_attrs c"
proof -
  assume "reject_attributes = Inr b"
  moreover have "length (utf8 ''Access denied'') \<le> 253" by (simp add: utf8_def utf8_char_def Let_def)
  ultimately have "b = message_authenticator_placeholder @
      [attr_code Reply_message, of_nat (2 + length (utf8 ''Access denied''))] @ utf8 ''Access denied''"
    by (simp add: reject_attributes_def encode_attributes_def encode_item_def)
  with \<open>length (utf8 ''Access denied'') \<le> 253\<close> whole_attrs_one show ?thesis by blast
qed

lemma decode_whole: "whole_attrs c \<Longrightarrow> c = concat (map encode_attr (decode_attrs c)) \<and> list_all attr_ok (decode_attrs c)"
  by (auto simp: whole_attrs_def attr_frame.loop_received)

lemma built_fits: "build_radius_packet code ident auth attrs = Inr p \<Longrightarrow> 20 + length attrs \<le> 65535"
  by (auto simp: build_radius_packet_def Let_def split: if_splits)

lemma signed_accept_or_reject:
  assumes digests: "\<forall>x. length (en_md5 env x) = 16" "\<forall>k x. length (en_hmac env k x) = 16"
    and "decode_packet msg = Inr pkt" and "whole_attrs c"
    and "signed_packet env pkt secret True code (message_authenticator_placeholder @ c) = Inr reply"
  shows "\<exists>mac. length mac = 16 \<and>
    decode_packet reply = Inr \<lparr>rp_code = packet_code code, rp_identifier = rp_identifier pkt, rp_length = length reply,
      rp_authenticator = en_md5 env (copy_at 4 (rp_authenticator pkt) reply @ secret),
      rp_attributes = \<lparr>ra_type = message_authenticator, ra_value = mac\<rparr> # decode_attrs c, rp_raw = reply\<rparr> \<and>
    verify_message_authenticator (en_hmac env) (copy_at 4 (rp_authenticator pkt) reply)
      (\<lparr>ra_type = message_authenticator, ra_value = mac\<rparr> # decode_attrs c) secret = Inr True \<and>
    length reply = 38 + length c \<and> c = concat (map encode_attr (decode_attrs c))"
proof -
  from assms(3) have auth: "length (rp_authenticator pkt) = 16"
    by (auto simp: decode_packet_def Let_def split: if_splits)
  from assms(5) obtain p where p: "build_radius_packet (packet_code code) (rp_identifier pkt) (replicate 16 0) (message_authenticator_placeholder @ c) = Inr p"
      "sign_response (en_md5 env) (en_hmac env) p (rp_authenticator pkt) secret True = Inr reply"
    by (auto simp: signed_packet_def bind_r_Inr_conv)
  have fits: "38 + length c \<le> 65535"
    using built_fits [OF p(1)] by (simp add: message_authenticator_placeholder_def)
  have "length p = 38 + length c"
    using p(1) by (auto simp: build_radius_packet_def Let_def message_authenticator_placeholder_def be16_def copy_at_def split: if_splits)
  with signed_reply [OF digests auth fits, of "packet_code code" "rp_identifier pkt" secret] p
  show ?thesis using decode_whole [OF assms(4)] by auto
qed

text \<open>C22: every reply to an Access-Request is authentic and whole. For any hash functions with digests of
  sixteen bytes, the reply decodes; it is an Access-Accept exactly when the decision is to accept and
  an Access-Reject otherwise; it repeats the request's identifier; its authenticator is the digest of
  the reply under the request's authenticator and the NAS's secret; its first attribute is a
  Message-Authenticator that verifies under that secret; and its bytes are its attributes and nothing
  else, so that no attribute the server put in is lost or cut.\<close>

theorem auth_reply_authentic:
  assumes "\<forall>x. length (en_md5 env x) = 16" and "\<forall>k x. length (en_hmac env k x) = 16"
    and "handle_auth_result env d snapshot msg source = Auth_replied reply reason nas username"
  shows "\<exists>pkt secret ma as. decode_packet msg = Inr pkt \<and> secret_for env (Some nas) = Some secret \<and>
    ra_type ma = attr_code Message_authenticator \<and> length (ra_value ma) = 16 \<and>
    decode_packet reply = Inr \<lparr>rp_code = packet_code (if reason = Accepted then Access_accept else Access_reject),
      rp_identifier = rp_identifier pkt, rp_length = length reply,
      rp_authenticator = en_md5 env (copy_at 4 (rp_authenticator pkt) reply @ secret),
      rp_attributes = ma # as, rp_raw = reply\<rparr> \<and>
    verify_message_authenticator (en_hmac env) (copy_at 4 (rp_authenticator pkt) reply) (ma # as) secret = Inr True \<and>
    drop 20 reply = concat (map encode_attr (ma # as))"
proof -
  from assms(3) obtain pkt secret su where pkt: "decode_packet msg = Inr pkt" "secret_for env (Some nas) = Some secret"
    "authenticate env d pkt secret nas = (reason, su)"
    "bind_r (if reason = Accepted then accepted_attributes env d nas su else reject_attributes)
       (signed_packet env pkt secret True (if reason = Accepted then Access_accept else Access_reject)) = Inr reply"
    by (rule replied_request)
  from pkt(4) obtain b where b: "(if reason = Accepted then accepted_attributes env d nas su else reject_attributes) = Inr b"
      "signed_packet env pkt secret True (if reason = Accepted then Access_accept else Access_reject) b = Inr reply"
    unfolding bind_r_Inr_conv by blast
  have "\<exists>c. b = message_authenticator_placeholder @ c \<and> whole_attrs c"
  proof (cases "reason = Accepted")
    case True
    with pkt(3) authenticate_accepted obtain s where "su = Some s" by blast
    with b(1) True show ?thesis by (intro whole_accept [of s _ b]) (simp add: accepted_attributes_def)
  next
    case False
    with b(1) show ?thesis by (intro whole_reject) simp
  qed
  then obtain c where c: "b = message_authenticator_placeholder @ c" "whole_attrs c" by blast
  from signed_accept_or_reject [OF assms(1,2) pkt(1) c(2) b(2) [unfolded c(1)]] obtain mac where reply:
    "length mac = 16"
    "decode_packet reply = Inr \<lparr>rp_code = packet_code (if reason = Accepted then Access_accept else Access_reject),
      rp_identifier = rp_identifier pkt, rp_length = length reply,
      rp_authenticator = en_md5 env (copy_at 4 (rp_authenticator pkt) reply @ secret),
      rp_attributes = \<lparr>ra_type = message_authenticator, ra_value = mac\<rparr> # decode_attrs c, rp_raw = reply\<rparr>"
    "verify_message_authenticator (en_hmac env) (copy_at 4 (rp_authenticator pkt) reply)
      (\<lparr>ra_type = message_authenticator, ra_value = mac\<rparr> # decode_attrs c) secret = Inr True"
    "length reply = 38 + length c" "c = concat (map encode_attr (decode_attrs c))"
    by blast
  have "drop 20 reply = concat (map encode_attr (\<lparr>ra_type = message_authenticator, ra_value = mac\<rparr> # decode_attrs c))"
  proof -
    let ?as = "\<lparr>ra_type = message_authenticator, ra_value = mac\<rparr> # decode_attrs c"
    from reply(2) have "decode_attrs (drop 20 reply) = ?as"
      by (auto simp: decode_packet_def Let_def split: if_splits)
    with decode_attrs_sound [of "drop 20 reply"] obtain junk where junk: "drop 20 reply = concat (map encode_attr ?as) @ junk"
      by auto
    have "length (concat (map encode_attr ?as)) = 18 + length c"
      using reply(1,5) by (simp add: encode_attr_def)
    with arg_cong [OF junk, of length] reply(4) have "junk = []" by simp
    with junk show ?thesis by simp
  qed
  with reply pkt(1,2) show ?thesis
    by (intro exI [of _ pkt] exI [of _ secret] exI [of _ "\<lparr>ra_type = message_authenticator, ra_value = mac\<rparr>"] exI [of _ "decode_attrs c"]) simp
qed

section \<open>A sample network\<close>

definition sample_env :: radius_env where
  "sample_env = \<lparr>en_md5 = \<lambda>x. replicate 16 0, en_hmac = \<lambda>k x. replicate 16 7, en_global_secret = [],
     en_name_eq = (=), en_slice = take, en_now = 1000, en_month = 202601, en_weekday = 1, en_time = 36000\<rparr>"

definition sample_nas :: nas_row where
  "sample_nas = \<lparr>na_id = 5, na_org = Some 1, na_ip = ''10.0.0.1'', na_secret = utf8 ''key'', na_require_ma = False,
     na_active = True, na_live = True\<rparr>"

definition sample_account :: radius_row where
  "sample_account = \<lparr>rr_id = 9, rr_org = Some 1, rr_contract = None, rr_username = utf8 ''ana'', rr_password = utf8 ''pw'',
     rr_ip = Some ''10.1.0.7'', rr_ipv6 = None, rr_ipv6_delegated = None, rr_ipv6_prefix_len = None, rr_ipv6_pool = None,
     rr_active = True, rr_live = True\<rparr>"

definition sample_net :: deployment where
  "sample_net = \<lparr>dp_primary = \<lparr>db_nas = [sample_nas], db_radius = [sample_account], db_contracts = [], db_plans = [],
     db_windows = []\<rparr>, dp_isolated = []\<rparr>"

definition sample_user_attrs :: "radius_attr list" where
  "sample_user_attrs = [\<lparr>ra_type = 1, ra_value = utf8 ''ana''\<rparr>,
     \<lparr>ra_type = 2, ra_value = encode_pap_password (en_md5 sample_env) (utf8 ''pw'') (utf8 ''key'') (replicate 16 3)\<rparr>]"

definition sample_request :: bytes where
  "sample_request = [1, 77] @ be16 43 @ replicate 16 3 @ concat (map encode_attr sample_user_attrs)"

definition sample_packet :: radius_packet where
  "sample_packet = \<lparr>rp_code = 1, rp_identifier = 77, rp_length = length sample_request, rp_authenticator = replicate 16 3,
     rp_attributes = sample_user_attrs, rp_raw = sample_request\<rparr>"

lemma sample_digests: "length (en_md5 sample_env x) = 16" "length (en_hmac sample_env k x) = 16"
  by (simp_all add: sample_env_def)

lemma sample_texts: "length (utf8 ''ana'') = 3" "length (utf8 ''pw'') = 2" "utf8 ''ana'' \<noteq> []" "utf8 ''pw'' \<noteq> []"
    "utf8 ''key'' \<noteq> []" "last (utf8 ''pw'') \<noteq> 0"
  by (simp_all add: utf8_def utf8_char_def Let_def)

lemma sample_fields: "na_org sample_nas = Some 1" "na_secret sample_nas = utf8 ''key''" "\<not> na_require_ma sample_nas"
    "rr_password sample_account = utf8 ''pw''" "rr_contract sample_account = None" "tenant_db sample_net (Some 1) = dp_primary sample_net"
    "su_row (subscriber_of env db r) = r"
  by (simp_all add: sample_nas_def sample_account_def sample_net_def tenant_db_def subscriber_of_def Let_def)

lemma sample_pap_length: "length (encode_pap_password (en_md5 sample_env) (utf8 ''pw'') s a) = 16"
proof -
  have padded: "length (pad16 (utf8 ''pw'')) = 16" by (simp add: length_pad16 sample_texts)
  then show ?thesis
    using pap_blocks [OF sample_digests(1), of "pad16 (utf8 ''pw'')"] by (simp add: encode_pap_password_def)
qed

lemma sample_decoded: "decode_packet sample_request = Inr sample_packet"
proof -
  have ok: "list_all attr_ok sample_user_attrs" and len: "length (concat (map encode_attr sample_user_attrs)) = 23"
    by (simp_all add: sample_user_attrs_def attr_ok_def encode_attr_def sample_pap_length sample_texts)
  then have "build_radius_packet 1 77 (replicate 16 3) (concat (map encode_attr sample_user_attrs)) = Inr sample_request"
    by (simp add: build_radius_packet_def copy_at_def sample_request_def)
  with build_decode [OF _ ok, of "replicate 16 3" 1 77 "[]"] len show ?thesis by (simp add: sample_packet_def)
qed

lemma sample_resolved: "resolve_nas_by_ip sample_net (Some (build_snapshot sample_net)) ''10.0.0.1'' = Some sample_nas"
  by (simp add: resolve_nas_by_ip_def build_snapshot_def sample_net_def sample_nas_def nas_usable_def is_isolated_def describe_def
      fetch_secret_def tenant_db_def)

lemma sample_authenticated:
  "authenticate sample_env sample_net sample_packet (utf8 ''key'') sample_nas =
     (Accepted, Some (subscriber_of sample_env (dp_primary sample_net) sample_account))"
proof -
  have attrs: "get_attr sample_user_attrs 1 = Some (utf8 ''ana'')"
      "get_attr sample_user_attrs 2 = Some (encode_pap_password (en_md5 sample_env) (utf8 ''pw'') (utf8 ''key'') (replicate 16 3))"
    by (simp_all add: get_attr_def sample_user_attrs_def)
  have "decode_pap_password (en_md5 sample_env) (encode_pap_password (en_md5 sample_env) (utf8 ''pw'') (utf8 ''key'') (replicate 16 3))
      (utf8 ''key'') (replicate 16 3) = Some (utf8 ''pw'')"
    by (rule pap_password_decodes [OF sample_digests(1)]) (simp add: sample_texts)
  moreover have "find_subscriber sample_env (dp_primary sample_net) (utf8 ''ana'') (Some 1) =
      Some (subscriber_of sample_env (dp_primary sample_net) sample_account)"
    by (simp add: find_subscriber_def sample_net_def sample_account_def sample_env_def may_authenticate_def joined_contract_def)
  ultimately show ?thesis
    by (simp add: authenticate_def check_credentials_def sample_packet_def attrs sample_fields sample_texts del: One_nat_def)
qed

lemma signed_packet_returns:
  assumes "\<forall>x. length (en_md5 env x) = 16" and "\<forall>k x. length (en_hmac env k x) = 16"
    and "length (rp_authenticator pkt) = 16" and "38 + length c \<le> 65535"
  shows "\<exists>reply. signed_packet env pkt secret True code (message_authenticator_placeholder @ c) = Inr reply"
  using signed_reply [OF assms, of "packet_code code" "rp_identifier pkt" secret] by (auto simp: signed_packet_def)

lemma sample_accepted:
  "\<exists>reply. handle_auth_result sample_env sample_net (Some (build_snapshot sample_net)) sample_request ''10.0.0.1'' =
     Auth_replied reply Accepted sample_nas (Some (utf8 ''ana''))"
proof -
  let ?s = "subscriber_of sample_env (dp_primary sample_net) sample_account"
  let ?c = "encode_int_attr 6 2 @ encode_int_attr 7 1 @ encode_framed_ip_address ''10.1.0.7''"
  have ip: "is_ipv4_text ''10.1.0.7''" by code_simp
  have b: "accepted_attributes sample_env sample_net sample_nas (Some ?s) = Inr (message_authenticator_placeholder @ ?c)"
    using ip by (simp add: accepted_attributes_def build_accept_attributes_def subscriber_of_def sample_account_def joined_contract_def
        plan_in_force_def find_plan_def ipv6_accept_attributes_def non_empty_def test_window_attribute_def)
  have "length ?c = 18" by (simp add: encode_int_attr_def encode_framed_ip_address_def)
  with sample_digests signed_packet_returns [of sample_env sample_packet ?c "utf8 ''key''" Access_accept] obtain reply where
    "signed_packet sample_env sample_packet (utf8 ''key'') True Access_accept (message_authenticator_placeholder @ ?c) = Inr reply"
    by (auto simp: sample_packet_def)
  moreover have "get_attr sample_user_attrs 80 = None" "get_attr sample_user_attrs 1 = Some (utf8 ''ana'')"
    by (simp_all add: get_attr_def sample_user_attrs_def)
  moreover have "secret_for sample_env (Some sample_nas) = Some (utf8 ''key'')"
    by (simp add: secret_for_def sample_fields sample_texts)
  ultimately show ?thesis
    unfolding handle_auth_result_def sample_decoded
    using sample_authenticated b
    by (simp add: sample_resolved Let_def verify_message_authenticator_def sample_packet_def sample_fields)
qed


theorem auth_reply_authentic_witness:
  "\<exists>reply p. handle_auth_result sample_env sample_net (Some (build_snapshot sample_net)) sample_request ''10.0.0.1'' =
       Auth_replied reply Accepted sample_nas (Some (utf8 ''ana'')) \<and>
     decode_packet reply = Inr p \<and> rp_code p = 2 \<and> rp_identifier p = 77"
proof -
  from sample_accepted obtain reply where accepted:
    "handle_auth_result sample_env sample_net (Some (build_snapshot sample_net)) sample_request ''10.0.0.1'' =
       Auth_replied reply Accepted sample_nas (Some (utf8 ''ana''))" by blast
  from auth_reply_authentic [OF _ _ this] sample_digests sample_decoded show ?thesis
    by (intro exI [of _ reply]) (auto simp: accepted sample_packet_def)
qed

section \<open>Every datagram is accounted for\<close>

datatype radius_event =
    Auth_msg radius_env deployment "nas_descriptor list option" nat nat bytes string
  | Acct_msg radius_env deployment "nas_descriptor list option" "acct_request \<Rightarrow> bool" nat bytes string

text \<open>One datagram, with the database and the load of its moment.\<close>

fun serve :: "radius_state \<Rightarrow> radius_event \<Rightarrow> radius_state" where
  "serve st (Auth_msg env d snapshot max_in_flight load msg source) =
     fst (handle_auth env d snapshot max_in_flight (st\<lparr>rs_in_flight := load\<rparr>) msg source)"
| "serve st (Acct_msg env d snapshot ingest load msg source) =
     fst (handle_acct env d snapshot ingest (st\<lparr>rs_in_flight := load\<rparr>) msg source)"

definition counters_balance :: "radius_counters \<Rightarrow> auth_log list \<Rightarrow> bool" where
  "counters_balance c lg \<longleftrightarrow>
     ct_auth_requests c = ct_accepts c + ct_rejects c + ct_auth_dropped c \<and>
     ct_acct_requests c = ct_acct_ingested c + ct_acct_dropped c \<and>
     ct_no_message_auth c \<le> ct_auth_dropped c \<and>
     length lg + ct_post_auth_skipped c \<le> ct_accepts c + ct_rejects c \<and>
     length (filter al_accepted lg) \<le> ct_accepts c \<and>
     length (filter (\<lambda>e. \<not> al_accepted e) lg) \<le> ct_rejects c"

lemma auth_never_fails_unread: "handle_auth_result env d snapshot msg source \<noteq> Auth_failed e None"
proof
  assume "handle_auth_result env d snapshot msg source = Auth_failed e None"
  then obtain pkt secret where "decode_packet msg = Inr pkt"
      "verify_message_authenticator (en_hmac env) (rp_raw pkt) (rp_attributes pkt) secret = Inl e"
    unfolding handle_auth_result_def Let_def
    by (auto simp del: attr_code.simps packet_code.simps split: sum.splits option.splits if_splits bool.splits prod.splits)
  with verify_decoded_returns [of msg pkt "en_hmac env" secret] show False by auto
qed

lemma acct_never_fails: "handle_acct_result env d snapshot ingest msg source \<noteq> Acct_failed e"
proof
  assume failed: "handle_acct_result env d snapshot ingest msg source = Acct_failed e"
  then obtain pkt secret where pkt: "decode_packet msg = Inr pkt"
      "compute_request_authenticator (en_md5 env) (rp_raw pkt) secret = Inl e \<or>
       signed_packet env pkt secret False Accounting_response [] = Inl e"
    unfolding handle_acct_result_def Let_def
    by (auto simp del: attr_code.simps packet_code.simps split: sum.splits option.splits if_splits)
  from pkt(1) have "20 \<le> length (rp_raw pkt)"
    by (auto simp: decode_packet_def Let_def split: if_splits)
  with pkt(2) show False
    by (auto simp: compute_request_authenticator_def zero_fill_def signed_packet_def build_radius_packet_def
        sign_response_def Let_def bind_r_Inl_conv)
qed

lemma balance_counted:
  "counters_balance c lg \<Longrightarrow> counters_balance (count_decision reason (c\<lparr>ct_auth_requests := ct_auth_requests c + 1\<rparr>)) lg"
  by (simp add: counters_balance_def count_decision_def)

lemma balance_serve [step_inv]:
  assumes "counters_balance (rs_counters st) (rs_log st)"
  shows "counters_balance (rs_counters (serve st e)) (rs_log (serve st e))"
proof (cases e)
  case (Auth_msg env d snapshot max_in_flight load msg source)
  show ?thesis
  proof (cases "handle_auth_result env d snapshot msg source")
    case (Auth_dropped why)
    with assms Auth_msg show ?thesis by (simp add: handle_auth_def counters_balance_def Let_def)
  next
    case (Auth_failed err decision)
    with auth_never_fails_unread obtain reason where "decision = Some reason" by (cases decision) auto
    with Auth_failed assms Auth_msg show ?thesis by (simp add: handle_auth_def count_decision_def counters_balance_def Let_def)
  next
    case (Auth_replied reply reason nas username)
    with assms Auth_msg show ?thesis
      by (simp add: handle_auth_def count_decision_def counters_balance_def log_entry_def Let_def)
  qed
next
  case (Acct_msg env d snapshot ingest load msg source)
  show ?thesis
  proof (cases "handle_acct_result env d snapshot ingest msg source")
    case (Acct_failed err)
    with acct_never_fails show ?thesis by blast
  qed (use assms Acct_msg in \<open>simp_all add: handle_acct_def counters_balance_def Let_def\<close>)
qed

interpretation radius: step_system serve "\<lambda>st. counters_balance (rs_counters st) (rs_log st)"
  by unfold_locales (rule balance_serve)

definition zero_counters :: radius_counters where
  "zero_counters = \<lparr>ct_auth_requests = 0, ct_accepts = 0, ct_rejects = 0, ct_auth_dropped = 0, ct_acct_requests = 0,
     ct_acct_ingested = 0, ct_acct_dropped = 0, ct_no_message_auth = 0, ct_post_auth_skipped = 0\<rparr>"

text \<open>Every datagram is accounted for. After any sequence of authentication and accounting datagrams,
  whatever they hold and whatever the databases were at the time, each authentication request was
  counted exactly once as accepted, rejected or dropped, each accounting request exactly once as
  ingested or dropped (no exception leaves a request uncounted), and the outcome log holds no more
  accepted entries than there were accepts and no more rejected ones than there were rejects.\<close>

theorem requests_accounted:
  "counters_balance
     (rs_counters (foldl serve \<lparr>rs_counters = zero_counters, rs_log = [], rs_in_flight = 0\<rparr> events))
     (rs_log (foldl serve \<lparr>rs_counters = zero_counters, rs_log = [], rs_in_flight = 0\<rparr> events))"
  by (rule radius.run_keeps) (simp add: counters_balance_def zero_counters_def)

section \<open>Rates and prefixes\<close>

text \<open>The two bandwidth attributes of a plan without a vendor hold the rate modulo \<open>2 ^ 32\<close>: a plan of
  4295 Mbps or more is shaped far below its rate.\<close>

lemma js_trim_digits: "s \<noteq> [] \<Longrightarrow> list_all is_digit s \<Longrightarrow> js_trim s = s"
  by (rule js_trim_id) (auto simp: list_all_iff digit_not_ws)

lemma uint32_show_nat: "uint32_text (show_nat n) = of_nat n"
  by (simp add: uint32_text_def js_trim_digits show_nat_digits)

lemma generic_rate_wraps:
  "encode_wispr_bandwidth 8 (show_nat (dl * 1000000)) = Inr ([26, 12] @ be32 14122 @ [8, 6] @ be32 (of_nat (dl * 1000000)))"
  "unat (of_nat (dl * 1000000) :: 32 word) = dl * 1000000 \<longleftrightarrow> dl \<le> 4294"
  "unat (of_nat (5000 * 1000000) :: 32 word) = 705032704"
proof -
  show "encode_wispr_bandwidth 8 (show_nat (dl * 1000000)) = Inr ([26, 12] @ be32 14122 @ [8, 6] @ be32 (of_nat (dl * 1000000)))"
    by (simp add: encode_wispr_bandwidth_def encode_vsa_def uint32_show_nat del: of_nat_mult)
  have "dl * 1000000 < 2 ^ 32 \<longleftrightarrow> dl \<le> 4294" by (simp, arith)
  then show "unat (of_nat (dl * 1000000) :: 32 word) = dl * 1000000 \<longleftrightarrow> dl \<le> 4294"
    using mod_less_divisor [of "2 ^ 32" "dl * 1000000"] by (auto simp: unat_of_nat simp del: of_nat_mult mod_less_divisor)
  show "unat (of_nat (5000 * 1000000) :: 32 word) = 705032704" unfolding unat_of_nat by simp
qed

text \<open>A delegated prefix without a length, and no length in its own column, is sent as a prefix of
  length 0: the whole address space.\<close>

lemma delegated_length_zero:
  assumes "ipv6_bytes (hd (js_split (CHR ''/'') p)) = Some b" and "CHR ''/'' \<notin> set p"
  shows "encode_ipv6_prefix_attr (attr_code Delegated_ipv6_prefix) (hd (js_split (CHR ''/'') p))
    (delegated_length (js_split (CHR ''/'') p) None) = Some [123, 4, 0, 0]"
  using assms by (simp add: encode_ipv6_prefix_attr_def delegated_length_def js_split_fresh prefix_body_def Let_def)

end
