(* ===== verification/Radius_Ingress.thy ===== *)
theory Radius_Ingress
  imports Vb_Prelude Complex_Main
begin

text \<open>
  The ingress bounds of the embedded RADIUS server (\<open>src/src/services/radiusServerService.js\<close>,
  \<open>bucketIndex\<close>, \<open>takeSourceToken\<close> and \<open>admit\<close>): token buckets by source address in a table of fixed
  size, and a cap on the datagrams in flight. Tokens are rational numbers: the rounding of the
  floating-point sums is not modelled.
\<close>

unbundle bit_operations_syntax

section \<open>State\<close>

record ingress_limits =
  li_max_in_flight :: nat
  li_rate :: nat
  li_burst :: nat

record bucket =
  bk_tokens :: rat
  bk_at :: int

record ingress =
  ig_in_flight :: nat
  ig_buckets :: "nat \<Rightarrow> bucket option"
  ig_dropped_rate :: nat
  ig_dropped_overload :: nat
  ig_admitted :: nat


section \<open>Operations\<close>








definition saturated :: "ingress_limits \<Rightarrow> ingress \<Rightarrow> bool" where
  "saturated li g \<longleftrightarrow> li_max_in_flight li \<le> 2 * ig_in_flight g"

section \<open>The cap\<close>



section \<open>The rate\<close>














end
