(* ===== verification/Utc_Time.thy ===== *)
theory Utc_Time
  imports Vb_Prelude
begin

text \<open>
  Instants, UTC days and calendar months, as \<open>Date\<close> of the JavaScript standard library has them. An
  instant is the number of milliseconds since 1970-01-01T00:00Z, a day the number of days since then,
  and a month the number of months since January 1970 (\<open>toISOString().slice(0, 10)\<close> and
  \<open>slice(0, 7)\<close> name them). Instants before 1970 are outside the model.
\<close>

definition ms_per_day :: int where
  "ms_per_day = 86400000"

definition utc_day :: "int \<Rightarrow> nat" where
  "utc_day t = nat (t div ms_per_day)"

definition leap_year :: "nat \<Rightarrow> bool" where
  "leap_year y \<longleftrightarrow> y mod 4 = 0 \<and> (y mod 100 \<noteq> 0 \<or> y mod 400 = 0)"

definition month_days :: "nat \<Rightarrow> nat" where
  "month_days m =
     (let k = m mod 12 in
      if k = 1 then (if leap_year (1970 + m div 12) then 29 else 28)
      else if k \<in> {3, 5, 8, 10} then 30 else 31)"

lemma month_days_pos: "0 < month_days m"
  by (simp add: month_days_def Let_def)

text \<open>The first day of a month, and the month of a day counted from the first day of month \<open>m\<close>.\<close>

primrec month_start :: "nat \<Rightarrow> nat" where
  "month_start 0 = 0"
| "month_start (Suc m) = month_start m + month_days m"

function month_from :: "nat \<Rightarrow> nat \<Rightarrow> nat" where
  "month_from m d = (if d < month_days m then m else month_from (Suc m) (d - month_days m))"
  by pat_completeness auto

termination
proof (relation "measure snd", goal_cases)
  case 1
  show ?case by simp
next
  case (2 m d)
  then show ?case using month_days_pos [of m] by simp
qed

declare month_from.simps [simp del]

definition utc_month :: "int \<Rightarrow> nat" where
  "utc_month t = month_from 0 (utc_day t)"

text \<open>\<open>new Date(`${utcMonth(t)}-01T00:00:00.000Z`)\<close>.\<close>

definition month_start_ms :: "nat \<Rightarrow> int" where
  "month_start_ms m = int (month_start m) * ms_per_day"

lemma month_from_bounds:
  "month_start (month_from m d) \<le> month_start m + d \<and> month_start m + d < month_start (Suc (month_from m d))"
proof (induction m d rule: month_from.induct)
  case (1 m d)
  show ?case
  proof (cases "d < month_days m")
    case True
    then show ?thesis by (simp add: month_from.simps [of m d])
  next
    case False
    then have "month_start m + d = month_start (Suc m) + (d - month_days m)"
        "month_from m d = month_from (Suc m) (d - month_days m)" by (simp_all add: month_from.simps [of m d])
    with 1 [OF False] show ?thesis by (simp only:)
  qed
qed

lemma utc_month_bounds: "month_start (utc_month t) \<le> utc_day t \<and> utc_day t < month_start (Suc (utc_month t))"
  using month_from_bounds [of 0 "utc_day t"] by (simp add: utc_month_def)

lemma month_start_mono: "m \<le> n \<Longrightarrow> month_start m \<le> month_start n"
  by (induction rule: dec_induct) auto

lemma month_start_less: "m < n \<Longrightarrow> month_start m < month_start n"
  using month_start_mono [of "Suc m" n] month_days_pos [of m] by simp

text \<open>A day belongs to one month only.\<close>

lemma utc_month_eq: "month_start m \<le> utc_day t \<Longrightarrow> utc_day t < month_start (Suc m) \<Longrightarrow> utc_month t = m"
  using utc_month_bounds [of t] month_start_mono [of "Suc m" "utc_month t"] month_start_mono [of "Suc (utc_month t)" m]
  by (cases "utc_month t" m rule: linorder_cases) auto

lemma utc_month_mono: "s \<le> t \<Longrightarrow> utc_month s \<le> utc_month t"
proof (rule ccontr)
  assume "s \<le> t" and "\<not> utc_month s \<le> utc_month t"
  then have "month_start (Suc (utc_month t)) \<le> month_start (utc_month s)" by (intro month_start_mono) simp
  moreover have "utc_day s \<le> utc_day t" using \<open>s \<le> t\<close> by (simp add: utc_day_def ms_per_day_def nat_mono zdiv_mono1)
  ultimately show False using utc_month_bounds [of s] utc_month_bounds [of t] by simp
qed

lemma utc_same_day_month: "utc_day s = utc_day t \<Longrightarrow> utc_month s = utc_month t"
  by (simp add: utc_month_def)

lemma month_start_ms_le: "0 \<le> t \<Longrightarrow> month_start_ms (utc_month t) \<le> t"
proof -
  assume "0 \<le> t"
  then have "int (utc_day t) = t div ms_per_day" by (simp add: utc_day_def ms_per_day_def pos_imp_zdiv_nonneg_iff)
  with utc_month_bounds [of t] have "int (month_start (utc_month t)) \<le> t div ms_per_day" by linarith
  then have "int (month_start (utc_month t)) * ms_per_day \<le> t div ms_per_day * ms_per_day"
    by (simp add: ms_per_day_def)
  also have "\<dots> \<le> t"
    using minus_mod_eq_div_mult [of t ms_per_day] pos_mod_sign [of ms_per_day t] by (simp add: ms_per_day_def)
  finally show ?thesis by (simp add: month_start_ms_def)
qed

end
