(* ===== verification/Radius_Accounting.thy ===== *)
theory Radius_Accounting
  imports Ip_Canonical Utc_Time Float64
begin

text \<open>
  The session store behind RADIUS accounting (\<open>services/radiusAccountingService.js\<close>): Start,
  Interim-Update and Stop records become rows of \<open>connection_logs\<close>, one per access session, and the
  growth of a session's counters becomes the daily usage rows that overage, fair use and rollover
  are computed from.

  Attributes arrive as the two callers normalise them: texts, and counters that are whole numbers.
  The comparison of texts in SQL, which ignores case, and the settings are parameters. A record is
  taken under the lock of its subscriber and in one transaction, so a step of the model is one
  record and an error leaves the tables as they were. The provenance columns of the receipts, the
  triggers (evidence rows, tenant check) and the disconnection of an older session of the same
  contract are left out.
\<close>

section \<open>Values\<close>

datatype usage_field = Bytes_in | Bytes_out | Packets_in | Packets_out | Duration

definition usage_fields :: "usage_field list" where
  "usage_fields = [Bytes_in, Bytes_out, Packets_in, Packets_out, Duration]"

type_synonym counters = "usage_field \<Rightarrow> int option"

datatype acct_event = Start | Interim | Stop

datatype acct_error =
    Invalid string
  | Nas_unresolved
  | Conflict string
  | Null_column string

definition max_safe :: int where
  "max_safe = 2 ^ 53 - 1"

definition or_zero :: "int option \<Rightarrow> int" where
  "or_zero x = (case x of None \<Rightarrow> 0 | Some n \<Rightarrow> n)"

text \<open>\<open>value && \<dots>\<close> for a text.\<close>

definition truthy :: "string option \<Rightarrow> bool" where
  "truthy x \<longleftrightarrow> x \<noteq> None \<and> x \<noteq> Some []"

definition coalesce :: "'a option \<Rightarrow> 'a option \<Rightarrow> 'a option" where
  "coalesce x y = (case x of None \<Rightarrow> y | Some _ \<Rightarrow> x)"

definition combine_octets_gigawords :: "int option \<Rightarrow> int option \<Rightarrow> acct_error + int" where
  "combine_octets_gigawords octets gigawords =
     (let o' = or_zero octets; g = or_zero gigawords; total = o' + g * 4294967296 in
      if o' < 0 \<or> max_safe < o' \<or> g < 0 \<or> max_safe < g then Inl (Invalid ''RADIUS counters'')
      else if max_safe < total then Inl (Invalid ''Combined RADIUS octet counter'') else Inr total)"

datatype ip_stack = Ipv4 | Ipv6 | Dual

definition derive_stack_type :: "string option \<Rightarrow> string option \<Rightarrow> ip_stack option" where
  "derive_stack_type framed_ip framed_ipv6 =
     (if truthy framed_ip \<and> truthy framed_ipv6 then Some Dual
      else if truthy framed_ipv6 then Some Ipv6 else if truthy framed_ip then Some Ipv4 else None)"

text \<open>An event time: missing, a whole number, the date of an ISO text (\<open>None\<close> when it is no date), or
  anything else.\<close>

datatype event_time = No_time | Epoch int | Iso "int option" | Bad_time

record acct_config =
  ag_name_eq :: "string \<Rightarrow> string \<Rightarrow> bool"
  ag_skew :: "int option"
  ag_liveness :: "int option"

definition setting :: "int option \<Rightarrow> int \<Rightarrow> int \<Rightarrow> int \<Rightarrow> int" where
  "setting value fallback lo hi =
     min (max (case value of None \<Rightarrow> fallback | Some n \<Rightarrow> if n = 0 then fallback else n) lo) hi"

definition future_skew :: "acct_config \<Rightarrow> int" where
  "future_skew g = setting (ag_skew g) 300 0 3600"

definition session_liveness_minutes :: "acct_config \<Rightarrow> int" where
  "session_liveness_minutes g = setting (ag_liveness g) 60 1 1440"

definition max_timestamp :: int where
  "max_timestamp = 2147483647000"

definition normalize_event_timestamp :: "acct_config \<Rightarrow> int \<Rightarrow> event_time \<Rightarrow> acct_error + int" where
  "normalize_event_timestamp g now value =
     (let check = (\<lambda>t. if t < 0 \<or> max_timestamp < t \<or> now + future_skew g * 1000 < t
                       then Inl (Invalid ''Event-Timestamp'') else Inr t) in
      case value of
        No_time \<Rightarrow> Inr now
      | Epoch n \<Rightarrow> check (if n < 100000000000 then n * 1000 else n)
      | Iso None \<Rightarrow> Inl (Invalid ''Event-Timestamp'')
      | Iso (Some t) \<Rightarrow> check t
      | Bad_time \<Rightarrow> Inl (Invalid ''Event-Timestamp''))"

definition terminate_causes :: "string list" where
  "terminate_causes =
     [''User-Request'', ''Lost-Carrier'', ''Lost-Service'', ''Idle-Timeout'', ''Session-Timeout'', ''Admin-Reset'',
      ''Admin-Reboot'', ''Port-Error'', ''NAS-Error'', ''NAS-Request'', ''NAS-Reboot'', ''Port-Unneeded'',
      ''Port-Preempted'', ''Port-Suspended'', ''Service-Unavailable'', ''Callback'', ''User-Error'', ''Host-Request'']"

text \<open>\<open>String(value).trim() === String(Number(value))\<close> for a whole number; numbers past \<open>2 ^ 53\<close> are
  outside the model.\<close>

definition whole_number_text :: "string \<Rightarrow> int option" where
  "whole_number_text t =
     (let ds = (if t \<noteq> [] \<and> hd t = CHR ''-'' then tl t else t) in
      if ds \<noteq> [] \<and> list_all is_digit ds \<and> show_nat (digits_val ds) = ds \<and> t \<noteq> ''-0'' then
        Some (if ds = t then int (digits_val ds) else - int (digits_val ds))
      else None)"

definition normalize_terminate_cause :: "string option \<Rightarrow> acct_error + string option" where
  "normalize_terminate_cause value =
     (if \<not> truthy value then Inr None
      else
        (let t = js_trim (the value) in
         case whole_number_text t of
           Some n \<Rightarrow>
             if 1 \<le> n \<and> n \<le> 18 then Inr (Some (terminate_causes ! nat (n - 1))) else Inr (Some (''Code-'' @ t))
         | None \<Rightarrow> if t = [] \<or> 64 < length t then Inl (Invalid ''Acct-Terminate-Cause'') else Inr (Some t)))"

section \<open>Usage deltas\<close>

datatype usage_reason =
    Nonzero_start_baseline
  | Missing_start_baseline
  | Counter_reset
  | Month_boundary_estimate
  | Daily_allocation_estimate

record usage_delta =
  ud_deltas :: "usage_field \<Rightarrow> int"
  ud_complete :: bool
  ud_reason :: "usage_reason option"
  ud_session_anomalies :: nat
  ud_crosses_month :: bool
  ud_previous_at :: "int option"

definition field_delta :: "int option \<Rightarrow> int option \<Rightarrow> int" where
  "field_delta prior next' =
     (case (prior, next') of (Some p, Some n) \<Rightarrow> if n < p then 0 else n - p | _ \<Rightarrow> 0)"

definition field_reset :: "usage_field \<Rightarrow> int option \<Rightarrow> int option \<Rightarrow> bool" where
  "field_reset f prior next' \<longleftrightarrow>
     (case next' of
        None \<Rightarrow> False
      | Some n \<Rightarrow> (case prior of None \<Rightarrow> f = Bytes_in \<or> f = Bytes_out | Some p \<Rightarrow> n < p))"

definition calculate_usage_delta ::
    "counters \<Rightarrow> counters \<Rightarrow> int option \<Rightarrow> int \<Rightarrow> bool \<Rightarrow> usage_reason option \<Rightarrow> bool \<Rightarrow> usage_delta" where
  "calculate_usage_delta previous current previous_at event_at prior_complete baseline initialize =
     (let deltas = (\<lambda>f. if initialize then 0 else field_delta (previous f) (current f));
          reset = (\<not> initialize \<and> list_ex (\<lambda>f. field_reset f (previous f) (current f)) usage_fields);
          day = (case previous_at of None \<Rightarrow> False | Some p \<Rightarrow> utc_day p \<noteq> utc_day event_at);
          month = (case previous_at of None \<Rightarrow> False | Some p \<Rightarrow> utc_month p \<noteq> utc_month event_at)
      in \<lparr>ud_deltas = deltas, ud_complete = (prior_complete \<and> baseline = None \<and> \<not> reset),
          ud_reason = (if baseline \<noteq> None then baseline else if reset then Some Counter_reset
            else if month then Some Month_boundary_estimate else if day then Some Daily_allocation_estimate else None),
          ud_session_anomalies = (if baseline \<noteq> None \<or> reset then 1 else 0),
          ud_crosses_month = month, ud_previous_at = previous_at\<rparr>)"

definition split_share :: "int \<Rightarrow> int \<Rightarrow> rat" where
  "split_share from to =
     (if from < to
      then min 1 (max 0 (fl_div (of_int (month_start_ms (utc_month to) - from)) (of_int (to - from))))
      else 0)"

definition split_at_month_start :: "(usage_field \<Rightarrow> int) \<Rightarrow> int \<Rightarrow> int \<Rightarrow>
    (usage_field \<Rightarrow> int) \<times> (usage_field \<Rightarrow> int)" where
  "split_at_month_start deltas from to =
     (let before = (\<lambda>f. \<lfloor>fl_mul (of_int (deltas f)) (split_share from to)\<rfloor>)
      in (before, \<lambda>f. deltas f - before f))"

text \<open>A row of \<open>radius_accounting_usage_daily\<close>; organization, day and session instance are its key.\<close>

record usage_row =
  du_org :: int
  du_day :: nat
  du_instance :: nat
  du_log :: nat
  du_contract :: "nat option"
  du_client :: "nat option"
  du_nas :: "nat option"
  du_username :: string
  du_deltas :: "usage_field \<Rightarrow> int"
  du_complete :: bool
  du_anomalies :: nat
  du_reason :: "usage_reason option"
  du_first_at :: int
  du_last_at :: int

definition usage_key :: "usage_row \<Rightarrow> int \<times> nat \<times> nat" where
  "usage_key u = (du_org u, du_day u, du_instance u)"

definition merge_usage :: "usage_row \<Rightarrow> usage_row \<Rightarrow> usage_row" where
  "merge_usage u new = u\<lparr>
     du_log := du_log new,
     du_contract := coalesce (du_contract new) (du_contract u),
     du_client := coalesce (du_client new) (du_client u),
     du_nas := coalesce (du_nas new) (du_nas u),
     du_deltas := (\<lambda>f. du_deltas u f + du_deltas new f),
     du_complete := du_complete u \<and> du_complete new,
     du_anomalies := du_anomalies u + du_anomalies new,
     du_reason := coalesce (du_reason new) (du_reason u),
     du_first_at := min (du_first_at u) (du_first_at new),
     du_last_at := max (du_last_at u) (du_last_at new)\<rparr>"

fun upsert_usage :: "usage_row \<Rightarrow> usage_row list \<Rightarrow> usage_row list" where
  "upsert_usage new [] = [new]"
| "upsert_usage new (u # us) =
     (if usage_key u = usage_key new then merge_usage u new # us else u # upsert_usage new us)"

text \<open>What a usage row says of its session; \<open>contractId || null\<close> and the like turn a 0 into a null.\<close>

record usage_owner =
  uo_org :: int
  uo_instance :: nat
  uo_log :: nat
  uo_contract :: nat
  uo_client :: nat
  uo_nas :: "nat option"
  uo_username :: string

definition nonzero :: "nat \<Rightarrow> nat option" where
  "nonzero n = (if n = 0 then None else Some n)"

definition usage_row_of :: "usage_owner \<Rightarrow> nat \<Rightarrow> (usage_field \<Rightarrow> int) \<Rightarrow> bool \<Rightarrow> usage_reason option \<Rightarrow> nat \<Rightarrow> int \<Rightarrow> usage_row" where
  "usage_row_of w day deltas whole reason anomaly event_at =
     \<lparr>du_org = uo_org w, du_day = day, du_instance = uo_instance w, du_log = uo_log w,
      du_contract = nonzero (uo_contract w), du_client = nonzero (uo_client w),
      du_nas = Option.bind (uo_nas w) nonzero, du_username = uo_username w, du_deltas = deltas, du_complete = whole,
      du_anomalies = anomaly, du_reason = reason, du_first_at = event_at, du_last_at = event_at\<rparr>"

definition record_usage_delta :: "usage_owner \<Rightarrow> int \<Rightarrow> usage_delta \<Rightarrow> usage_row list \<Rightarrow> usage_row list" where
  "record_usage_delta w event_at u us =
     (let anomaly = (if ud_reason u = None then 0 else 1) in
      if list_all (\<lambda>f. ud_deltas u f = 0) usage_fields \<and> ud_reason u = None then us
      else case (ud_crosses_month u, ud_previous_at u) of
        (True, Some p) \<Rightarrow>
          (case split_at_month_start (ud_deltas u) p event_at of (before, after) \<Rightarrow>
             upsert_usage (usage_row_of w (utc_day event_at) after (ud_complete u) (ud_reason u) anomaly event_at)
               (upsert_usage (usage_row_of w (utc_day (month_start_ms (utc_month event_at) - 1)) before (ud_complete u)
                 (Some Month_boundary_estimate) 1 p) us))
      | _ \<Rightarrow> upsert_usage (usage_row_of w (utc_day event_at) (ud_deltas u) (ud_complete u) (ud_reason u) anomaly event_at) us)"


section \<open>Tables\<close>

record acct_nas =
  an_id :: nat
  an_org :: int
  an_ip :: string
  an_active :: bool
  an_live :: bool

record acct_account =
  aa_id :: nat
  aa_org :: int
  aa_username :: string
  aa_live :: bool
  aa_contract :: "nat option"
  aa_client :: nat

text \<open>A row of \<open>connection_logs\<close>: one access session. \<open>se_raw\<close> holds the counters the usage deltas are
  taken from, \<open>se_counters\<close> the largest values seen.\<close>

record session =
  se_id :: nat
  se_org :: int
  se_contract :: nat
  se_client :: nat
  se_nas :: "nat option"
  se_nas_ip :: string
  se_username :: string
  se_acct_id :: "string option"
  se_session_id :: "string option"
  se_instance :: "nat option"
  se_port :: "string option"
  se_called :: "string option"
  se_calling :: "string option"
  se_framed_ip :: "string option"
  se_framed6 :: "string option"
  se_delegated6 :: "string option"
  se_address6 :: "string option"
  se_event :: acct_event
  se_started :: int
  se_counters :: counters
  se_cause :: "string option"
  se_in6 :: "int option"
  se_out6 :: "int option"
  se_stack :: "ip_stack option"
  se_last_at :: "int option"
  se_received :: "int option"
  se_delay :: "int option"
  se_evidence :: bool
  se_evidence_reason :: "string option"
  se_complete :: bool
  se_anomalies :: nat
  se_raw :: counters

record mac_move =
  mv_org :: int
  mv_username :: string
  mv_old_mac :: "string option"
  mv_new_mac :: "string option"
  mv_old_nas :: "nat option"
  mv_new_nas :: nat
  mv_at :: int

datatype acct_action = Insert | Update | Noop

record acct_db =
  ad_nas :: "acct_nas list"
  ad_accounts :: "acct_account list"
  ad_sessions :: "session list"
  ad_usage :: "usage_row list"
  ad_moves :: "mac_move list"
  ad_receipts :: "(acct_event \<times> acct_action) list"
  ad_next :: nat

record acct_result =
  ar_action :: acct_action
  ar_id :: nat
  ar_mac_move :: bool
  ar_instance :: "nat option"

text \<open>\<open>event_at\<close> is a \<open>TIMESTAMP\<close> without a fraction: MySQL rounds to whole seconds.\<close>

definition mysql_seconds :: "int \<Rightarrow> int" where
  "mysql_seconds t = (t + 500) div 1000 * 1000"

section \<open>Validation\<close>

record acct_attrs =
  at_status :: string
  at_user :: "string option"
  at_session :: "string option"
  at_nas_ip :: "string option"
  at_port :: "string option"
  at_called :: "string option"
  at_calling :: "string option"
  at_framed_ip :: "string option"
  at_framed6 :: "string option"
  at_delegated6 :: "string option"
  at_address6 :: "string option"
  at_in_octets :: "int option"
  at_out_octets :: "int option"
  at_in_giga :: "int option"
  at_out_giga :: "int option"
  at_seconds :: "int option"
  at_cause :: "string option"
  at_in6 :: "int option"
  at_out6 :: "int option"
  at_in_packets :: "int option"
  at_out_packets :: "int option"
  at_time :: event_time
  at_delay :: "int option"
  at_org :: int
  at_nas :: "nat option"

text \<open>What validation makes of the attributes: the NAS and the account found, the counters with their
  gigawords, the time of the event. The contract is \<open>None\<close> for an account without one, which is not
  the 0 of an unknown user name.\<close>

record acct_packet =
  ap_org :: int
  ap_nas :: nat
  ap_nas_ip :: string
  ap_contract :: "nat option"
  ap_client :: nat
  ap_user :: string
  ap_session :: string
  ap_port :: "string option"
  ap_called :: "string option"
  ap_calling :: "string option"
  ap_framed_ip :: "string option"
  ap_framed6 :: "string option"
  ap_delegated6 :: "string option"
  ap_address6 :: "string option"
  ap_counters :: counters
  ap_in6 :: "int option"
  ap_out6 :: "int option"
  ap_stack :: "ip_stack option"
  ap_delay :: int
  ap_at :: int
  ap_explicit :: bool
  ap_cause :: "string option"
  ap_event :: acct_event

definition required_text :: "string \<Rightarrow> nat \<Rightarrow> string option \<Rightarrow> acct_error + string" where
  "required_text field maximum value =
     (case value of
        None \<Rightarrow> Inl (Invalid field)
      | Some s \<Rightarrow> if js_trim s = [] \<or> maximum < length s then Inl (Invalid field) else Inr s)"

definition prefix_attr :: "string \<Rightarrow> string option \<Rightarrow> acct_error + string option" where
  "prefix_attr field value =
     (if \<not> truthy value then Inr None
      else case canonical_ipv6_prefix (the value) of None \<Rightarrow> Inl (Invalid field) | Some p \<Rightarrow> Inr (Some p))"

text \<open>A zone passes the first test and makes \<open>canonicalIpv6\<close> throw: an error as well.\<close>

definition address_attr :: "string option \<Rightarrow> acct_error + string option" where
  "address_attr value =
     (if \<not> truthy value then Inr None
      else case canonical_ipv6 (the value) of None \<Rightarrow> Inl (Invalid ''Framed-IPv6-Address'') | Some a \<Rightarrow> Inr (Some a))"

fun optional_texts :: "(string \<times> string option \<times> nat) list \<Rightarrow> acct_error + unit" where
  "optional_texts [] = Inr ()"
| "optional_texts ((field, value, maximum) # vs) =
     (case value of
        Some s \<Rightarrow> if maximum < length s then Inl (Invalid field) else optional_texts vs
      | None \<Rightarrow> optional_texts vs)"

fun check_counters :: "(string \<times> int option \<times> int) list \<Rightarrow> acct_error + unit" where
  "check_counters [] = Inr ()"
| "check_counters ((field, value, maximum) # vs) =
     (case value of
        Some n \<Rightarrow> if n < 0 \<or> maximum < n then Inl (Invalid field) else check_counters vs
      | None \<Rightarrow> check_counters vs)"

definition normalize_ip :: "string \<Rightarrow> string" where
  "normalize_ip value =
     (if is_ip value = 6 then (case canonical_ipv6 value of None \<Rightarrow> value | Some c \<Rightarrow> c) else value)"

text \<open>The live NAS of the tenant, joined with the live accounts of the user name: one row, or none.\<close>

definition resolve_accounting ::
    "acct_config \<Rightarrow> acct_db \<Rightarrow> int \<Rightarrow> nat option \<Rightarrow> string \<Rightarrow> string \<Rightarrow> acct_error + acct_nas \<times> acct_account option" where
  "resolve_accounting g db org nas_id nas_ip user =
     (let nases = filter (\<lambda>n. an_org n = org \<and> an_active n \<and> an_live n \<and>
            (case nas_id of None \<Rightarrow> ag_name_eq g (an_ip n) nas_ip | Some i \<Rightarrow> an_id n = i)) (ad_nas db);
          accounts = filter (\<lambda>a. ag_name_eq g (aa_username a) user \<and> aa_org a = org \<and> aa_live a) (ad_accounts db);
          rows = concat (map (\<lambda>n. if accounts = [] then [(n, None)] else map (\<lambda>a. (n, Some a)) accounts) nases)
      in case rows of
        [(n, a)] \<Rightarrow>
          if nas_id \<noteq> None \<and> normalize_ip (an_ip n) \<noteq> normalize_ip nas_ip then Inl Nas_unresolved else Inr (n, a)
      | _ \<Rightarrow> Inl Nas_unresolved)"

definition octet_counter :: "int option \<Rightarrow> int option \<Rightarrow> acct_error + int option" where
  "octet_counter octets gigawords =
     (if octets = None \<and> gigawords = None then Inr None
      else bind_r (combine_octets_gigawords octets gigawords) (\<lambda>n. Inr (Some n)))"

definition status_event :: "string \<Rightarrow> acct_event option" where
  "status_event s =
     (if s = ''Start'' then Some Start else if s = ''Stop'' then Some Stop
      else if s = ''Interim-Update'' then Some Interim else None)"

definition observed_at :: "acct_config \<Rightarrow> int \<Rightarrow> acct_attrs \<Rightarrow> acct_error + int" where
  "observed_at g now a =
     bind_r (if at_time a = No_time then Inr (now - or_zero (at_delay a) * 1000)
             else normalize_event_timestamp g now (at_time a))
       (\<lambda>t. if t < 0 \<or> (case at_seconds a of None \<Rightarrow> False | Some s \<Rightarrow> t - s * 1000 < 0)
            then Inl (Invalid ''Acct-Session-Time'') else Inr t)"

definition numeric_attrs :: "acct_attrs \<Rightarrow> (string \<times> int option \<times> int) list" where
  "numeric_attrs a =
     [(''acctInputOctets'', at_in_octets a, max_safe), (''acctOutputOctets'', at_out_octets a, max_safe),
      (''acctInputGigawords'', at_in_giga a, max_safe), (''acctOutputGigawords'', at_out_giga a, max_safe),
      (''acctInputPackets'', at_in_packets a, max_safe), (''acctOutputPackets'', at_out_packets a, max_safe),
      (''acctSessionTime'', at_seconds a, 0xffffffff), (''acctDelayTime'', at_delay a, 0xffffffff),
      (''acctInputOctetsV6'', at_in6 a, max_safe), (''acctOutputOctetsV6'', at_out6 a, max_safe)]"

definition packet_counters :: "int option \<Rightarrow> int option \<Rightarrow> acct_attrs \<Rightarrow> counters" where
  "packet_counters bytes_in bytes_out a =
     case_usage_field bytes_in bytes_out (at_in_packets a) (at_out_packets a) (at_seconds a)"

definition read_packet :: "acct_config \<Rightarrow> acct_db \<Rightarrow> int \<Rightarrow> acct_attrs \<Rightarrow> acct_error + acct_packet" where
  "read_packet g db now a =
     (if at_org a \<le> 0 \<or> max_safe < at_org a then Inl (Invalid ''organization'')
      else
        bind_r (required_text ''userName'' 64 (at_user a)) (\<lambda>user.
        bind_r (required_text ''acctSessionId'' 64 (at_session a)) (\<lambda>session_id.
        bind_r (required_text ''nasIpAddress'' 45 (at_nas_ip a)) (\<lambda>nas_ip.
        bind_r (if is_ip nas_ip = 0 then Inl (Invalid ''NAS-IP-Address'') else Inr ()) (\<lambda>_.
        bind_r (prefix_attr ''Framed-IPv6-Prefix'' (at_framed6 a)) (\<lambda>framed6.
        bind_r (prefix_attr ''Delegated-IPv6-Prefix'' (at_delegated6 a)) (\<lambda>delegated6.
        bind_r (address_attr (at_address6 a)) (\<lambda>address6.
        bind_r (optional_texts [(''nasPortId'', at_port a, 100), (''calledStationId'', at_called a, 100),
            (''callingStationId'', at_calling a, 100), (''framedIpv6Prefix'', framed6, 64)]) (\<lambda>_.
        bind_r (if truthy (at_framed_ip a) \<and> is_ip (the (at_framed_ip a)) \<noteq> 4 then Inl (Invalid ''Framed-IP-Address'')
                else Inr ()) (\<lambda>_.
        bind_r (check_counters (numeric_attrs a)) (\<lambda>_.
        bind_r (resolve_accounting g db (at_org a) (at_nas a) nas_ip user) (\<lambda>(n, account).
        bind_r (octet_counter (at_in_octets a) (at_in_giga a)) (\<lambda>bytes_in.
        bind_r (octet_counter (at_out_octets a) (at_out_giga a)) (\<lambda>bytes_out.
        bind_r (observed_at g now a) (\<lambda>t.
        bind_r (normalize_terminate_cause (at_cause a)) (\<lambda>cause.
          (case status_event (at_status a) of
             None \<Rightarrow> Inl (Invalid ''Acct-Status-Type'')
           | Some e \<Rightarrow>
               Inr \<lparr>ap_org = at_org a, ap_nas = an_id n, ap_nas_ip = nas_ip,
                 ap_contract = (case account of None \<Rightarrow> Some 0 | Some x \<Rightarrow> aa_contract x),
                 ap_client = (case account of None \<Rightarrow> 0 | Some x \<Rightarrow> aa_client x),
                 ap_user = user, ap_session = session_id, ap_port = at_port a, ap_called = at_called a,
                 ap_calling = at_calling a, ap_framed_ip = at_framed_ip a, ap_framed6 = framed6,
                 ap_delegated6 = delegated6, ap_address6 = address6,
                 ap_counters = packet_counters bytes_in bytes_out a, ap_in6 = at_in6 a, ap_out6 = at_out6 a,
                 ap_stack = derive_stack_type (at_framed_ip a) (if truthy framed6 then framed6
                   else if truthy delegated6 then delegated6 else address6),
                 ap_delay = or_zero (at_delay a), ap_at = t, ap_explicit = (at_time a \<noteq> No_time), ap_cause = cause,
                 ap_event = e\<rparr>)))))))))))))))))"


section \<open>Looking up a session\<close>

definition last_seen :: "session \<Rightarrow> int" where
  "last_seen r = (case se_last_at r of None \<Rightarrow> se_started r | Some t \<Rightarrow> t)"

text \<open>\<open>ORDER BY key DESC, id DESC LIMIT 1\<close>.\<close>

fun best_by :: "(session \<Rightarrow> int) \<Rightarrow> session list \<Rightarrow> session option" where
  "best_by key [] = None"
| "best_by key (r # rs) =
     (case best_by key rs of
        None \<Rightarrow> Some r
      | Some s \<Rightarrow> if key s < key r \<or> key s = key r \<and> se_id s < se_id r then Some r else Some s)"

definition same_line :: "acct_config \<Rightarrow> acct_packet \<Rightarrow> session \<Rightarrow> bool" where
  "same_line g p r \<longleftrightarrow> se_org r = ap_org p \<and> se_nas r = Some (ap_nas p) \<and> ag_name_eq g (se_username r) (ap_user p)"

definition text_eq :: "acct_config \<Rightarrow> string option \<Rightarrow> string \<Rightarrow> bool" where
  "text_eq g x y \<longleftrightarrow> (case x of None \<Rightarrow> False | Some z \<Rightarrow> ag_name_eq g z y)"

definition find_session :: "acct_config \<Rightarrow> acct_packet \<Rightarrow> session list \<Rightarrow> session option" where
  "find_session g p rows =
     (case best_by last_seen (filter (\<lambda>r. same_line g p r \<and> text_eq g (se_acct_id r) (ap_session p)) rows) of
        Some r \<Rightarrow> Some r
      | None \<Rightarrow> best_by se_started
          (filter (\<lambda>r. same_line g p r \<and> se_acct_id r = None \<and> text_eq g (se_session_id r) (ap_session p)) rows))"

definition update_session :: "nat \<Rightarrow> (session \<Rightarrow> session) \<Rightarrow> session list \<Rightarrow> session list" where
  "update_session i f rows = map (\<lambda>r. if se_id r = i then f r else r) rows"

definition receipt :: "acct_event \<Rightarrow> acct_action \<Rightarrow> acct_db \<Rightarrow> acct_db" where
  "receipt e x db = db\<lparr>ad_receipts := ad_receipts db @ [(e, x)]\<rparr>"

text \<open>A synthetic Stop ends a session at its last real accounting.\<close>

definition close_session :: "string \<Rightarrow> int \<Rightarrow> session \<Rightarrow> session" where
  "close_session cause now r =
     (if se_event r = Stop then r
      else r\<lparr>se_event := Stop, se_cause := Some cause, se_last_at := Some (last_seen r), se_received := Some now\<rparr>)"

definition owner_of :: "session \<Rightarrow> nat \<Rightarrow> usage_owner" where
  "owner_of r instance_id =
     \<lparr>uo_org = se_org r, uo_instance = instance_id, uo_log = se_id r, uo_contract = se_contract r,
      uo_client = se_client r, uo_nas = se_nas r, uo_username = se_username r\<rparr>"

text \<open>Inserting a session; a null contract violates the column.\<close>

definition new_session :: "nat \<Rightarrow> nat \<Rightarrow> acct_packet \<Rightarrow> nat \<Rightarrow> int \<Rightarrow> int \<Rightarrow> bool \<Rightarrow> string option \<Rightarrow> bool \<Rightarrow> nat \<Rightarrow> session" where
  "new_session i instance_id p contract started now evidence reason whole anomalies =
     \<lparr>se_id = i, se_org = ap_org p, se_contract = contract, se_client = ap_client p, se_nas = Some (ap_nas p),
      se_nas_ip = ap_nas_ip p, se_username = ap_user p, se_acct_id = Some (ap_session p),
      se_session_id = Some (ap_session p), se_instance = Some instance_id, se_port = ap_port p, se_called = ap_called p,
      se_calling = ap_calling p, se_framed_ip = ap_framed_ip p, se_framed6 = ap_framed6 p,
      se_delegated6 = ap_delegated6 p, se_address6 = ap_address6 p, se_event = ap_event p,
      se_started = mysql_seconds started, se_counters = ap_counters p, se_cause = ap_cause p, se_in6 = ap_in6 p,
      se_out6 = ap_out6 p, se_stack = ap_stack p, se_last_at = Some (ap_at p), se_received = Some now,
      se_delay = Some (ap_delay p), se_evidence = evidence, se_evidence_reason = reason, se_complete = whole,
      se_anomalies = anomalies, se_raw = ap_counters p\<rparr>"

definition insert_session ::
    "acct_packet \<Rightarrow> nat \<Rightarrow> int \<Rightarrow> int \<Rightarrow> bool \<Rightarrow> string option \<Rightarrow> bool \<Rightarrow> usage_delta \<Rightarrow> acct_db \<Rightarrow> acct_error + acct_db" where
  "insert_session p instance_id started now evidence reason whole u db =
     (case ap_contract p of
        None \<Rightarrow> Inl (Null_column ''contract_id'')
      | Some contract \<Rightarrow>
          (let r = new_session (ad_next db) instance_id p contract started now evidence reason whole (ud_session_anomalies u)
           in Inr (receipt (ap_event p) Insert (db\<lparr>ad_sessions := ad_sessions db @ [r],
                ad_usage := record_usage_delta (owner_of r instance_id) (ap_at p) u (ad_usage db),
                ad_next := Suc (ad_next db)\<rparr>))))"

section \<open>Accounting-Start\<close>

definition differs :: "string option \<Rightarrow> string option \<Rightarrow> bool" where
  "differs old new \<longleftrightarrow> truthy old \<and> truthy new \<and> old \<noteq> new"

definition identity_changed :: "acct_packet \<Rightarrow> session \<Rightarrow> bool" where
  "identity_changed p d \<longleftrightarrow> se_event d \<noteq> Stop \<and>
     (differs (se_framed_ip d) (ap_framed_ip p) \<or> differs (se_framed6 d) (ap_framed6 p) \<or>
      differs (se_calling d) (ap_calling p))"

definition identity_enriched :: "acct_packet \<Rightarrow> session \<Rightarrow> bool" where
  "identity_enriched p d \<longleftrightarrow> se_event d \<noteq> Stop \<and>
     (\<not> truthy (se_framed_ip d) \<and> truthy (ap_framed_ip p) \<or> \<not> truthy (se_framed6 d) \<and> truthy (ap_framed6 p) \<or>
      \<not> truthy (se_calling d) \<and> truthy (ap_calling p))"

definition stale_open :: "acct_config \<Rightarrow> acct_packet \<Rightarrow> session \<Rightarrow> bool" where
  "stale_open g p d \<longleftrightarrow> se_event d \<noteq> Stop \<and> last_seen d + session_liveness_minutes g * 60 * 1000 < ap_at p"

definition distinct_later_start :: "acct_packet \<Rightarrow> session \<Rightarrow> bool" where
  "distinct_later_start p d \<longleftrightarrow> se_event d \<noteq> Stop \<and> ap_explicit p \<and> se_started d < ap_at p \<and> last_seen d \<le> ap_at p"

definition new_open_lifecycle :: "acct_packet \<Rightarrow> session \<Rightarrow> bool" where
  "new_open_lifecycle p d \<longleftrightarrow> identity_changed p d \<or> distinct_later_start p d"

definition is_replay :: "acct_config \<Rightarrow> acct_packet \<Rightarrow> session \<Rightarrow> bool" where
  "is_replay g p d \<longleftrightarrow>
     (if se_event d = Stop then ap_at p \<le> last_seen d else \<not> stale_open g p d \<and> \<not> new_open_lifecycle p d)"

definition enrich :: "acct_packet \<Rightarrow> int \<Rightarrow> session \<Rightarrow> session" where
  "enrich p now d = d\<lparr>se_framed_ip := coalesce (se_framed_ip d) (ap_framed_ip p),
     se_framed6 := coalesce (se_framed6 d) (ap_framed6 p), se_calling := coalesce (se_calling d) (ap_calling p),
     se_last_at := Some (ap_at p), se_received := Some now\<rparr>"

text \<open>An open session of the same user under another session id, on another station or NAS, is closed.\<close>

definition open_elsewhere :: "acct_config \<Rightarrow> acct_packet \<Rightarrow> session list \<Rightarrow> session option" where
  "open_elsewhere g p rows =
     best_by se_started (filter (\<lambda>r. ag_name_eq g (se_username r) (ap_user p) \<and> se_org r = ap_org p \<and> se_event r \<noteq> Stop \<and>
       (se_acct_id r = None \<or> \<not> text_eq g (se_acct_id r) (ap_session p))) rows)"

definition moved :: "acct_packet \<Rightarrow> session \<Rightarrow> bool" where
  "moved p r \<longleftrightarrow> ap_calling p \<noteq> None \<and> se_calling r \<noteq> None \<and> se_calling r \<noteq> ap_calling p \<or>
     se_nas r \<noteq> None \<and> se_nas r \<noteq> Some (ap_nas p)"

definition close_moved :: "acct_config \<Rightarrow> acct_packet \<Rightarrow> int \<Rightarrow> acct_db \<Rightarrow> acct_db \<times> bool" where
  "close_moved g p now db =
     (case open_elsewhere g p (ad_sessions db) of
        None \<Rightarrow> (db, False)
      | Some r \<Rightarrow>
          if moved p r then
            (db\<lparr>ad_sessions := update_session (se_id r) (close_session ''Session-Moved'' now) (ad_sessions db),
               ad_moves := ad_moves db @ [\<lparr>mv_org = ap_org p, mv_username = ap_user p, mv_old_mac = se_calling r,
                 mv_new_mac = ap_calling p, mv_old_nas = se_nas r, mv_new_nas = ap_nas p, mv_at = now\<rparr>]\<rparr>, True)
          else (db, False))"

definition start_session :: "acct_config \<Rightarrow> acct_packet \<Rightarrow> int \<Rightarrow> nat \<Rightarrow> bool \<Rightarrow> acct_db \<Rightarrow> acct_error + acct_db \<times> acct_result" where
  "start_session g p now uuid mac db =
     (case close_moved g p now db of
        (db1, mac') \<Rightarrow>
          (let cumulative = list_ex (\<lambda>f. 0 < or_zero (ap_counters p f)) usage_fields;
               u = calculate_usage_delta (\<lambda>_. None) (ap_counters p) None (ap_at p) (\<not> cumulative)
                     (if cumulative then Some Nonzero_start_baseline else None) True
           in bind_r (insert_session p uuid (ap_at p) now True None (ud_complete u) u db1) (\<lambda>db2.
                Inr (db2, \<lparr>ar_action = Insert, ar_id = ad_next db1, ar_mac_move = mac \<or> mac', ar_instance = Some uuid\<rparr>))))"

definition noop :: "acct_packet \<Rightarrow> session \<Rightarrow> nat option \<Rightarrow> acct_db \<Rightarrow> acct_error + acct_db \<times> acct_result" where
  "noop p d instance_id db =
     Inr (receipt (ap_event p) Noop db, \<lparr>ar_action = Noop, ar_id = se_id d, ar_mac_move = False, ar_instance = instance_id\<rparr>)"

definition ingest_start :: "acct_config \<Rightarrow> acct_packet \<Rightarrow> int \<Rightarrow> nat \<Rightarrow> acct_db \<Rightarrow> acct_error + acct_db \<times> acct_result" where
  "ingest_start g p now uuid db =
     (case find_session g p (ad_sessions db) of
        None \<Rightarrow> start_session g p now uuid False db
      | Some d \<Rightarrow>
          if identity_changed p d \<and> ap_explicit p \<and> ap_at p < last_seen d then Inl (Conflict ''Accounting-Start'')
          else if is_replay g p d then
            (if identity_enriched p d then
               (if ap_at p < last_seen d then Inl (Conflict ''Accounting-Start enrichment'')
                else Inr (receipt (ap_event p) Update
                       (db\<lparr>ad_sessions := update_session (se_id d) (enrich p now) (ad_sessions db)\<rparr>),
                     \<lparr>ar_action = Update, ar_id = se_id d, ar_mac_move = False, ar_instance = se_instance d\<rparr>))
             else noop p d (se_instance d) db)
          else if stale_open g p d \<or> new_open_lifecycle p d then
            start_session g p now uuid (se_event d \<noteq> Stop \<and> differs (se_calling d) (ap_calling p))
              (db\<lparr>ad_sessions := update_session (se_id d)
                 (close_session (if identity_changed p d then ''Session-Identity-Changed'' else ''Session-Restarted'') now)
                 (ad_sessions db)\<rparr>)
          else start_session g p now uuid False db)"

section \<open>Interim-Update and Stop\<close>

definition same_final_number :: "int option \<Rightarrow> int option \<Rightarrow> bool" where
  "same_final_number incoming persisted \<longleftrightarrow> (case incoming of None \<Rightarrow> True | Some n \<Rightarrow> n = or_zero persisted)"

definition same_final_text :: "string option \<Rightarrow> string option \<Rightarrow> bool" where
  "same_final_text incoming persisted \<longleftrightarrow>
     (case incoming of None \<Rightarrow> True | Some s \<Rightarrow> s = (case persisted of None \<Rightarrow> ''null'' | Some q \<Rightarrow> q))"

definition same_stop_payload :: "acct_packet \<Rightarrow> session \<Rightarrow> bool" where
  "same_stop_payload p r \<longleftrightarrow> ap_event p = Stop \<and>
     list_all (\<lambda>f. same_final_number (ap_counters p f) (se_raw r f)) usage_fields \<and>
     same_final_text (ap_cause p) (se_cause r) \<and> same_final_text (ap_framed_ip p) (se_framed_ip r) \<and>
     same_final_text (ap_framed6 p) (se_framed6 r)"

definition later_reused :: "acct_packet \<Rightarrow> session \<Rightarrow> bool" where
  "later_reused p r \<longleftrightarrow> ap_explicit p \<and> \<not> same_stop_payload p r \<and> last_seen r < ap_at p \<and>
     last_seen r \<le> ap_at p - max 0 (or_zero (ap_counters p Duration)) * 1000"

definition corrected_final :: "acct_packet \<Rightarrow> session \<Rightarrow> bool" where
  "corrected_final p r \<longleftrightarrow> ap_event p = Stop \<and>
     (list_ex (\<lambda>f. case ap_counters p f of None \<Rightarrow> False | Some n \<Rightarrow> or_zero (se_raw r f) < n) usage_fields \<or>
      truthy (ap_cause p) \<and> ap_cause p \<noteq> se_cause r)"

definition greatest :: "counters \<Rightarrow> counters \<Rightarrow> counters" where
  "greatest incoming old =
     (\<lambda>f. case incoming f of None \<Rightarrow> old f | Some n \<Rightarrow> Some (max (or_zero (old f)) n))"

definition raw_after :: "counters \<Rightarrow> counters \<Rightarrow> counters" where
  "raw_after incoming old = (\<lambda>f. coalesce (incoming f) (old f))"

definition session_usage :: "acct_packet \<Rightarrow> session \<Rightarrow> usage_delta" where
  "session_usage p r =
     calculate_usage_delta (se_raw r) (ap_counters p) (Some (last_seen r)) (ap_at p) (se_complete r) None False"

definition count_usage :: "acct_packet \<Rightarrow> nat \<Rightarrow> usage_delta \<Rightarrow> session \<Rightarrow> session" where
  "count_usage p instance_id u r = r\<lparr>
     se_instance := coalesce (se_instance r) (Some instance_id),
     se_counters := greatest (ap_counters p) (se_counters r),
     se_delay := Some (ap_delay p), se_complete := ud_complete u,
     se_anomalies := se_anomalies r + ud_session_anomalies u,
     se_raw := raw_after (ap_counters p) (se_raw r)\<rparr>"

definition correct_stop :: "acct_packet \<Rightarrow> nat \<Rightarrow> int \<Rightarrow> usage_delta \<Rightarrow> session \<Rightarrow> session" where
  "correct_stop p instance_id now u r = (count_usage p instance_id u r)\<lparr>
     se_cause := coalesce (ap_cause p) (se_cause r), se_last_at := Some (last_seen r), se_received := Some now\<rparr>"

definition close_out_of_order :: "acct_packet \<Rightarrow> int \<Rightarrow> session \<Rightarrow> session" where
  "close_out_of_order p now r = r\<lparr>
     se_event := Stop, se_cause := coalesce (ap_cause p) (se_cause r), se_last_at := Some (ap_at p),
     se_received := Some now, se_delay := Some (ap_delay p), se_evidence := False,
     se_evidence_reason := Some ''out_of_order_stop'', se_complete := False, se_anomalies := se_anomalies r + 1\<rparr>"

definition accept_update :: "acct_packet \<Rightarrow> nat \<Rightarrow> int \<Rightarrow> usage_delta \<Rightarrow> session \<Rightarrow> session" where
  "accept_update p instance_id now u r = (count_usage p instance_id u r)\<lparr>
     se_event := ap_event p, se_cause := ap_cause p,
     se_framed_ip := coalesce (ap_framed_ip p) (se_framed_ip r), se_framed6 := coalesce (ap_framed6 p) (se_framed6 r),
     se_delegated6 := coalesce (ap_delegated6 p) (se_delegated6 r),
     se_address6 := coalesce (ap_address6 p) (se_address6 r),
     se_in6 := coalesce (ap_in6 p) (se_in6 r), se_out6 := coalesce (ap_out6 p) (se_out6 r),
     se_stack := coalesce (ap_stack p) (se_stack r), se_last_at := Some (ap_at p), se_received := Some now\<rparr>"

definition exact_replay :: "acct_packet \<Rightarrow> session \<Rightarrow> bool" where
  "exact_replay p r \<longleftrightarrow> ap_at p = last_seen r \<and> se_event r = ap_event p \<and>
     list_all (\<lambda>f. same_final_number (ap_counters p f) (se_raw r f)) usage_fields \<and>
     (if truthy (se_cause r) then se_cause r else None) = ap_cause p \<and>
     (truthy (ap_framed_ip p) \<longrightarrow> se_framed_ip r = ap_framed_ip p) \<and>
     (truthy (ap_framed6 p) \<longrightarrow> se_framed6 r = ap_framed6 p)"

definition write_session ::
    "acct_packet \<Rightarrow> session \<Rightarrow> nat \<Rightarrow> (session \<Rightarrow> session) \<Rightarrow> usage_delta option \<Rightarrow> acct_db \<Rightarrow> acct_error + acct_db \<times> acct_result" where
  "write_session p r instance_id f u db =
     Inr (receipt (ap_event p) Update (db\<lparr>ad_sessions := update_session (se_id r) f (ad_sessions db),
        ad_usage := (case u of None \<Rightarrow> ad_usage db
          | Some d \<Rightarrow> record_usage_delta (owner_of r instance_id) (ap_at p) d (ad_usage db))\<rparr>),
      \<lparr>ar_action = Update, ar_id = se_id r, ar_mac_move = False, ar_instance = Some instance_id\<rparr>)"

definition late_session :: "acct_packet \<Rightarrow> int \<Rightarrow> nat \<Rightarrow> acct_db \<Rightarrow> acct_error + acct_db \<times> acct_result" where
  "late_session p now uuid db =
     (let u = calculate_usage_delta (\<lambda>_. None) (ap_counters p) None (ap_at p) False (Some Missing_start_baseline) True in
      bind_r (insert_session p uuid (ap_at p - max 0 (or_zero (ap_counters p Duration)) * 1000) now False
          (Some ''missing_start'') False u db)
        (\<lambda>db1. Inr (db1, \<lparr>ar_action = Insert, ar_id = ad_next db, ar_mac_move = False, ar_instance = Some uuid\<rparr>)))"

definition ingest_update :: "acct_config \<Rightarrow> acct_packet \<Rightarrow> int \<Rightarrow> nat \<Rightarrow> acct_db \<Rightarrow> acct_error + acct_db \<times> acct_result" where
  "ingest_update g p now uuid db =
     (case find_session g p (ad_sessions db) of
        None \<Rightarrow> late_session p now uuid db
      | Some r \<Rightarrow>
          let instance_id = (case se_instance r of None \<Rightarrow> uuid | Some i \<Rightarrow> i); u = session_usage p r in
          if se_event r = Stop then
            (if later_reused p r then late_session p now uuid db
             else if corrected_final p r \<and> (\<not> ap_explicit p \<or> last_seen r \<le> ap_at p) then
               write_session p r instance_id (correct_stop p instance_id now u) (Some u) db
             else noop p r (Some instance_id) db)
          else if ap_at p < last_seen r then
            (if ap_event p = Stop then write_session p r instance_id (close_out_of_order p now) None db
             else noop p r (Some instance_id) db)
          else if differs (se_framed_ip r) (ap_framed_ip p) then Inl (Conflict ''Framed-IP-Address'')
          else if differs (se_framed6 r) (ap_framed6 p) then Inl (Conflict ''Framed-IPv6-Prefix'')
          else if exact_replay p r then noop p r (Some instance_id) db
          else write_session p r instance_id (accept_update p instance_id now u) (Some u) db)"

definition ingest_packet :: "acct_config \<Rightarrow> acct_packet \<Rightarrow> int \<Rightarrow> nat \<Rightarrow> acct_db \<Rightarrow> acct_error + acct_db \<times> acct_result" where
  "ingest_packet g p now uuid db =
     (if ap_event p = Start then ingest_start g p now uuid db else ingest_update g p now uuid db)"

definition ingest_accounting :: "acct_config \<Rightarrow> acct_attrs \<Rightarrow> int \<Rightarrow> nat \<Rightarrow> acct_db \<Rightarrow> acct_error + acct_db \<times> acct_result" where
  "ingest_accounting g a now uuid db =
     bind_r (read_packet g db now a) (\<lambda>p. ingest_packet g p now uuid db)"

section \<open>Closing sessions without a Stop\<close>

definition last_heard :: "session \<Rightarrow> int" where
  "last_heard r = (case se_received r of Some t \<Rightarrow> t | None \<Rightarrow> last_seen r)"

text \<open>The batches of 500 of a sweep add up to one pass.\<close>

definition close_open_sessions ::
    "int \<Rightarrow> nat option \<Rightarrow> int option \<Rightarrow> string \<Rightarrow> string \<Rightarrow> int \<Rightarrow> acct_db \<Rightarrow> acct_db" where
  "close_open_sessions org nas_id older_than cause reason now db =
     db\<lparr>ad_sessions := map (\<lambda>r.
       if se_org r = org \<and> se_event r \<noteq> Stop \<and> (nas_id \<noteq> None \<longrightarrow> se_nas r = nas_id) \<and>
          (case older_than of None \<Rightarrow> last_heard r \<le> now | Some m \<Rightarrow> last_heard r < now - m * 60000)
       then (close_session cause now r)\<lparr>se_evidence_reason := coalesce (se_evidence_reason r) (Some reason)\<rparr>
       else r) (ad_sessions db)\<rparr>"

definition record_infrastructure_accounting :: "int \<Rightarrow> nat \<Rightarrow> string \<Rightarrow> int \<Rightarrow> acct_db \<Rightarrow> acct_error + acct_db" where
  "record_infrastructure_accounting org nas_id status now db =
     (if org \<le> 0 \<or> max_safe < org \<or> nas_id = 0 \<or> max_safe < int nas_id \<or> status \<notin> {''Accounting-On'', ''Accounting-Off''}
      then Inl (Invalid ''infrastructure'')
      else Inr (close_open_sessions org (Some nas_id) None ''NAS-Reboot'' ''nas_reboot'' now db))"

definition close_stale_sessions :: "acct_config \<Rightarrow> int \<Rightarrow> int \<Rightarrow> acct_db \<Rightarrow> acct_db" where
  "close_stale_sessions g org now db =
     close_open_sessions org None (Some (session_liveness_minutes g)) ''Stale-Session'' ''stale_session'' now db"

end
