(* ===== verification/Usage_Safety.thy ===== *)
theory Usage_Safety
  imports Radius_Accounting
begin

text \<open>
  What the usage rows of the session store are worth: every record of a session either adds exactly
  the growth of its counters or marks the session incomplete, and a record that is delivered twice
  adds nothing the second time.
\<close>

section \<open>Totals\<close>

definition usage_total :: "usage_row list \<Rightarrow> int \<Rightarrow> nat \<Rightarrow> usage_field \<Rightarrow> int" where
  "usage_total us org i f = sum_list (map (\<lambda>u. du_deltas u f) (filter (\<lambda>u. du_org u = org \<and> du_instance u = i) us))"

lemma usage_total_simps [simp]:
  "usage_total [] org i f = 0"
  "usage_total (u # us) org i f = (if du_org u = org \<and> du_instance u = i then du_deltas u f else 0) + usage_total us org i f"
  by (simp_all add: usage_total_def)

lemma upsert_total:
  "usage_total (upsert_usage new us) org i f =
   usage_total us org i f + (if du_org new = org \<and> du_instance new = i then du_deltas new f else 0)"
  by (induction new us rule: upsert_usage.induct) (auto simp: usage_key_def merge_usage_def)

lemma usage_row_of_sel [simp]:
  "du_org (usage_row_of w d ds c x n t) = uo_org w" "du_instance (usage_row_of w d ds c x n t) = uo_instance w"
  "du_deltas (usage_row_of w d ds c x n t) = ds" "du_complete (usage_row_of w d ds c x n t) = c"
  by (simp_all add: usage_row_of_def)

lemma all_usage_field: "(\<forall>f. P f) \<longleftrightarrow> P Bytes_in \<and> P Bytes_out \<and> P Packets_in \<and> P Packets_out \<and> P Duration"
  by (metis usage_field.exhaust)

lemma usage_fields_all: "list_all P usage_fields \<longleftrightarrow> (\<forall>f. P f)"
  by (simp add: usage_fields_def all_usage_field)

lemma usage_fields_ex: "list_ex P usage_fields \<longleftrightarrow> (\<exists>f. P f)"
  using usage_fields_all [of "\<lambda>f. \<not> P f"] by (auto simp: list_ex_iff list_all_iff)

text \<open>Recording a delta adds it to its session, whichever days its parts are put on.\<close>

lemma record_total:
  "usage_total (record_usage_delta w t u us) org i f =
   usage_total us org i f + (if org = uo_org w \<and> i = uo_instance w then ud_deltas u f else 0)"
  unfolding record_usage_delta_def Let_def
  by (auto simp: upsert_total usage_fields_all split_at_month_start_def Let_def split: option.splits bool.splits)

section \<open>The split at the start of a month\<close>

lemma fl_nonneg: "0 \<le> r \<Longrightarrow> 0 \<le> fl r"
proof -
  assume r: "0 \<le> r"
  have "0 \<le> round_even (r / 2 powi (ilog2 r - 52))"
    using r round_even_bounds(1) [of 0 "r / 2 powi (ilog2 r - 52)" "\<lceil>r / 2 powi (ilog2 r - 52)\<rceil>"] by simp
  then show ?thesis by (simp add: fl_def Let_def)
qed

text \<open>Rounding does not pass a whole number below \<open>2 ^ 53\<close>.\<close>

lemma fl_le_whole:
  assumes "0 \<le> r" and "r \<le> of_int t" and "t < 2 ^ 53"
  shows "fl r \<le> of_int t"
proof (cases "r = 0")
  case True
  with assms show ?thesis by (simp add: fl_def)
next
  case False
  have "(of_int t :: rat) < of_int (2 ^ 53)" using assms(3) by (simp only: of_int_less_iff)
  then have "\<bar>r\<bar> < 2 ^ 53" using assms(1,2) by simp
  then have "(2 :: rat) powi ilog2 r < 2 powi 53"
    using ilog2_bounds(1) [OF False] by simp
  then have l: "ilog2 r \<le> 52"
    using power_int_increasing [of 53 "ilog2 r" "2 :: rat"] by (cases "53 \<le> ilog2 r") auto
  define k where "k = nat (52 - ilog2 r)"
  define u :: rat where "u = 2 powi (ilog2 r - 52)"
  have "u = 2 powi (- int k)" using l by (simp add: u_def k_def)
  then have u: "u = 1 / 2 ^ k" by (simp add: power_int_minus inverse_eq_divide)
  have "r / u \<le> of_int (t * 2 ^ k)" using assms(2) by (simp add: u mult_right_mono)
  moreover have "of_int 0 \<le> r / u" using assms(1) by (simp add: u)
  ultimately have "round_even (r / u) \<le> t * 2 ^ k" using round_even_bounds(2) by blast
  then have "(of_int (round_even (r / u)) :: rat) \<le> of_int (t * 2 ^ k)" by (simp only: of_int_le_iff)
  then show ?thesis using False by (simp add: fl_def Let_def u divide_le_eq flip: u_def)
qed

lemma split_share_bounds: "0 \<le> split_share a b \<and> split_share a b \<le> 1"
  by (simp add: split_share_def)

definition delta_ok :: "(usage_field \<Rightarrow> int) \<Rightarrow> bool" where
  "delta_ok d \<longleftrightarrow> (\<forall>f. 0 \<le> d f \<and> d f \<le> max_safe)"

lemma split_bounds:
  assumes "delta_ok d" and "split_at_month_start d a b = (before, after)"
  shows "0 \<le> before f \<and> 0 \<le> after f \<and> before f + after f = d f"
proof -
  let ?s = "split_share a b"
  have d: "0 \<le> d f" "d f < 2 ^ 53" using assms(1) by (auto simp: delta_ok_def max_safe_def intro: le_less_trans)
  have b: "before f = \<lfloor>fl (of_int (d f) * ?s)\<rfloor>" and a: "after f = d f - before f"
    using assms(2) by (auto simp: split_at_month_start_def Let_def fl_mul_def)
  have le: "of_int (d f) * ?s \<le> of_int (d f)" and ge: "0 \<le> of_int (d f) * ?s"
    using split_share_bounds [of a b] d(1) by (simp_all add: mult_left_le)
  have "fl (of_int (d f) * ?s) \<le> of_int (d f)" by (rule fl_le_whole [OF ge le d(2)])
  then have "before f \<le> d f" unfolding b by (simp add: floor_le_iff)
  moreover have "0 \<le> before f" unfolding b using fl_nonneg [OF ge] by simp
  ultimately show ?thesis using a by simp
qed


section \<open>The books\<close>

text \<open>What the accounting of usage depends on in a session: its identity, its instance, whether its
  usage is complete, and the raw counters.\<close>

datatype book = Book (bk_id: nat) (bk_org: int) (bk_instance: "nat option") (bk_complete: bool) (bk_raw: counters)

definition book_of :: "session \<Rightarrow> book" where
  "book_of r = Book (se_id r) (se_org r) (se_instance r) (se_complete r) (se_raw r)"

definition octets :: "usage_field set" where
  "octets = {Bytes_in, Bytes_out}"

definition counters_ok :: "counters \<Rightarrow> bool" where
  "counters_ok c \<longleftrightarrow> (\<forall>f n. c f = Some n \<longrightarrow> 0 \<le> n \<and> n \<le> max_safe)"

definition balanced :: "usage_row list \<Rightarrow> book \<Rightarrow> bool" where
  "balanced us b \<longleftrightarrow>
     (\<exists>i. bk_instance b = Some i \<and> (\<forall>f\<in>octets. usage_total us (bk_org b) i f = or_zero (bk_raw b f)) \<and>
        (\<forall>u\<in>set us. du_instance u = i \<longrightarrow> du_complete u))"

definition instances_unique :: "book list \<Rightarrow> bool" where
  "instances_unique bs \<longleftrightarrow>
     (\<forall>b\<in>set bs. \<forall>c\<in>set bs. bk_instance b \<noteq> None \<longrightarrow> bk_instance b = bk_instance c \<longrightarrow> b = c)"

lemma instances_uniqueD:
  "instances_unique bs \<Longrightarrow> b \<in> set bs \<Longrightarrow> c \<in> set bs \<Longrightarrow> bk_instance b \<noteq> None \<Longrightarrow> bk_instance b = bk_instance c \<Longrightarrow> b = c"
  by (simp add: instances_unique_def)

definition books_ok :: "book list \<Rightarrow> usage_row list \<Rightarrow> nat \<Rightarrow> bool" where
  "books_ok bs us n \<longleftrightarrow>
     distinct (map bk_id bs) \<and> (\<forall>b\<in>set bs. bk_id b < n \<and> counters_ok (bk_raw b)) \<and>
     instances_unique bs \<and>
     (\<forall>u\<in>set us. (\<exists>b\<in>set bs. bk_instance b = Some (du_instance u) \<and> bk_org b = du_org u) \<and> (\<forall>f. 0 \<le> du_deltas u f)) \<and>
     (\<forall>b\<in>set bs. bk_complete b \<longrightarrow> balanced us b)"

definition fresh_instance :: "nat \<Rightarrow> acct_db \<Rightarrow> bool" where
  "fresh_instance uuid db \<longleftrightarrow> (\<forall>r\<in>set (ad_sessions db). se_instance r \<noteq> Some uuid)"

definition usage_inv :: "acct_db \<Rightarrow> bool" where
  "usage_inv db \<longleftrightarrow> books_ok (map book_of (ad_sessions db)) (ad_usage db) (ad_next db)"

lemma upsert_rows:
  "u \<in> set (upsert_usage new us) \<Longrightarrow>
   u \<in> set us \<or> u = new \<or> (\<exists>v\<in>set us. usage_key v = usage_key new \<and> u = merge_usage v new)"
  by (induction new us rule: upsert_usage.induct) (auto split: if_splits)

text \<open>A property of rows that survives merging holds of all rows after a delta is recorded.\<close>

lemma record_rows:
  assumes merge: "\<And>u v. Q u \<Longrightarrow> Q v \<Longrightarrow> usage_key u = usage_key v \<Longrightarrow> Q (merge_usage u v)"
    and old: "\<forall>u\<in>set us. Q u"
    and new: "\<And>d ds x n s. (\<forall>f. 0 \<le> ds f) \<Longrightarrow> Q (usage_row_of w d ds (ud_complete u) x n s)"
    and ok: "delta_ok (ud_deltas u)"
  shows "\<forall>v\<in>set (record_usage_delta w t u us). Q v"
proof -
  have up: "\<forall>v\<in>set (upsert_usage x us'). Q v" if "\<forall>v\<in>set us'. Q v" "Q x" for x us'
    using upsert_rows [of _ x us'] merge that by metis
  have nn: "\<forall>f. 0 \<le> ud_deltas u f" using ok by (simp add: delta_ok_def)
  have parts: "\<And>p before after. split_at_month_start (ud_deltas u) p t = (before, after) \<Longrightarrow>
      (\<forall>f. 0 \<le> before f) \<and> (\<forall>f. 0 \<le> after f)" using split_bounds [OF ok] by blast
  have single: "record_usage_delta w t u us = us \<or>
      (\<exists>d x n s. record_usage_delta w t u us = upsert_usage (usage_row_of w d (ud_deltas u) (ud_complete u) x n s) us) \<or>
      (\<exists>p before after d x n d' x' n'. split_at_month_start (ud_deltas u) p t = (before, after) \<and>
         record_usage_delta w t u us = upsert_usage (usage_row_of w d after (ud_complete u) x n t)
           (upsert_usage (usage_row_of w d' before (ud_complete u) x' n' p) us))"
  proof (cases "list_all (\<lambda>f. ud_deltas u f = 0) usage_fields \<and> ud_reason u = None")
    case True
    then have "record_usage_delta w t u us = us" by (simp add: record_usage_delta_def)
    then show ?thesis by blast
  next
    case False
    show ?thesis
    proof (cases "ud_crosses_month u \<and> ud_previous_at u \<noteq> None")
      case True
      then obtain p where p: "ud_crosses_month u" "ud_previous_at u = Some p" by blast
      obtain before after where "split_at_month_start (ud_deltas u) p t = (before, after)" by fastforce
      with p False show ?thesis by (simp add: record_usage_delta_def Let_def) blast
    next
      case nomonth: False
      then have "record_usage_delta w t u us = upsert_usage (usage_row_of w (utc_day t) (ud_deltas u) (ud_complete u)
          (ud_reason u) (if ud_reason u = None then 0 else 1) t) us"
        using False by (auto simp: record_usage_delta_def Let_def split: option.splits bool.splits)
      then show ?thesis by blast
    qed
  qed
  then show ?thesis
  proof (elim disjE exE conjE)
    show "record_usage_delta w t u us = us \<Longrightarrow> ?thesis" using old by simp
  next
    fix d x n s
    assume e: "record_usage_delta w t u us = upsert_usage (usage_row_of w d (ud_deltas u) (ud_complete u) x n s) us"
    show ?thesis unfolding e by (rule up [OF old new [OF nn]])
  next
    fix p before after d x n d' x' n'
    assume s: "split_at_month_start (ud_deltas u) p t = (before, after)"
      and e: "record_usage_delta w t u us = upsert_usage (usage_row_of w d after (ud_complete u) x n t)
           (upsert_usage (usage_row_of w d' before (ud_complete u) x' n' p) us)"
    from parts [OF s] have nn': "\<forall>f. 0 \<le> before f" "\<forall>f. 0 \<le> after f" by simp_all
    show ?thesis unfolding e by (rule up [OF up [OF old new [OF nn'(1)]] new [OF nn'(2)]])
  qed
qed

lemma delta_ok_calc:
  assumes "counters_ok current" and "counters_ok previous"
  shows "delta_ok (ud_deltas (calculate_usage_delta previous current pt t pc b init))"
proof -
  have "0 \<le> field_delta (previous f) (current f) \<and> field_delta (previous f) (current f) \<le> max_safe" for f
  proof -
    have n: "0 \<le> n \<and> n \<le> max_safe" if "current f = Some n" for n using assms(1) that by (simp add: counters_ok_def)
    have q: "0 \<le> q" if "previous f = Some q" for q using assms(2) that by (simp add: counters_ok_def)
    show ?thesis using n q by (auto simp: field_delta_def max_safe_def split: option.splits)
  qed
  moreover have "ud_deltas (calculate_usage_delta previous current pt t pc b init) f =
      (if init then 0 else field_delta (previous f) (current f))" for f
    by (simp only: calculate_usage_delta_def Let_def usage_delta.simps)
  ultimately show ?thesis by (simp add: delta_ok_def) (simp add: max_safe_def)
qed

text \<open>The rows of another instance are the same after a delta is recorded.\<close>

lemma record_other:
  "i \<noteq> uo_instance w \<Longrightarrow>
   filter (\<lambda>v. du_instance v = i) (record_usage_delta w t u us) = filter (\<lambda>v. du_instance v = i) us"
proof -
  have up: "du_instance x \<noteq> i \<Longrightarrow> filter (\<lambda>v. du_instance v = i) (upsert_usage x us') = filter (\<lambda>v. du_instance v = i) us'"
    for x us' by (induction x us' rule: upsert_usage.induct) (auto simp: usage_key_def merge_usage_def)
  assume "i \<noteq> uo_instance w"
  then show ?thesis
    unfolding record_usage_delta_def Let_def by (auto simp: up split: option.splits bool.splits prod.splits)
qed

lemma total_other: "i \<noteq> uo_instance w \<Longrightarrow> usage_total (record_usage_delta w t u us) org i f = usage_total us org i f"
  by (simp add: record_total)

lemma balanced_other:
  assumes "balanced us b" and "bk_instance b \<noteq> Some (uo_instance w)"
  shows "balanced (record_usage_delta w t u us) b"
proof -
  from assms obtain i where i: "bk_instance b = Some i" "\<forall>f\<in>octets. usage_total us (bk_org b) i f = or_zero (bk_raw b f)"
      "\<forall>v\<in>set us. du_instance v = i \<longrightarrow> du_complete v" "i \<noteq> uo_instance w" by (auto simp: balanced_def)
  have "\<forall>v\<in>set (record_usage_delta w t u us). du_instance v = i \<longrightarrow> du_complete v"
    using arg_cong [OF record_other [OF i(4), of t u us], of set] i(3) by auto
  with i total_other [OF i(4)] show ?thesis by (auto simp: balanced_def)
qed


section \<open>Every write keeps the books\<close>

definition row_owned :: "book list \<Rightarrow> usage_row \<Rightarrow> bool" where
  "row_owned bs u \<longleftrightarrow>
     (\<exists>b\<in>set bs. bk_instance b = Some (du_instance u) \<and> bk_org b = du_org u) \<and> (\<forall>f. 0 \<le> du_deltas u f)"

lemma row_owned_merge: "row_owned bs u \<Longrightarrow> row_owned bs v \<Longrightarrow> usage_key u = usage_key v \<Longrightarrow> row_owned bs (merge_usage u v)"
  by (simp add: row_owned_def merge_usage_def)

lemma record_owned:
  assumes "\<forall>v\<in>set us. row_owned bs v" and "delta_ok (ud_deltas u)"
    and "\<exists>b\<in>set bs. bk_instance b = Some (uo_instance w) \<and> bk_org b = uo_org w"
  shows "\<forall>v\<in>set (record_usage_delta w t u us). row_owned bs v"
proof (rule record_rows [where Q = "row_owned bs"])
  show "row_owned bs (usage_row_of w d ds (ud_complete u) x n s)" if "\<forall>f. 0 \<le> ds f" for d ds x n s
    using assms(3) that by (simp add: row_owned_def)
qed (use assms row_owned_merge in auto)

lemma record_complete:
  assumes "\<forall>v\<in>set us. du_instance v = i \<longrightarrow> du_complete v" and "delta_ok (ud_deltas u)" and "ud_complete u"
  shows "\<forall>v\<in>set (record_usage_delta w t u us). du_instance v = i \<longrightarrow> du_complete v"
  using assms by (intro record_rows) (auto simp: merge_usage_def usage_key_def)

lemma books_ok_parts:
  "books_ok bs us n \<longleftrightarrow>
     distinct (map bk_id bs) \<and> (\<forall>b\<in>set bs. bk_id b < n) \<and> (\<forall>b\<in>set bs. counters_ok (bk_raw b)) \<and>
     instances_unique bs \<and>
     (\<forall>u\<in>set us. row_owned bs u) \<and> (\<forall>b\<in>set bs. bk_complete b \<longrightarrow> balanced us b)"
  by (auto simp: books_ok_def row_owned_def)

lemma no_rows_no_total: "\<forall>u\<in>set us. du_instance u \<noteq> i \<Longrightarrow> usage_total us org i f = 0"
  by (induction us) auto

lemma books_append:
  assumes ok: "books_ok bs us n" and fresh: "\<forall>b\<in>set bs. bk_instance b \<noteq> Some (uo_instance w)"
    and new: "bk_id b = n" "bk_instance b = Some (uo_instance w)" "bk_org b = uo_org w" "counters_ok (bk_raw b)"
    and u: "\<forall>f. ud_deltas u f = 0"
    and complete: "bk_complete b \<Longrightarrow> ud_complete u \<and> (\<forall>f\<in>octets. or_zero (bk_raw b f) = 0)"
  shows "books_ok (bs @ [b]) (record_usage_delta w t u us) (Suc n)"
proof -
  note parts = ok [unfolded books_ok_parts]
  have dok: "delta_ok (ud_deltas u)" using u by (simp add: delta_ok_def max_safe_def)
  have none: "\<forall>v\<in>set us. du_instance v \<noteq> uo_instance w" using parts fresh by (auto simp: row_owned_def)
  have owned: "\<forall>v\<in>set us. row_owned (bs @ [b]) v" using parts by (auto simp: row_owned_def)
  have "\<forall>v\<in>set (record_usage_delta w t u us). row_owned (bs @ [b]) v"
    by (rule record_owned [OF owned dok]) (use new in auto)
  moreover have "balanced (record_usage_delta w t u us) c" if "c \<in> set bs" "bk_complete c" for c
    using parts that fresh by (intro balanced_other) auto
  moreover have "balanced (record_usage_delta w t u us) b" if c: "bk_complete b"
  proof -
    have "\<forall>v\<in>set (record_usage_delta w t u us). du_instance v = uo_instance w \<longrightarrow> du_complete v"
      using none dok complete [OF c] by (intro record_complete) auto
    with new complete [OF c] u none show ?thesis
      by (auto simp: balanced_def record_total no_rows_no_total)
  qed
  moreover have "instances_unique (bs @ [b])"
    using parts fresh new(2) unfolding instances_unique_def by auto
  moreover have "\<forall>c\<in>set (bs @ [b]). bk_id c < Suc n" "distinct (map bk_id (bs @ [b]))" "\<forall>c\<in>set (bs @ [b]). counters_ok (bk_raw c)"
    using parts new by (auto simp: less_Suc_eq)
  ultimately show ?thesis unfolding books_ok_parts by auto
qed

definition set_book :: "book \<Rightarrow> book list \<Rightarrow> book list" where
  "set_book b bs = map (\<lambda>c. if bk_id c = bk_id b then b else c) bs"

lemma set_book_ids [simp]: "map bk_id (set_book b bs) = map bk_id bs"
  by (simp add: set_book_def)

lemma set_book_mem:
  "distinct (map bk_id bs) \<Longrightarrow> c \<in> set bs \<Longrightarrow> bk_id b = bk_id c \<Longrightarrow> set (set_book b bs) = insert b (set bs - {c})"
  using distinct_key_same [of bk_id bs] by (auto simp: set_book_def image_iff)

lemma set_book_unique:
  assumes uniq: "instances_unique bs" and S: "set (set_book b bs) = insert b (set bs - {c})"
    and new: "\<And>x. x \<in> set bs \<Longrightarrow> x \<noteq> c \<Longrightarrow> bk_instance x \<noteq> None \<Longrightarrow> bk_instance x \<noteq> bk_instance b"
  shows "instances_unique (set_book b bs)"
  unfolding instances_unique_def
proof (intro ballI impI)
  fix d e
  assume de: "d \<in> set (set_book b bs)" "e \<in> set (set_book b bs)" and i: "bk_instance d \<noteq> None" "bk_instance d = bk_instance e"
  from de consider "d = b" "e = b" | "d = b" "e \<in> set bs" "e \<noteq> c" | "d \<in> set bs" "d \<noteq> c" "e = b" | "d \<in> set bs" "e \<in> set bs"
    by (auto simp: S)
  then show "d = e"
  proof cases
    case 1
    then show ?thesis by simp
  next
    case 2
    with new [of e] i show ?thesis by metis
  next
    case 3
    with new [of d] i show ?thesis by metis
  next
    case 4
    with instances_uniqueD [OF uniq] i show ?thesis by metis
  qed
qed

text \<open>Replacing a book by one of the same session whose instance is the same or new.\<close>

lemma books_set:
  assumes ok: "books_ok bs us n" and c: "c \<in> set bs" and b: "bk_id b = bk_id c" "bk_org b = bk_org c" "counters_ok (bk_raw b)"
    and inst: "bk_instance b = Some (uo_instance w)" "uo_org w = bk_org c"
      "bk_instance c = Some (uo_instance w) \<or> bk_instance c = None \<and> (\<forall>d\<in>set bs. bk_instance d \<noteq> Some (uo_instance w))"
    and u: "delta_ok (ud_deltas u)"
    and complete: "bk_complete b \<Longrightarrow> balanced (record_usage_delta w t u us) b"
  shows "books_ok (set_book b bs) (record_usage_delta w t u us) n"
proof -
  note parts = ok [unfolded books_ok_parts]
  have S: "set (set_book b bs) = insert b (set bs - {c})" using parts c b(1) by (intro set_book_mem) auto
  have others: "bk_instance d \<noteq> Some (uo_instance w)" if "d \<in> set bs" "d \<noteq> c" for d
    using instances_uniqueD [of bs d c] parts inst(3) c that by (metis option.distinct(1))
  have owned: "\<forall>v\<in>set us. row_owned (set_book b bs) v"
  proof
    fix v
    assume "v \<in> set us"
    with parts obtain d where d: "d \<in> set bs" "bk_instance d = Some (du_instance v)" "bk_org d = du_org v" "\<forall>f. 0 \<le> du_deltas v f"
      unfolding row_owned_def by blast
    show "row_owned (set_book b bs) v"
    proof (cases "d = c")
      case True
      with d(2) inst have "bk_instance b = Some (du_instance v)" by auto
      with d True b(2) show ?thesis by (auto simp: row_owned_def S)
    next
      case False
      with d show ?thesis by (auto simp: row_owned_def S)
    qed
  qed
  have "\<forall>v\<in>set (record_usage_delta w t u us). row_owned (set_book b bs) v"
    by (rule record_owned [OF owned u]) (use S inst b in auto)
  moreover have "\<forall>d\<in>set (set_book b bs). bk_complete d \<longrightarrow> balanced (record_usage_delta w t u us) d"
    using S complete parts others by (auto intro!: balanced_other)
  moreover have "instances_unique (set_book b bs)"
    by (rule set_book_unique [OF _ S]) (use parts others inst(1) in simp_all)
  moreover have "\<forall>d\<in>set (set_book b bs). bk_id d < n \<and> counters_ok (bk_raw d)"
    unfolding S using parts b c by auto
  ultimately show ?thesis using parts unfolding books_ok_parts by simp
qed

text \<open>The growth of the counters is what the books need.\<close>

lemma calc_balanced:
  assumes old: "bk_complete c \<longrightarrow> balanced us c" and inst: "bk_instance c = Some (uo_instance w) \<or> bk_instance c = None"
    and b: "b = Book (bk_id c) (bk_org c) (Some (uo_instance w)) (ud_complete u) (raw_after cs (bk_raw c))"
    and w: "uo_org w = bk_org c"
    and u: "u = calculate_usage_delta (bk_raw c) cs pt t (bk_complete c) None False" "delta_ok (ud_deltas u)"
    and complete: "bk_complete b"
  shows "balanced (record_usage_delta w t u us) b"
proof -
  have uc: "ud_complete u" using complete b by simp
  then have c: "bk_complete c" and keep: "\<forall>f. \<not> field_reset f (bk_raw c f) (cs f)"
    unfolding u(1) by (simp_all add: calculate_usage_delta_def Let_def usage_fields_ex)
  have dl: "ud_deltas u f = field_delta (bk_raw c f) (cs f)" for f
    unfolding u(1) by (simp add: calculate_usage_delta_def Let_def)
  from old c inst have i: "bk_instance c = Some (uo_instance w)"
      "\<forall>f\<in>octets. usage_total us (bk_org c) (uo_instance w) f = or_zero (bk_raw c f)"
      "\<forall>v\<in>set us. du_instance v = uo_instance w \<longrightarrow> du_complete v" by (auto simp: balanced_def)
  have "or_zero (bk_raw c f) + field_delta (bk_raw c f) (cs f) = or_zero (raw_after cs (bk_raw c) f)" if "f \<in> octets" for f
    using keep [rule_format, of f] that
    by (auto simp: field_reset_def field_delta_def or_zero_def raw_after_def coalesce_def octets_def split: option.splits)
  moreover have "\<forall>v\<in>set (record_usage_delta w t u us). du_instance v = uo_instance w \<longrightarrow> du_complete v"
    by (rule record_complete [OF i(3) u(2) uc])
  ultimately show ?thesis using i(2) w unfolding balanced_def b by (simp add: record_total dl)
qed


section \<open>Every record keeps the books\<close>

lemma book_of_sel [simp]:
  "bk_id (book_of r) = se_id r" "bk_org (book_of r) = se_org r" "bk_instance (book_of r) = se_instance r"
  "bk_complete (book_of r) = se_complete r" "bk_raw (book_of r) = se_raw r"
  by (simp_all add: book_of_def)

lemma best_by_mem: "best_by key rs = Some r \<Longrightarrow> r \<in> set rs"
  by (induction key rs arbitrary: r rule: best_by.induct) (auto split: option.splits if_splits)

lemma find_session_mem: "find_session g p rows = Some r \<Longrightarrow> r \<in> set rows \<and> same_line g p r"
  by (auto simp: find_session_def split: option.splits dest!: best_by_mem)

lemma update_books_same:
  "(\<And>r. book_of (f r) = book_of r) \<Longrightarrow> map book_of (update_session i f rows) = map book_of rows"
  by (simp add: update_session_def)

lemma update_books_set:
  assumes "distinct (map se_id rows)" and "r \<in> set rows" and "bk_id b = se_id r" and "book_of (f r) = b"
  shows "map book_of (update_session (se_id r) f rows) = set_book b (map book_of rows)"
  using assms distinct_key_same [of se_id rows _ r] by (auto simp: update_session_def set_book_def)

lemma close_session_book [simp]: "book_of (close_session cause now r) = book_of r"
  by (simp add: close_session_def book_of_def)

lemma enrich_book [simp]: "book_of (enrich p now r) = book_of r"
  by (simp add: enrich_def book_of_def)

lemma fresh_books: "fresh_instance uuid db \<longleftrightarrow> (\<forall>b\<in>set (map book_of (ad_sessions db)). bk_instance b \<noteq> Some uuid)"
  by (simp add: fresh_instance_def)

lemma close_moved_same:
  assumes "close_moved g p now db = (db', mac)"
  shows "map book_of (ad_sessions db') = map book_of (ad_sessions db) \<and> ad_usage db' = ad_usage db \<and> ad_next db' = ad_next db"
  using assms by (auto simp: close_moved_def update_books_same split: option.splits if_splits)

lemma new_session_book:
  "book_of (new_session i x p c s now ev re whole n) = Book i (ap_org p) (Some x) whole (ap_counters p)"
  by (simp add: new_session_def book_of_def)

lemma insert_session_inv:
  assumes ins: "insert_session p uuid s now ev re whole u db = Inr db'"
    and ok: "books_ok bs (ad_usage db) (ad_next db)" "map book_of (ad_sessions db) = bs"
    and fresh: "\<forall>b\<in>set bs. bk_instance b \<noteq> Some uuid" and c: "counters_ok (ap_counters p)"
    and u: "\<forall>f. ud_deltas u f = 0"
    and complete: "whole \<Longrightarrow> ud_complete u \<and> (\<forall>f\<in>octets. or_zero (ap_counters p f) = 0)"
  shows "usage_inv db'"
proof -
  from ins obtain contract where contract: "ap_contract p = Some contract"
    and db': "db' = receipt (ap_event p) Insert (db\<lparr>ad_sessions := ad_sessions db @
        [new_session (ad_next db) uuid p contract s now ev re whole (ud_session_anomalies u)],
      ad_usage := record_usage_delta (owner_of (new_session (ad_next db) uuid p contract s now ev re whole
        (ud_session_anomalies u)) uuid) (ap_at p) u (ad_usage db), ad_next := Suc (ad_next db)\<rparr>)"
    by (auto simp: insert_session_def Let_def split: option.splits)
  let ?r = "new_session (ad_next db) uuid p contract s now ev re whole (ud_session_anomalies u)"
  have w: "uo_instance (owner_of ?r uuid) = uuid" "uo_org (owner_of ?r uuid) = ap_org p"
    by (simp_all add: owner_of_def new_session_def)
  have "books_ok (bs @ [book_of ?r]) (record_usage_delta (owner_of ?r uuid) (ap_at p) u (ad_usage db)) (Suc (ad_next db))"
    by (rule books_append [OF ok(1)]) (use fresh c u complete w in \<open>auto simp: new_session_book\<close>)
  with ok(2) show ?thesis unfolding db' by (simp add: usage_inv_def receipt_def)
qed

lemma start_session_inv:
  assumes "start_session g p now uuid mac db = Inr (db', res)"
    and ok: "books_ok bs (ad_usage db) (ad_next db)" "map book_of (ad_sessions db) = bs"
    and fresh: "\<forall>b\<in>set bs. bk_instance b \<noteq> Some uuid" and c: "counters_ok (ap_counters p)"
  shows "usage_inv db'"
proof -
  obtain db1 mac' where moved: "close_moved g p now db = (db1, mac')" by fastforce
  define cum where "cum = list_ex (\<lambda>f. 0 < or_zero (ap_counters p f)) usage_fields"
  define u where "u = calculate_usage_delta (\<lambda>_. None) (ap_counters p) None (ap_at p) (\<not> cum)
     (if cum then Some Nonzero_start_baseline else None) True"
  from assms(1) moved have ins: "insert_session p uuid (ap_at p) now True None (ud_complete u) u db1 = Inr db'"
    by (auto simp: start_session_def Let_def bind_r_Inr_conv cum_def u_def)
  have same: "map book_of (ad_sessions db1) = bs" "ad_usage db1 = ad_usage db" "ad_next db1 = ad_next db"
    using close_moved_same [OF moved] ok(2) by simp_all
  have z: "or_zero (ap_counters p f) = 0" if "ud_complete u" for f
  proof -
    have "\<not> cum" using that by (simp add: u_def calculate_usage_delta_def Let_def split: if_splits)
    then have "\<not> 0 < or_zero (ap_counters p f)" unfolding cum_def usage_fields_ex by blast
    moreover have "0 \<le> or_zero (ap_counters p f)" using c by (auto simp: counters_ok_def or_zero_def split: option.splits)
    ultimately show ?thesis by simp
  qed
  show ?thesis
    by (rule insert_session_inv [OF ins _ same(1) fresh c]) (use ok same z in \<open>simp_all add: u_def calculate_usage_delta_def Let_def\<close>)
qed

lemma late_session_inv:
  assumes "late_session p now uuid db = Inr (db', res)" and "usage_inv db" and "fresh_instance uuid db"
    and "counters_ok (ap_counters p)"
  shows "usage_inv db'"
proof -
  let ?u = "calculate_usage_delta (\<lambda>_. None) (ap_counters p) None (ap_at p) False (Some Missing_start_baseline) True"
  from assms(1) have ins: "insert_session p uuid (ap_at p - max 0 (or_zero (ap_counters p Duration)) * 1000) now False
      (Some ''missing_start'') False ?u db = Inr db'"
    by (auto simp: late_session_def Let_def bind_r_Inr_conv)
  show ?thesis
    by (rule insert_session_inv [OF ins _ refl])
      (use assms in \<open>simp_all add: usage_inv_def fresh_books calculate_usage_delta_def Let_def\<close>)
qed

lemma receipt_inv [simp]: "usage_inv (receipt e x db) = usage_inv db"
  by (simp add: receipt_def usage_inv_def)

lemma ingest_start_inv:
  assumes run: "ingest_start g p now uuid db = Inr (db', res)" and inv: "usage_inv db" and fresh: "fresh_instance uuid db"
    and c: "counters_ok (ap_counters p)"
  shows "usage_inv db'"
proof -
  let ?bs = "map book_of (ad_sessions db)"
  have ok: "books_ok ?bs (ad_usage db) (ad_next db)" using inv by (simp add: usage_inv_def)
  have fr: "\<forall>b\<in>set ?bs. bk_instance b \<noteq> Some uuid" using fresh by (simp only: fresh_books)
  have start: "usage_inv db2" if "start_session g p now uuid mac db1 = Inr (db2, res)" and "map book_of (ad_sessions db1) = ?bs"
      "ad_usage db1 = ad_usage db" "ad_next db1 = ad_next db" for db1 db2 mac
    using start_session_inv [OF that(1) _ that(2) fr c] ok that by simp
  show ?thesis
  proof (cases "find_session g p (ad_sessions db)")
    case None
    with run start [of False db] show ?thesis by (simp add: ingest_start_def)
  next
    case (Some d)
    with run start show ?thesis
      by (auto simp: ingest_start_def noop_def usage_inv_def update_books_same ok receipt_def split: if_splits)
  qed
qed


lemma inv_ids: "usage_inv db \<Longrightarrow> distinct (map se_id (ad_sessions db))"
  by (simp add: usage_inv_def books_ok_def comp_def)

text \<open>A faulted session keeps its books, without the claim that they are complete.\<close>

lemma books_fault:
  assumes ok: "books_ok bs us n" and c: "c \<in> set bs"
  shows "books_ok (set_book (Book (bk_id c) (bk_org c) (bk_instance c) False (bk_raw c)) bs) us n"
proof -
  let ?b = "Book (bk_id c) (bk_org c) (bk_instance c) False (bk_raw c)"
  note parts = ok [unfolded books_ok_parts]
  have S: "set (set_book ?b bs) = insert ?b (set bs - {c})" using parts c by (intro set_book_mem) auto
  have "row_owned (set_book ?b bs) v" if "row_owned bs v" for v
    using that c unfolding row_owned_def S by (metis book.sel(2,3) insertCI insertE insert_Diff)
  moreover have "instances_unique (set_book ?b bs)"
    by (rule set_book_unique [OF _ S]) (use parts instances_uniqueD [of bs _ c] c in auto)
  moreover have "\<forall>d\<in>set (set_book ?b bs). bk_id d < n \<and> counters_ok (bk_raw d) \<and> (bk_complete d \<longrightarrow> balanced us d)"
    unfolding S using parts c by auto
  ultimately show ?thesis using parts unfolding books_ok_parts by simp
qed

definition counted_book :: "acct_packet \<Rightarrow> nat \<Rightarrow> usage_delta \<Rightarrow> session \<Rightarrow> book" where
  "counted_book p i u r = Book (se_id r) (se_org r) (coalesce (se_instance r) (Some i)) (ud_complete u)
     (raw_after (ap_counters p) (se_raw r))"

lemma counted_books:
  "book_of (correct_stop p i now u r) = counted_book p i u r" "book_of (accept_update p i now u r) = counted_book p i u r"
  by (simp_all add: correct_stop_def accept_update_def count_usage_def book_of_def counted_book_def)

lemma raw_after_ok: "counters_ok cs \<Longrightarrow> counters_ok old \<Longrightarrow> counters_ok (raw_after cs old)"
  unfolding counters_ok_def raw_after_def coalesce_def by (auto split: option.splits)

lemma counted_inv:
  assumes inv: "usage_inv db" and r: "r \<in> set (ad_sessions db)" and fresh: "fresh_instance uuid db"
    and c: "counters_ok (ap_counters p)" and i: "i = (case se_instance r of None \<Rightarrow> uuid | Some j \<Rightarrow> j)"
    and u: "u = session_usage p r" and f: "book_of (f r) = counted_book p i u r"
    and run: "write_session p r i f (Some u) db = Inr (db', res)"
  shows "usage_inv db'"
proof -
  let ?bs = "map book_of (ad_sessions db)" and ?w = "owner_of r i" and ?b = "counted_book p i u r"
  have ok: "books_ok ?bs (ad_usage db) (ad_next db)" using inv by (simp add: usage_inv_def)
  have mem: "book_of r \<in> set ?bs" using r by simp
  have rok: "counters_ok (se_raw r)" and bal: "se_complete r \<longrightarrow> balanced (ad_usage db) (book_of r)"
    using bspec [OF _ mem, of "\<lambda>b. counters_ok (bk_raw b)"] bspec [OF _ mem, of "\<lambda>b. bk_complete b \<longrightarrow> balanced (ad_usage db) b"]
      ok [unfolded books_ok_parts] by simp_all
  have w: "uo_instance ?w = i" "uo_org ?w = se_org r" by (simp_all add: owner_of_def)
  have dok: "delta_ok (ud_deltas u)" unfolding u session_usage_def by (rule delta_ok_calc [OF c rok])
  have inst: "bk_instance ?b = Some i" using i by (cases "se_instance r") (simp_all add: counted_book_def coalesce_def)
  have old: "se_instance r = Some i \<or> se_instance r = None \<and> (\<forall>d\<in>set ?bs. bk_instance d \<noteq> Some i)"
    using i fresh by (cases "se_instance r") (simp_all add: fresh_books)
  have "books_ok (set_book ?b ?bs) (record_usage_delta ?w (ap_at p) u (ad_usage db)) (ad_next db)"
  proof (rule books_set [OF ok mem])
    show "balanced (record_usage_delta ?w (ap_at p) u (ad_usage db)) ?b" if "bk_complete ?b"
      using bal inst that old w dok
      by (intro calc_balanced [of "book_of r" _ _ _ _ "ap_counters p" "Some (last_seen r)" "ap_at p"])
        (auto simp: counted_book_def u session_usage_def)
  qed (use inst old w dok raw_after_ok [OF c rok] in \<open>auto simp: counted_book_def\<close>)
  moreover have "map book_of (update_session (se_id r) f (ad_sessions db)) = set_book ?b ?bs"
    by (rule update_books_set [OF inv_ids [OF inv] r]) (simp_all add: f counted_book_def)
  ultimately show ?thesis using run by (auto simp: write_session_def usage_inv_def receipt_def)
qed

lemma noop_inv: "noop p r i db = Inr (db', res) \<Longrightarrow> usage_inv db \<Longrightarrow> usage_inv db'"
  by (auto simp: noop_def)

lemma ingest_update_inv:
  assumes run: "ingest_update g p now uuid db = Inr (db', res)" and inv: "usage_inv db" and fresh: "fresh_instance uuid db"
    and c: "counters_ok (ap_counters p)"
  shows "usage_inv db'"
proof (cases "find_session g p (ad_sessions db)")
  case None
  with run late_session_inv [OF _ inv fresh c] show ?thesis by (simp add: ingest_update_def)
next
  case (Some r)
  have r: "r \<in> set (ad_sessions db)" using find_session_mem [OF Some] by simp
  let ?i = "case se_instance r of None \<Rightarrow> uuid | Some j \<Rightarrow> j" and ?u = "session_usage p r"
  have ok: "books_ok (map book_of (ad_sessions db)) (ad_usage db) (ad_next db)" using inv by (simp add: usage_inv_def)
  have fault: "usage_inv db'" if "write_session p r ?i (close_out_of_order p now) None db = Inr (db', res)"
  proof -
    let ?b = "Book (se_id r) (se_org r) (se_instance r) False (se_raw r)"
    have "map book_of (update_session (se_id r) (close_out_of_order p now) (ad_sessions db)) = set_book ?b (map book_of (ad_sessions db))"
      by (rule update_books_set [OF inv_ids [OF inv] r]) (simp_all add: close_out_of_order_def book_of_def)
    with that books_fault [OF ok, of "book_of r"] r show ?thesis
      by (auto simp: write_session_def usage_inv_def receipt_def)
  qed
  from run [unfolded ingest_update_def Some option.case Let_def] show ?thesis
    using late_session_inv [OF _ inv fresh c, of now db' res] fault inv
      noop_inv [OF _ inv, of p r "Some ?i" db' res] counted_inv [OF inv r fresh c, of ?i ?u "correct_stop p ?i now ?u"]
      counted_inv [OF inv r fresh c, of ?i ?u "accept_update p ?i now ?u"]
    by (simp add: counted_books split: if_split_asm)
qed

lemma ingest_packet_inv:
  assumes "ingest_packet g p now uuid db = Inr (db', res)" and "usage_inv db" and "fresh_instance uuid db"
    and "counters_ok (ap_counters p)"
  shows "usage_inv db'"
  using assms ingest_start_inv ingest_update_inv by (auto simp: ingest_packet_def split: if_splits)

lemma check_counters_ok: "check_counters vs = Inr () \<Longrightarrow> (f, Some n, m) \<in> set vs \<Longrightarrow> 0 \<le> n \<and> n \<le> m"
  by (induction vs rule: check_counters.induct) (auto split: option.splits if_splits)

lemma octet_counter_ok: "octet_counter a b = Inr (Some n) \<Longrightarrow> 0 \<le> n \<and> n \<le> max_safe"
  by (auto simp: octet_counter_def combine_octets_gigawords_def Let_def split: if_splits)

lemma if_Inl: "(if c then Inl e else k) = Inr v \<longleftrightarrow> \<not> c \<and> k = Inr v"
  by simp

lemma read_packet_counters:
  assumes "read_packet g db now a = Inr p"
  shows "counters_ok (ap_counters p)"
proof -
  from assms obtain bytes_in bytes_out where b: "octet_counter (at_in_octets a) (at_in_giga a) = Inr bytes_in"
      "octet_counter (at_out_octets a) (at_out_giga a) = Inr bytes_out" "check_counters (numeric_attrs a) = Inr ()"
    and p: "ap_counters p = packet_counters bytes_in bytes_out a"
    by (cases "status_event (at_status a)")
      (auto simp add: read_packet_def bind_r_Inr_conv if_Inl simp del: optional_texts.simps check_counters.simps split: prod.splits)
  have num: "(f, Some n, m) \<in> set (numeric_attrs a) \<Longrightarrow> 0 \<le> n \<and> n \<le> m" for f n m
    by (rule check_counters_ok [OF b(3)])
  have "0 \<le> n \<and> n \<le> max_safe" if "packet_counters bytes_in bytes_out a f = Some n" for f n
    using that octet_counter_ok b(1,2) num [of "''acctInputPackets''" n max_safe] num [of "''acctOutputPackets''" n max_safe]
      num [of "''acctSessionTime''" n "0xffffffff"]
    by (cases f) (auto simp: packet_counters_def numeric_attrs_def max_safe_def)
  then show ?thesis by (simp add: counters_ok_def p)
qed


section \<open>Usage is exact while a session is complete\<close>

text \<open>The tables before the first record: no usage, and perhaps sessions of older versions, which have
  no instance and are never complete.\<close>

definition accounting_start :: "acct_db \<Rightarrow> bool" where
  "accounting_start db \<longleftrightarrow> ad_usage db = [] \<and> distinct (map se_id (ad_sessions db)) \<and>
     (\<forall>r\<in>set (ad_sessions db). se_id r < ad_next db \<and> se_instance r = None \<and> \<not> se_complete r \<and> se_raw r = (\<lambda>_. None))"

text \<open>Records, sweeps and restarts of a NAS in any order, while the NAS and account tables change at will.\<close>

inductive acct_reach :: "acct_config \<Rightarrow> acct_db \<Rightarrow> bool" for g where
  Init: "accounting_start db \<Longrightarrow> acct_reach g db"
| Record: "acct_reach g db \<Longrightarrow> fresh_instance uuid db \<Longrightarrow> ingest_accounting g a now uuid db = Inr (db', res) \<Longrightarrow> acct_reach g db'"
| Infrastructure: "acct_reach g db \<Longrightarrow> record_infrastructure_accounting org nas_id status now db = Inr db' \<Longrightarrow> acct_reach g db'"
| Sweep: "acct_reach g db \<Longrightarrow> acct_reach g (close_stale_sessions g org now db)"
| Admin: "acct_reach g db \<Longrightarrow> acct_reach g (db\<lparr>ad_nas := nases, ad_accounts := accounts\<rparr>)"

lemma close_open_inv: "usage_inv (close_open_sessions org nas_id older cause reason now db) = usage_inv db"
proof -
  have book: "book_of (r\<lparr>se_evidence_reason := x\<rparr>) = book_of r" for r x by (simp add: book_of_def)
  have "book_of (if c then (close_session cause now r)\<lparr>se_evidence_reason := x\<rparr> else r) = book_of r" for r c x
    by (cases c) (simp_all add: book close_session_book)
  then have "map book_of (ad_sessions (close_open_sessions org nas_id older cause reason now db)) = map book_of (ad_sessions db)"
    by (simp add: close_open_sessions_def)
  moreover have "ad_usage (close_open_sessions org nas_id older cause reason now db) = ad_usage db"
      "ad_next (close_open_sessions org nas_id older cause reason now db) = ad_next db"
    by (simp_all add: close_open_sessions_def)
  ultimately show ?thesis by (simp only: usage_inv_def)
qed

lemma start_inv: "accounting_start db \<Longrightarrow> usage_inv db"
  unfolding accounting_start_def usage_inv_def books_ok_parts
  by (auto simp: comp_def counters_ok_def instances_unique_def)

lemma reach_inv: "acct_reach g db \<Longrightarrow> usage_inv db"
proof (induction rule: acct_reach.induct)
  case (Init db)
  then show ?case by (rule start_inv)
next
  case (Record db uuid a now db' res)
  then obtain p where "read_packet g db now a = Inr p" "ingest_packet g p now uuid db = Inr (db', res)"
    by (auto simp: ingest_accounting_def bind_r_Inr_conv)
  with Record ingest_packet_inv read_packet_counters show ?case by blast
next
  case (Infrastructure db org nas_id status now db')
  then show ?case by (auto simp: record_infrastructure_accounting_def close_open_inv split: if_splits)
next
  case (Sweep db org now)
  then show ?case by (simp add: close_stale_sessions_def close_open_inv)
next
  case (Admin db nases accounts)
  then show ?case by (simp add: usage_inv_def)
qed

text \<open>C2: usage is never invented and never billed twice. After any records, restarts and sweeps, a session
  that is still complete has daily rows that add up to exactly its last octet counters, all of them
  marked complete; every daily row belongs to one session, and no row takes usage away.\<close>

theorem usage_exact:
  assumes "acct_reach g db"
  shows "(\<forall>r\<in>set (ad_sessions db). se_complete r \<longrightarrow>
      (\<exists>i. se_instance r = Some i \<and>
         usage_total (ad_usage db) (se_org r) i Bytes_in = or_zero (se_raw r Bytes_in) \<and>
         usage_total (ad_usage db) (se_org r) i Bytes_out = or_zero (se_raw r Bytes_out) \<and>
         (\<forall>u\<in>set (ad_usage db). du_instance u = i \<longrightarrow> du_complete u))) \<and>
    (\<forall>u\<in>set (ad_usage db). (\<exists>!i. \<exists>r\<in>set (ad_sessions db). se_id r = i \<and> se_instance r = Some (du_instance u) \<and>
       se_org r = du_org u) \<and> (\<forall>f. 0 \<le> du_deltas u f))"
proof -
  let ?bs = "map book_of (ad_sessions db)"
  note ok = reach_inv [OF assms, unfolded usage_inv_def books_ok_parts]
  have uniq: "se_id r = se_id s" if "r \<in> set (ad_sessions db)" "s \<in> set (ad_sessions db)"
      "se_instance r = Some i" "se_instance s = Some i" for r s i
    using instances_uniqueD [of ?bs "book_of r" "book_of s"] ok that by (auto dest: arg_cong [of _ _ bk_id])
  have "balanced (ad_usage db) (book_of r)" if "r \<in> set (ad_sessions db)" "se_complete r" for r
    using ok that by simp
  then have "\<forall>r\<in>set (ad_sessions db). se_complete r \<longrightarrow>
      (\<exists>i. se_instance r = Some i \<and>
         usage_total (ad_usage db) (se_org r) i Bytes_in = or_zero (se_raw r Bytes_in) \<and>
         usage_total (ad_usage db) (se_org r) i Bytes_out = or_zero (se_raw r Bytes_out) \<and>
         (\<forall>u\<in>set (ad_usage db). du_instance u = i \<longrightarrow> du_complete u))"
    by (fastforce simp: balanced_def octets_def)
  moreover have "\<exists>!i. \<exists>r\<in>set (ad_sessions db). se_id r = i \<and> se_instance r = Some (du_instance u) \<and> se_org r = du_org u"
    if "u \<in> set (ad_usage db)" for u
  proof -
    from ok that have "row_owned ?bs u" by simp
    then obtain r where "r \<in> set (ad_sessions db)" "se_instance r = Some (du_instance u)" "se_org r = du_org u"
      by (auto simp: row_owned_def)
    with uniq show ?thesis by blast
  qed
  moreover have "\<forall>u\<in>set (ad_usage db). \<forall>f. 0 \<le> du_deltas u f" using ok by (simp add: row_owned_def)
  ultimately show ?thesis by blast
qed


section \<open>A record that arrives twice\<close>
































section \<open>Counters that a Start leaves out\<close>

text \<open>A session whose Start carried no octet counters, which is how RFC 2866 has it, is never complete:
  the first record that brings the counters is taken for a counter reset, its octets are not counted, and
  a session that was marked incomplete never becomes complete again.\<close>

theorem start_without_octets_incomplete:
  assumes "acct_reach g db" and "find_session g p (ad_sessions db) = Some r" and "ap_event p \<noteq> Start"
    and "se_raw r Bytes_in = None" "ap_counters p Bytes_in = Some n"
    and "ingest_packet g p now uuid db = Inr (db', res)" and "ar_action res = Update"
  shows "(\<exists>s\<in>set (ad_sessions db'). se_id s = se_id r \<and> \<not> se_complete s) \<and>
    (\<forall>i. se_instance r = Some i \<longrightarrow>
       usage_total (ad_usage db') (se_org r) i Bytes_in = usage_total (ad_usage db) (se_org r) i Bytes_in) \<and>
    (\<forall>q s. \<not> se_complete s \<longrightarrow> \<not> ud_complete (session_usage q s))"
proof -
  have r: "r \<in> set (ad_sessions db)" using find_session_mem [OF assms(2)] by simp
  let ?i = "case se_instance r of None \<Rightarrow> uuid | Some j \<Rightarrow> j" and ?u = "session_usage p r"
  have u: "\<not> ud_complete ?u" "ud_deltas ?u Bytes_in = 0"
    using assms(4,5) by (auto simp: session_usage_def calculate_usage_delta_def Let_def usage_fields_ex field_reset_def
        field_delta_def intro: exI [of _ Bytes_in])
  have once: "\<forall>q s. \<not> se_complete s \<longrightarrow> \<not> ud_complete (session_usage q s)"
    by (simp add: session_usage_def calculate_usage_delta_def Let_def)
  have upd: "f r \<in> set (update_session (se_id r) f (ad_sessions db))" for f
    using r by (auto simp: update_session_def image_iff intro: bexI [of _ r])
  have written: ?thesis
    if "write_session p r ?i f x db = Inr (db', res)" "se_id (f r) = se_id r" "\<not> se_complete (f r)" "x = None \<or> x = Some ?u" for f x
  proof -
    from that(1) have db': "ad_sessions db' = update_session (se_id r) f (ad_sessions db)"
        "ad_usage db' = (case x of None \<Rightarrow> ad_usage db | Some d \<Rightarrow> record_usage_delta (owner_of r ?i) (ap_at p) d (ad_usage db))"
      by (auto simp: write_session_def receipt_def)
    have "usage_total (ad_usage db') (se_org r) i Bytes_in = usage_total (ad_usage db) (se_org r) i Bytes_in" for i
      using that(4) u(2) db'(2) by (auto simp: record_total)
    with upd [of f] that(2,3) db'(1) once show ?thesis by auto
  qed
  have fields: "se_id (correct_stop p i now ?u r) = se_id r" "\<not> se_complete (correct_stop p i now ?u r)"
      "se_id (accept_update p i now ?u r) = se_id r" "\<not> se_complete (accept_update p i now ?u r)"
      "se_id (close_out_of_order p now r) = se_id r" "\<not> se_complete (close_out_of_order p now r)" for i
    using u(1) by (simp_all add: correct_stop_def accept_update_def count_usage_def close_out_of_order_def)
  have noop: "\<not> noop p r x db = Inr (db', res)" for x using assms(7) by (auto simp: noop_def)
  have late: "\<not> late_session p now uuid db = Inr (db', res)"
    using assms(7) by (auto simp: late_session_def bind_r_Inr_conv Let_def)
  from assms(3,6) have "ingest_update g p now uuid db = Inr (db', res)" by (simp add: ingest_packet_def)
  from this [unfolded ingest_update_def assms(2) option.case Let_def] noop late fields
    written [of "correct_stop p ?i now ?u" "Some ?u"] written [of "accept_update p ?i now ?u" "Some ?u"]
    written [of "close_out_of_order p now" None]
  show ?thesis by (simp split: if_split_asm)
qed

text \<open>The accounting of an account without a contract is never stored. Its first record, whatever it is,
  fails on the contract column, so the NAS gets no answer and the session leaves no trace, although the
  RADIUS server accepts such an account.\<close>

theorem contractless_never_stored:
  assumes "ap_contract p = None" and "find_session g p (ad_sessions db) = None"
  shows "ingest_packet g p now uuid db = Inl (Null_column ''contract_id'')"
  using assms
  by (simp add: ingest_packet_def ingest_start_def ingest_update_def start_session_def late_session_def insert_session_def
      Let_def split: prod.splits)

section \<open>Witnesses\<close>

definition sample_config :: acct_config where
  "sample_config = \<lparr>ag_name_eq = (=), ag_skew = None, ag_liveness = None\<rparr>"

definition sample_tables :: acct_db where
  "sample_tables = \<lparr>ad_nas = [\<lparr>an_id = 3, an_org = 1, an_ip = ''10.0.0.1'', an_active = True, an_live = True\<rparr>],
     ad_accounts = [\<lparr>aa_id = 5, aa_org = 1, aa_username = ''ana'', aa_live = True, aa_contract = Some 8, aa_client = 9\<rparr>],
     ad_sessions = [], ad_usage = [], ad_moves = [], ad_receipts = [], ad_next = 1\<rparr>"

definition sample_attrs :: "string \<Rightarrow> int option \<Rightarrow> int \<Rightarrow> acct_attrs" where
  "sample_attrs status octs t =
     \<lparr>at_status = status, at_user = Some ''ana'', at_session = Some ''s1'', at_nas_ip = Some ''10.0.0.1'',
      at_port = None, at_called = None, at_calling = None, at_framed_ip = None, at_framed6 = None,
      at_delegated6 = None, at_address6 = None, at_in_octets = octs, at_out_octets = octs, at_in_giga = None,
      at_out_giga = None, at_seconds = None, at_cause = None, at_in6 = None, at_out6 = None, at_in_packets = None,
      at_out_packets = None, at_time = Epoch t, at_delay = None, at_org = 1, at_nas = Some 3\<rparr>"

definition sample_packet :: "acct_event \<Rightarrow> int option \<Rightarrow> int \<Rightarrow> acct_packet" where
  "sample_packet e octs t =
     \<lparr>ap_org = 1, ap_nas = 3, ap_nas_ip = ''10.0.0.1'', ap_contract = Some 8, ap_client = 9, ap_user = ''ana'',
      ap_session = ''s1'', ap_port = None, ap_called = None, ap_calling = None, ap_framed_ip = None, ap_framed6 = None,
      ap_delegated6 = None, ap_address6 = None, ap_counters = case_usage_field octs octs None None None, ap_in6 = None,
      ap_out6 = None, ap_stack = None, ap_delay = 0, ap_at = t * 1000, ap_explicit = True, ap_cause = None, ap_event = e\<rparr>"

lemma sample_ip: "is_ip ''10.0.0.1'' = 4" "normalize_ip ''10.0.0.1'' = ''10.0.0.1''"
  by code_simp+

lemma sample_strings: "js_trim ''ana'' \<noteq> []" "js_trim ''s1'' \<noteq> []" "js_trim ''10.0.0.1'' \<noteq> []"
  by code_simp+

lemma sample_read:
  assumes "ad_nas db = ad_nas sample_tables" "ad_accounts db = ad_accounts sample_tables"
    and "status_event status = Some e" and "0 \<le> t" "t \<le> 1000" and "case octs of None \<Rightarrow> True | Some n \<Rightarrow> 0 \<le> n \<and> n \<le> 10000"
  shows "read_packet sample_config db 2000000 (sample_attrs status octs t) = Inr (sample_packet e octs t)"
  using assms
  by (cases octs)
    (simp_all add: read_packet_def sample_attrs_def required_text_def sample_strings sample_ip prefix_attr_def address_attr_def
      truthy_def numeric_attrs_def max_safe_def resolve_accounting_def sample_tables_def sample_config_def
      octet_counter_def combine_octets_gigawords_def or_zero_def Let_def observed_at_def normalize_event_timestamp_def
      max_timestamp_def future_skew_def setting_def normalize_terminate_cause_def packet_counters_def
      derive_stack_type_def sample_packet_def)


text \<open>The session of a Start with or without octet counters, and an Interim-Update of 1000 octets.\<close>

definition sample_session :: "int option \<Rightarrow> session" where
  "sample_session octs = new_session 1 7 (sample_packet Start octs 100) 8 100000 2000000 True None True 0"

definition sample_started :: "int option \<Rightarrow> acct_db" where
  "sample_started octs = sample_tables\<lparr>ad_sessions := [sample_session octs], ad_receipts := [(Start, Insert)], ad_next := 2\<rparr>"

lemma sample_start:
  assumes "octs = None \<or> octs = Some 0"
  shows "\<exists>res. ingest_accounting sample_config (sample_attrs ''Start'' octs 100) 2000000 7 sample_tables = Inr (sample_started octs, res)"
proof -
  have "read_packet sample_config sample_tables 2000000 (sample_attrs ''Start'' octs 100) = Inr (sample_packet Start octs 100)"
    by (rule sample_read) (use assms in \<open>auto simp: status_event_def\<close>)
  with assms show ?thesis
    by (elim disjE)
      (simp_all add: ingest_accounting_def ingest_packet_def ingest_start_def find_session_def sample_packet_def
        sample_tables_def start_session_def close_moved_def open_elsewhere_def Let_def usage_fields_def or_zero_def
        calculate_usage_delta_def insert_session_def receipt_def record_usage_delta_def sample_started_def
        sample_session_def)
qed

lemma sample_session_fields:
  "se_id (sample_session octs) = 1" "se_org (sample_session octs) = 1" "se_nas (sample_session octs) = Some 3"
  "se_username (sample_session octs) = ''ana''" "se_acct_id (sample_session octs) = Some ''s1''"
  "se_instance (sample_session octs) = Some 7" "se_event (sample_session octs) = Start"
  "last_seen (sample_session octs) = 100000" "se_complete (sample_session octs)"
  "se_framed_ip (sample_session octs) = None" "se_framed6 (sample_session octs) = None"
  "se_raw (sample_session octs) = case_usage_field octs octs None None None"
  by (simp_all add: sample_session_def new_session_def sample_packet_def last_seen_def)

definition sample_update :: acct_packet where
  "sample_update = sample_packet Interim (Some 1000) 200"

definition sample_delta :: "int option \<Rightarrow> usage_delta" where
  "sample_delta octs = session_usage sample_update (sample_session octs)"

lemma sample_find: "find_session sample_config sample_update (ad_sessions (sample_started octs)) = Some (sample_session octs)"
  by (simp add: find_session_def sample_started_def same_line_def sample_session_fields sample_update_def sample_packet_def
      sample_config_def text_eq_def)

lemma sample_interim:
  "\<exists>db res. ingest_accounting sample_config (sample_attrs ''Interim-Update'' (Some 1000) 200) 2000000 9 (sample_started octs) = Inr (db, res) \<and>
     ingest_packet sample_config sample_update 2000000 9 (sample_started octs) = Inr (db, res) \<and> ar_action res = Update \<and>
     ad_sessions db = [accept_update sample_update 7 2000000 (sample_delta octs) (sample_session octs)]"
proof -
  have read: "read_packet sample_config (sample_started octs) 2000000 (sample_attrs ''Interim-Update'' (Some 1000) 200) = Inr sample_update"
    unfolding sample_update_def by (rule sample_read) (simp_all add: sample_started_def status_event_def)
  have "\<exists>db res. ingest_packet sample_config sample_update 2000000 9 (sample_started octs) = Inr (db, res) \<and> ar_action res = Update \<and>
     ad_sessions db = [accept_update sample_update 7 2000000 (sample_delta octs) (sample_session octs)]"
    by (simp add: ingest_packet_def ingest_update_def sample_find Let_def sample_session_fields)
      (simp add: sample_update_def sample_packet_def sample_session_fields differs_def truthy_def exact_replay_def
        write_session_def receipt_def update_session_def sample_started_def sample_tables_def sample_delta_def)
  then show ?thesis by (simp add: ingest_accounting_def read)
qed

lemma sample_reach: "octs = None \<or> octs = Some 0 \<Longrightarrow> acct_reach sample_config (sample_started octs)"
proof -
  assume "octs = None \<or> octs = Some 0"
  from sample_start [OF this] obtain res where start:
    "ingest_accounting sample_config (sample_attrs ''Start'' octs 100) 2000000 7 sample_tables = Inr (sample_started octs, res)" by blast
  have "acct_reach sample_config sample_tables"
    by (rule acct_reach.Init) (simp add: accounting_start_def sample_tables_def)
  from acct_reach.Record [OF this _ start] show ?thesis by (simp add: fresh_instance_def sample_tables_def)
qed

theorem usage_exact_witness:
  "\<exists>db r. acct_reach sample_config db \<and> r \<in> set (ad_sessions db) \<and> se_complete r \<and> se_instance r = Some 7 \<and>
     se_raw r Bytes_in = Some 1000 \<and> usage_total (ad_usage db) 1 7 Bytes_in = 1000"
proof -
  let ?r = "accept_update sample_update 7 2000000 (sample_delta (Some 0)) (sample_session (Some 0))"
  obtain db res where interim: "ingest_accounting sample_config (sample_attrs ''Interim-Update'' (Some 1000) 200) 2000000 9
      (sample_started (Some 0)) = Inr (db, res)" and s: "ad_sessions db = [?r]"
    using sample_interim [of "Some 0"] by blast
  have reach: "acct_reach sample_config db"
    by (rule acct_reach.Record [OF sample_reach _ interim]) (simp_all add: fresh_instance_def sample_started_def sample_session_fields)
  have "ud_complete (sample_delta (Some 0))"
    by (simp add: sample_delta_def session_usage_def calculate_usage_delta_def Let_def sample_session_fields
        sample_update_def sample_packet_def usage_fields_def field_reset_def)
  then have r: "se_complete ?r" "se_instance ?r = Some 7" "se_org ?r = 1" "se_raw ?r Bytes_in = Some 1000"
    by (simp_all add: accept_update_def count_usage_def sample_session_fields coalesce_def raw_after_def sample_update_def sample_packet_def)
  from usage_exact [OF reach] s r have "usage_total (ad_usage db) 1 7 Bytes_in = 1000" by (auto simp: or_zero_def)
  with reach s r show ?thesis by auto
qed


theorem start_without_octets_incomplete_witness:
  "\<exists>db res s. ingest_packet sample_config sample_update 2000000 9 (sample_started None) = Inr (db, res) \<and>
     s \<in> set (ad_sessions db) \<and> \<not> se_complete s"
proof -
  obtain db res where first: "ingest_packet sample_config sample_update 2000000 9 (sample_started None) = Inr (db, res)"
      "ar_action res = Update" using sample_interim [of None] by blast
  have "ap_event sample_update \<noteq> Start" "ap_counters sample_update Bytes_in = Some 1000" "se_raw (sample_session None) Bytes_in = None"
    by (simp_all add: sample_update_def sample_packet_def sample_session_fields)
  from start_without_octets_incomplete [OF sample_reach sample_find this(1,3,2) first] first(1) show ?thesis by blast
qed

theorem contractless_never_stored_witness:
  "ingest_packet sample_config ((sample_packet Start (Some 0) 100)\<lparr>ap_contract := None\<rparr>) 2000000 7 sample_tables =
     Inl (Null_column ''contract_id'')"
  by (rule contractless_never_stored) (simp_all add: find_session_def sample_tables_def)

end
