(* ===== verification/Routeros.thy ===== *)
theory Routeros
  imports Vb_Prelude "HOL-Library.Word" "HOL-Library.Sublist"
begin

text \<open>
  The RouterOS API client (\<open>src/src/services/routerosService.js\<close>): the length-prefixed words of the
  protocol, the reassembly of sentences from the chunks a socket delivers, and the queue of commands that
  wait for their reply.

  A word is the list of its UTF-8 bytes, and a received word is its bytes. The reading loop may never end,
  so it is a partial function: \<open>None\<close> is the loop that does not return.
\<close>

unbundle bit_operations_syntax

section \<open>Data\<close>

type_synonym bytes = "8 word list"
type_synonym ros_word = bytes
type_synonym sentence = "ros_word list"

text \<open>What \<open>readWord\<close> returns. The next offset is \<open>None\<close> where the code computes NaN.\<close>

datatype read_result = Not_enough | Read ros_word "int option"

datatype ros_error = Trap "ros_word option" ros_word | Timed_out | Closed | Socket_failed | Write_failed

record waiting =
  wt_id :: nat
  wt_sentences :: "sentence list"

record ros_client =
  rc_buf :: bytes
  rc_pending :: "waiting list"
  rc_settled :: "(nat \<times> (ros_error + sentence list)) list"

section \<open>Words\<close>

definition ascii :: "string \<Rightarrow> ros_word" where
  "ascii s = map (\<lambda>c. of_nat (code_unit c)) s"

text \<open>\<open>(len >> k) & 0xff\<close>.\<close>

definition len_byte :: "nat \<Rightarrow> nat \<Rightarrow> 8 word" where
  "len_byte len k = of_nat (len div 2 ^ k)"

definition encode_word :: "ros_word \<Rightarrow> bytes" where
  "encode_word w =
     (let len = length w in
      (if len < 0x80 then [of_nat len]
       else if len < 0x4000 then [len_byte len 8 OR 0x80, len_byte len 0]
       else if len < 0x200000 then [len_byte len 16 OR 0xC0, len_byte len 8, len_byte len 0]
       else if len < 0x10000000 then [len_byte len 24 OR 0xE0, len_byte len 16, len_byte len 8, len_byte len 0]
       else [0xF0, len_byte len 24, len_byte len 16, len_byte len 8, len_byte len 0]) @ w)"

definition encode_sentence :: "sentence \<Rightarrow> bytes" where
  "encode_sentence words = concat (map encode_word words) @ [0]"

text \<open>The value of some bytes, big-endian; \<open><< 24\<close> makes the four-byte value signed.\<close>

definition be_val :: "bytes \<Rightarrow> nat" where
  "be_val b = foldl (\<lambda>n x. n * 256 + unat x) 0 b"

definition signed32 :: "nat \<Rightarrow> int" where
  "signed32 n = (if n < 2 ^ 31 then int n else int n - 2 ^ 32)"

text \<open>The header at the front: its size and the length it announces; \<open>None\<close> when it is cut off.\<close>

definition word_header :: "bytes \<Rightarrow> (nat \<times> int) option" where
  "word_header b =
     (let b0 = hd b in
      if b0 AND 0x80 = 0 then Some (1, int (unat b0))
      else if b0 AND 0xC0 = 0x80 then
        (if length b < 2 then None else Some (2, int (be_val [b0 AND 0x3F, b ! 1])))
      else if b0 AND 0xE0 = 0xC0 then
        (if length b < 3 then None else Some (3, int (be_val [b0 AND 0x1F, b ! 1, b ! 2])))
      else if b0 AND 0xF0 = 0xE0 then
        (if length b < 4 then None else Some (4, int (be_val [b0 AND 0x0F, b ! 1, b ! 2, b ! 3])))
      else (if length b < 5 then None else Some (5, signed32 (be_val [b ! 1, b ! 2, b ! 3, b ! 4]))))"

text \<open>\<open>buf.slice(a, e)\<close>: a negative position counts from the end.\<close>

definition js_slice :: "int \<Rightarrow> int \<Rightarrow> 'a list \<Rightarrow> 'a list" where
  "js_slice a e xs =
     (let pos = (\<lambda>i. if i < 0 then nat (max 0 (int (length xs) + i)) else min (nat i) (length xs)) in
      take (pos e - pos a) (drop (pos a) xs))"

text \<open>Before the start of the buffer a byte is \<open>undefined\<close>: the length is NaN, the word is empty, and the
  next offset is NaN, where the same happens again.\<close>

definition read_word :: "bytes \<Rightarrow> int option \<Rightarrow> read_result" where
  "read_word buf offset =
     (case offset of
        None \<Rightarrow> Read [] None
      | Some i \<Rightarrow>
          if int (length buf) \<le> i then Not_enough
          else if i < 0 then Read [] None
          else
            (case word_header (drop (nat i) buf) of
               None \<Rightarrow> Not_enough
             | Some (header, len) \<Rightarrow>
                 if int (length buf) < i + int header + len then Not_enough
                 else Read (js_slice (i + int header) (i + int header + len) buf) (Some (i + int header + len))))"

section \<open>Sentences\<close>

text \<open>The two nested loops of \<open>parseSentences\<close> and \<open>_onData\<close>: the complete sentences from \<open>offset\<close> on, and
  where the sentence begins that is not complete.\<close>

partial_function (option) scan_sentences ::
    "bytes \<Rightarrow> int option \<Rightarrow> int option \<Rightarrow> sentence \<Rightarrow> (sentence list \<times> int option) option" where
  "scan_sentences buf offset start sentence =
     (case read_word buf offset of
        Not_enough \<Rightarrow> Some ([], start)
      | Read w next \<Rightarrow>
          if w = [] then
            Option.bind (scan_sentences buf next next []) (\<lambda>(ss, st). Some (sentence # ss, st))
          else scan_sentences buf next start (sentence @ [w]))"

definition rest_from :: "bytes \<Rightarrow> int option \<Rightarrow> bytes" where
  "rest_from buf start = (case start of None \<Rightarrow> buf | Some i \<Rightarrow> js_slice i (int (length buf)) buf)"

definition parse_sentences :: "bytes \<Rightarrow> (sentence list \<times> bytes) option" where
  "parse_sentences buf =
     Option.bind (scan_sentences buf (Some 0) (Some 0) []) (\<lambda>(ss, st). Some (ss, rest_from buf st))"

section \<open>Commands\<close>

definition settle :: "nat \<Rightarrow> ros_error + sentence list \<Rightarrow> ros_client \<Rightarrow> ros_client" where
  "settle i r c = c\<lparr>rc_settled := rc_settled c @ [(i, r)]\<rparr>"

definition word_starts :: "ros_word \<Rightarrow> ros_word \<Rightarrow> bool" where
  "word_starts p w \<longleftrightarrow> take (length p) w = p"

definition trap_error :: "sentence \<Rightarrow> ros_error" where
  "trap_error s =
     Trap (map_option (drop 9) (find (word_starts (ascii ''=message='')) s)) (hd s)"

definition reply_kinds :: "ros_word list" where
  "reply_kinds = [ascii ''!done'', ascii ''!trap'', ascii ''!fatal'']"

definition final_sentence :: "sentence \<Rightarrow> bool" where
  "final_sentence s \<longleftrightarrow> s \<noteq> [] \<and> hd s \<in> set reply_kinds"

definition outcome_of :: "sentence list \<Rightarrow> sentence \<Rightarrow> ros_error + sentence list" where
  "outcome_of collected s = (if hd s = ascii ''!done'' then Inr collected else Inl (trap_error s))"

definition on_sentence :: "ros_client \<Rightarrow> sentence \<Rightarrow> ros_client" where
  "on_sentence c s =
     (case rc_pending c of
        [] \<Rightarrow> c
      | p # ps \<Rightarrow>
          let collected = wt_sentences p @ [s] in
          if final_sentence s then settle (wt_id p) (outcome_of collected s) (c\<lparr>rc_pending := ps\<rparr>)
          else c\<lparr>rc_pending := p\<lparr>wt_sentences := collected\<rparr> # ps\<rparr>)"

definition on_data :: "ros_client \<Rightarrow> bytes \<Rightarrow> ros_client option" where
  "on_data c chunk =
     (let buf = rc_buf c @ chunk in
      Option.bind (parse_sentences buf) (\<lambda>(ss, rest). Some (foldl on_sentence (c\<lparr>rc_buf := rest\<rparr>) ss)))"

text \<open>Sending queues the command before the write; a write that throws rejects it and takes it off the
  end of the queue.\<close>

definition send_sentence :: "nat \<Rightarrow> bool \<Rightarrow> ros_client \<Rightarrow> ros_client" where
  "send_sentence i written c =
     (if written then c\<lparr>rc_pending := rc_pending c @ [\<lparr>wt_id = i, wt_sentences = []\<rparr>]\<rparr>
      else settle i (Inl Write_failed) c)"

definition on_timeout :: "nat \<Rightarrow> ros_client \<Rightarrow> ros_client" where
  "on_timeout i c =
     (if i \<in> wt_id ` set (rc_pending c)
      then settle i (Inl Timed_out) (c\<lparr>rc_pending := filter (\<lambda>p. wt_id p \<noteq> i) (rc_pending c)\<rparr>)
      else c)"

definition reject_all :: "ros_error \<Rightarrow> ros_client \<Rightarrow> ros_client" where
  "reject_all e c =
     c\<lparr>rc_pending := [], rc_settled := rc_settled c @ map (\<lambda>p. (wt_id p, Inl e)) (rc_pending c)\<rparr>"

datatype ros_event = Send nat bool | Data bytes | Timeout nat | Error_event | Close_event

definition ros_step :: "ros_client \<Rightarrow> ros_event \<Rightarrow> ros_client option" where
  "ros_step c e =
     (case e of
        Send i written \<Rightarrow> Some (send_sentence i written c)
      | Data chunk \<Rightarrow> on_data c chunk
      | Timeout i \<Rightarrow> Some (on_timeout i c)
      | Error_event \<Rightarrow> Some (reject_all Socket_failed c)
      | Close_event \<Rightarrow> Some (reject_all Closed c))"

fun ros_run :: "ros_client \<Rightarrow> ros_event list \<Rightarrow> ros_client option" where
  "ros_run c [] = Some c"
| "ros_run c (e # es) = Option.bind (ros_step c e) (\<lambda>c'. ros_run c' es)"

section \<open>A word is read back\<close>

lemma header_bits1: "list_all (\<lambda>n. let x = (of_nat n :: 8 word) in x AND 0x80 = 0) [0..<128]"
  by (simp add: upt_rec)

lemma header_bits2: "list_all (\<lambda>n. let x = (of_nat n :: 8 word) in
   (x OR 0x80) AND 0x80 \<noteq> 0 \<and> (x OR 0x80) AND 0xC0 = 0x80 \<and> (x OR 0x80) AND 0x3F = x) [0..<64]"
  by (simp add: upt_rec)

lemma header_bits3: "list_all (\<lambda>n. let x = (of_nat n :: 8 word) in
   (x OR 0xC0) AND 0x80 \<noteq> 0 \<and> (x OR 0xC0) AND 0xC0 \<noteq> 0x80 \<and> (x OR 0xC0) AND 0xE0 = 0xC0 \<and> (x OR 0xC0) AND 0x1F = x) [0..<32]"
  by (simp add: upt_rec)

lemma header_bits4: "list_all (\<lambda>n. let x = (of_nat n :: 8 word) in
   (x OR 0xE0) AND 0x80 \<noteq> 0 \<and> (x OR 0xE0) AND 0xC0 \<noteq> 0x80 \<and> (x OR 0xE0) AND 0xE0 \<noteq> 0xC0 \<and>
   (x OR 0xE0) AND 0xF0 = 0xE0 \<and> (x OR 0xE0) AND 0x0F = x) [0..<16]"
  by (simp add: upt_rec)

lemma header_bit:
  "n < 128 \<Longrightarrow> (of_nat n :: 8 word) AND 0x80 = 0"
  "n < 64 \<Longrightarrow> ((of_nat n :: 8 word) OR 0x80) AND 0x80 \<noteq> 0 \<and> ((of_nat n :: 8 word) OR 0x80) AND 0xC0 = 0x80 \<and>
     ((of_nat n :: 8 word) OR 0x80) AND 0x3F = of_nat n"
  "n < 32 \<Longrightarrow> ((of_nat n :: 8 word) OR 0xC0) AND 0x80 \<noteq> 0 \<and> ((of_nat n :: 8 word) OR 0xC0) AND 0xC0 \<noteq> 0x80 \<and>
     ((of_nat n :: 8 word) OR 0xC0) AND 0xE0 = 0xC0 \<and> ((of_nat n :: 8 word) OR 0xC0) AND 0x1F = of_nat n"
  "n < 16 \<Longrightarrow> ((of_nat n :: 8 word) OR 0xE0) AND 0x80 \<noteq> 0 \<and> ((of_nat n :: 8 word) OR 0xE0) AND 0xC0 \<noteq> 0x80 \<and>
     ((of_nat n :: 8 word) OR 0xE0) AND 0xE0 \<noteq> 0xC0 \<and> ((of_nat n :: 8 word) OR 0xE0) AND 0xF0 = 0xE0 \<and>
     ((of_nat n :: 8 word) OR 0xE0) AND 0x0F = of_nat n"
  using header_bits1 header_bits2 header_bits3 header_bits4 by (simp_all add: list_all_iff Let_def)

lemma unat_len_byte: "unat (len_byte n k) = n div 2 ^ k mod 256"
  by (simp add: len_byte_def unat_of_nat)

lemma be_val_simps:
  "be_val [a, b] = unat a * 256 + unat b"
  "be_val [a, b, c] = (unat a * 256 + unat b) * 256 + unat c"
  "be_val [a, b, c, d] = ((unat a * 256 + unat b) * 256 + unat c) * 256 + unat d"
  by (simp_all add: be_val_def)

lemma len_digits:
  "n div 2 ^ 8 * 256 + n mod 256 = n"
  "(n div 2 ^ 16 * 256 + n div 2 ^ 8 mod 256) * 256 + n mod 256 = n"
  "((n div 2 ^ 24 * 256 + n div 2 ^ 16 mod 256) * 256 + n div 2 ^ 8 mod 256) * 256 + n mod 256 = (n :: nat)"
proof -
  have step: "n div (m * 256) * 256 + n div m mod 256 = n div m" for m :: nat
    by (simp add: div_mult2_eq)
  show "n div 2 ^ 8 * 256 + n mod 256 = n" using step [of 1] by simp
  then show two: "(n div 2 ^ 16 * 256 + n div 2 ^ 8 mod 256) * 256 + n mod 256 = n" using step [of "2 ^ 8"] by simp
  then show "((n div 2 ^ 24 * 256 + n div 2 ^ 16 mod 256) * 256 + n div 2 ^ 8 mod 256) * 256 + n mod 256 = n"
    using step [of "2 ^ 16"] by simp
qed

definition header_of :: "nat \<Rightarrow> bytes" where
  "header_of len =
     (if len < 0x80 then [of_nat len]
       else if len < 0x4000 then [len_byte len 8 OR 0x80, len_byte len 0]
       else if len < 0x200000 then [len_byte len 16 OR 0xC0, len_byte len 8, len_byte len 0]
       else if len < 0x10000000 then [len_byte len 24 OR 0xE0, len_byte len 16, len_byte len 8, len_byte len 0]
       else [0xF0, len_byte len 24, len_byte len 16, len_byte len 8, len_byte len 0])"

lemma encode_word_header: "encode_word w = header_of (length w) @ w"
  by (simp add: encode_word_def header_of_def Let_def)

lemma header_read:
  assumes "len < 2 ^ 31"
  shows "word_header (header_of len @ r) = Some (length (header_of len), int len)"
proof -
  consider "len < 0x80" | "0x80 \<le> len" "len < 0x4000" | "0x4000 \<le> len" "len < 0x200000"
    | "0x200000 \<le> len" "len < 0x10000000" | "0x10000000 \<le> len" by linarith
  then show ?thesis
  proof cases
    case 1
    then show ?thesis using header_bit(1) [of len] by (simp add: header_of_def word_header_def unat_of_nat)
  next
    case 2
    then have small: "len div 2 ^ 8 < 64" by simp
    have "be_val [len_byte len 8, len_byte len 0] = len"
      using small len_digits(1) [of len] by (simp add: be_val_simps unat_len_byte)
    then show ?thesis
      using 2 header_bit(2) [OF small] by (simp add: header_of_def word_header_def Let_def len_byte_def)
  next
    case 3
    then have small: "len div 2 ^ 16 < 32" by simp
    have "be_val [len_byte len 16, len_byte len 8, len_byte len 0] = len"
      using small len_digits(2) [of len] by (simp add: be_val_simps unat_len_byte)
    then show ?thesis
      using 3 header_bit(3) [OF small] by (simp add: header_of_def word_header_def Let_def len_byte_def)
  next
    case 4
    then have small: "len div 2 ^ 24 < 16" by simp
    have "be_val [len_byte len 24, len_byte len 16, len_byte len 8, len_byte len 0] = len"
      using small len_digits(3) [of len] by (simp add: be_val_simps unat_len_byte)
    then show ?thesis
      using 4 header_bit(4) [OF small] by (simp add: header_of_def word_header_def Let_def len_byte_def)
  next
    case 5
    then have small: "len div 2 ^ 24 < 256" using assms by simp
    have "be_val [len_byte len 24, len_byte len 16, len_byte len 8, len_byte len 0] = len"
      using small len_digits(3) [of len] by (simp add: be_val_simps unat_len_byte)
    then show ?thesis
      using 5 assms by (simp add: header_of_def word_header_def Let_def signed32_def)
  qed
qed

lemma header_nonempty: "header_of len \<noteq> []" "length (header_of len) \<le> 5"
  by (simp_all add: header_of_def)

lemma header_cut:
  assumes "0 < k" and "k < length (header_of len)" and "len < 2 ^ 31"
  shows "word_header (take k (header_of len)) = None"
proof -
  have hd: "hd (take k (header_of len)) = hd (header_of len)" using assms(1) header_nonempty(1) [of len]
    by (cases "header_of len") (auto simp: take_Cons')
  consider "len < 0x80" | "0x80 \<le> len" "len < 0x4000" | "0x4000 \<le> len" "len < 0x200000"
    | "0x200000 \<le> len" "len < 0x10000000" | "0x10000000 \<le> len" by linarith
  then show ?thesis
  proof cases
    case 1
    then show ?thesis using assms(1,2) by (simp add: header_of_def)
  next
    case 2
    then have "len div 2 ^ 8 < 64" by simp
    from header_bit(2) [OF this] show ?thesis
      unfolding word_header_def hd using 2 assms(2) by (simp add: header_of_def Let_def len_byte_def)
  next
    case 3
    then have "len div 2 ^ 16 < 32" by simp
    from header_bit(3) [OF this] show ?thesis
      unfolding word_header_def hd using 3 assms(2) by (simp add: header_of_def Let_def len_byte_def)
  next
    case 4
    then have "len div 2 ^ 24 < 16" by simp
    from header_bit(4) [OF this] show ?thesis
      unfolding word_header_def hd using 4 assms(2) by (simp add: header_of_def Let_def len_byte_def)
  next
    case 5
    then show ?thesis unfolding word_header_def hd using assms(2) by (simp add: header_of_def Let_def)
  qed
qed

lemma js_slice_middle: "js_slice (int (length a)) (int (length a) + int (length b)) (a @ b @ c) = b"
  by (simp add: js_slice_def Let_def nat_add_distrib)

lemma read_whole:
  assumes "length w < 2 ^ 31"
  shows "read_word (pre @ encode_word w @ r) (Some (int (length pre))) =
    Read w (Some (int (length pre + length (encode_word w))))"
proof -
  let ?h = "header_of (length w)"
  have "word_header (drop (nat (int (length pre))) (pre @ encode_word w @ r)) = Some (length ?h, int (length w))"
    using header_read [OF assms, of "w @ r"] by (simp add: encode_word_header)
  moreover have "js_slice (int (length pre) + int (length ?h)) (int (length pre) + int (length ?h) + int (length w))
      (pre @ encode_word w @ r) = w"
    using js_slice_middle [of "pre @ ?h" w r] by (simp add: encode_word_header)
  moreover obtain x xs where "?h = x # xs" using header_nonempty(1) [of "length w"] by (cases ?h) auto
  then have "\<not> int (length (pre @ encode_word w @ r)) \<le> int (length pre)" by (simp add: encode_word_header)
  ultimately show ?thesis unfolding read_word_def by (simp add: encode_word_header)
qed

lemma read_cut:
  assumes "length w < 2 ^ 31" and "strict_prefix q (encode_word w)"
  shows "read_word (pre @ q) (Some (int (length pre))) = Not_enough"
proof (cases "q = []")
  case False
  let ?h = "header_of (length w)"
  from assms(2) obtain z where z: "?h @ w = q @ z" "z \<noteq> []" by (auto simp: strict_prefix_def prefix_def encode_word_header)
  have q: "q = take (length q) (?h @ w)" using z by simp
  show ?thesis
  proof (cases "length q < length ?h")
    case True
    then have "q = take (length q) ?h" using q by simp
    with header_cut [OF _ True assms(1)] False have "word_header q = None" by (metis length_greater_0_conv)
    with False show ?thesis by (simp add: read_word_def)
  next
    case long: False
    then have "q = ?h @ take (length q - length ?h) w" using q by simp
    then have "word_header q = Some (length ?h, int (length w))" using header_read [OF assms(1)] by metis
    moreover have "length q < length ?h + length w" using arg_cong [OF z(1), of length] z(2) by simp
    ultimately show ?thesis using False by (simp add: read_word_def)
  qed
qed (simp add: read_word_def)

section \<open>The stream is reassembled\<close>

definition ok_sentence :: "sentence \<Rightarrow> bool" where
  "ok_sentence s \<longleftrightarrow> (\<forall>w\<in>set s. w \<noteq> [] \<and> length w < 2 ^ 31)"

text \<open>What is left of a stream when it is cut inside a sentence.\<close>

definition incomplete :: "bytes \<Rightarrow> bool" where
  "incomplete q \<longleftrightarrow> (\<exists>s. ok_sentence s \<and> strict_prefix q (encode_sentence s))"

lemma encode_sentence_Cons: "encode_sentence (w # s) = encode_word w @ encode_sentence s"
  by (simp add: encode_sentence_def)

lemma encode_sentence_nonempty [simp]: "encode_sentence s \<noteq> []"
  by (simp add: encode_sentence_def)

lemma encode_sentence_Nil: "encode_sentence [] = encode_word []"
  by (simp add: encode_sentence_def encode_word_def)

lemma scan_sentence:
  "ok_sentence s \<Longrightarrow> scan_sentences (pre @ encode_sentence s @ r) (Some (int (length pre))) st acc =
    Option.bind (scan_sentences (pre @ encode_sentence s @ r) (Some (int (length pre + length (encode_sentence s))))
      (Some (int (length pre + length (encode_sentence s)))) []) (\<lambda>(ss, st). Some ((acc @ s) # ss, st))"
proof (induction s arbitrary: pre acc)
  case Nil
  show ?case
    by (subst scan_sentences.simps) (simp add: encode_sentence_Nil read_whole)
next
  case (Cons w s)
  then have w: "w \<noteq> []" "length w < 2 ^ 31" "ok_sentence s" by (simp_all add: ok_sentence_def)
  show ?case
    using Cons.IH [OF w(3), of "pre @ encode_word w" "acc @ [w]"] w(1)
    by (subst scan_sentences.simps) (simp add: encode_sentence_Cons read_whole [OF w(2)] add.assoc)
qed

lemma scan_cut:
  "ok_sentence s \<Longrightarrow> strict_prefix q (encode_sentence s) \<Longrightarrow>
   scan_sentences (pre @ q) (Some (int (length pre))) st acc = Some ([], st)"
proof (induction s arbitrary: pre acc q)
  case Nil
  then show ?case
    using read_cut [of "[]" q pre] by (subst scan_sentences.simps) (simp add: encode_sentence_Nil)
next
  case (Cons w s)
  then have w: "w \<noteq> []" "length w < 2 ^ 31" "ok_sentence s" by (simp_all add: ok_sentence_def)
  show ?case
  proof (cases "strict_prefix q (encode_word w)")
    case True
    then show ?thesis using read_cut [OF w(2) True, of pre] by (subst scan_sentences.simps) simp
  next
    case False
    have "prefix q (encode_word w @ encode_sentence s)" "q \<noteq> encode_word w @ encode_sentence s"
      using Cons.prems(2) by (simp_all add: encode_sentence_Cons strict_prefix_def)
    with False obtain q' where q: "q = encode_word w @ q'" "strict_prefix q' (encode_sentence s)"
      using encode_sentence_nonempty [of s, symmetric] by (cases "q = encode_word w") (auto simp: strict_prefix_def prefix_append)
    from Cons.IH [OF w(3) q(2), of "pre @ encode_word w" "acc @ [w]"] show ?thesis
      using w(1) by (subst scan_sentences.simps) (simp add: q(1) read_whole [OF w(2)])
  qed
qed

lemma scan_stream:
  "list_all ok_sentence ss \<Longrightarrow> incomplete q \<Longrightarrow>
   scan_sentences (pre @ concat (map encode_sentence ss) @ q) (Some (int (length pre))) (Some (int (length pre))) [] =
     Some (ss, Some (int (length (pre @ concat (map encode_sentence ss)))))"
proof (induction ss arbitrary: pre)
  case Nil
  then show ?case by (auto simp: incomplete_def scan_cut)
next
  case (Cons s ss)
  then show ?case
    using scan_sentence [of s pre "concat (map encode_sentence ss) @ q" "Some (int (length pre))" "[]"]
      Cons.IH [of "pre @ encode_sentence s"]
    by simp
qed

lemma parse_stream:
  assumes "list_all ok_sentence ss" and "incomplete q"
  shows "parse_sentences (concat (map encode_sentence ss) @ q) = Some (ss, q)"
proof -
  let ?a = "concat (map encode_sentence ss)"
  have "js_slice (int (length ?a)) (int (length (?a @ q))) (?a @ q) = q"
    using js_slice_middle [of ?a q "[]"] by simp
  with scan_stream [OF assms, of "[]"] show ?thesis by (simp add: parse_sentences_def rest_from_def)
qed

text \<open>A prefix of a stream is whole sentences and an incomplete one.\<close>

lemma prefix_of_stream:
  "prefix R (concat (map encode_sentence ss) @ q) \<Longrightarrow> list_all ok_sentence ss \<Longrightarrow> incomplete q \<Longrightarrow>
   \<exists>ss1 ss2 q1. ss = ss1 @ ss2 \<and> R = concat (map encode_sentence ss1) @ q1 \<and> incomplete q1"
proof (induction ss arbitrary: R)
  case Nil
  then obtain s where "ok_sentence s" "strict_prefix q (encode_sentence s)" "prefix R q" by (auto simp: incomplete_def)
  then have "incomplete R" unfolding incomplete_def using prefix_order.le_less_trans by blast
  then show ?case by simp
next
  case (Cons s ss)
  show ?case
  proof (cases "strict_prefix R (encode_sentence s)")
    case True
    with Cons.prems(2) have "incomplete R" by (auto simp: incomplete_def)
    then show ?thesis by (intro exI [of _ "[]"] exI [of _ "s # ss"] exI [of _ R]) simp
  next
    case False
    with Cons.prems(1) obtain R' where R: "R = encode_sentence s @ R'" "prefix R' (concat (map encode_sentence ss) @ q)"
      by (auto simp: strict_prefix_def prefix_append)
    from Cons.IH [OF R(2)] Cons.prems(2,3) obtain ss1 ss2 q1 where
      "ss = ss1 @ ss2" "R' = concat (map encode_sentence ss1) @ q1" "incomplete q1" by auto
    then show ?thesis using R(1) by (intro exI [of _ "s # ss1"] exI [of _ ss2] exI [of _ q1]) simp
  qed
qed

text \<open>The sentences that come out of a run of chunks, and what stays in the buffer.\<close>

fun receive :: "bytes \<Rightarrow> bytes list \<Rightarrow> (sentence list \<times> bytes) option" where
  "receive buf [] = Some ([], buf)"
| "receive buf (chunk # chunks) =
     Option.bind (parse_sentences (buf @ chunk)) (\<lambda>(ss, rest).
       Option.bind (receive rest chunks) (\<lambda>(ss', rest'). Some (ss @ ss', rest')))"

lemma receive_stream:
  "incomplete buf \<Longrightarrow> list_all ok_sentence ss \<Longrightarrow> incomplete q \<Longrightarrow>
   buf @ concat chunks = concat (map encode_sentence ss) @ q \<Longrightarrow> receive buf chunks = Some (ss, q)"
proof (induction chunks arbitrary: buf ss)
  case Nil
  then have "parse_sentences buf = Some (ss, q)" using parse_stream [of ss q] by simp
  moreover have "parse_sentences buf = Some ([], buf)" using parse_stream [of "[]" buf] Nil.prems(1) by simp
  ultimately show ?case by simp
next
  case (Cons chunk chunks)
  have all: "(buf @ chunk) @ concat chunks = concat (map encode_sentence ss) @ q"
    using Cons.prems(4) by simp
  have "prefix (buf @ chunk) (concat (map encode_sentence ss) @ q)"
    by (rule prefixI [of _ _ "concat chunks"]) (rule all [symmetric])
  from prefix_of_stream [OF this Cons.prems(2,3)] obtain ss1 ss2 q1 where
    split: "ss = ss1 @ ss2" "buf @ chunk = concat (map encode_sentence ss1) @ q1" "incomplete q1" by blast
  then have "q1 @ concat chunks = concat (map encode_sentence ss2) @ q"
    using all by (simp only: split(2) split(1) map_append concat_append append_assoc same_append_eq)
  with Cons.IH [OF split(3), of ss2] Cons.prems(2,3) split(1) have "receive q1 chunks = Some (ss2, q)" by simp
  with parse_stream [of ss1 q1] Cons.prems(2) split show ?case by simp
qed

lemma incomplete_Nil: "incomplete []"
  unfolding incomplete_def
  by (rule exI [of _ "[]"]) (simp add: ok_sentence_def encode_sentence_def strict_prefix_def)

text \<open>C11: the chunks do not matter. When the bytes that arrive are sentences of non-empty words, written as
  the encoder writes them, and then perhaps a part of one more, then however the network cuts them into
  chunks, feeding the chunks one by one ends, yields exactly those sentences in order, and leaves the
  incomplete part in the buffer.\<close>

theorem stream_reassembled:
  assumes "list_all ok_sentence ss" and "incomplete q" and "concat chunks = concat (map encode_sentence ss) @ q"
  shows "receive [] chunks = Some (ss, q)"
  by (rule receive_stream [OF incomplete_Nil assms(1,2)]) (simp add: assms(3))

theorem stream_reassembled_witness:
  "receive [] [[5, 33, 100], [111, 110], [101, 0, 4]] = Some ([[ascii ''!done'']], [4])"
proof -
  have "incomplete [4]"
    unfolding incomplete_def
    by (rule exI [of _ "[[1, 2, 3, 4]]"])
      (simp add: ok_sentence_def encode_sentence_def encode_word_def strict_prefix_def prefix_def)
  moreover have "concat (map encode_sentence [[ascii ''!done'']]) = [5, 33, 100, 111, 110, 101, 0]"
    by (simp add: encode_sentence_def encode_word_def ascii_def)
  ultimately show ?thesis
    using stream_reassembled [of "[[ascii ''!done'']]" "[4]" "[[5, 33, 100], [111, 110], [101, 0, 4]]"]
    by (simp add: ok_sentence_def ascii_def)
qed

end
