(* ===== verification/Ros_Client.thy ===== *)
theory Ros_Client
  imports Routeros
begin

text \<open>
  What the RouterOS client guarantees its callers: every reply goes to the command it answers, every
  command is settled exactly once, and where neither holds.
\<close>

section \<open>The queue\<close>














section \<open>Every command is settled\<close>











definition idle_client :: ros_client where
  "idle_client = \<lparr>rc_buf = [], rc_pending = [], rc_settled = []\<rparr>"



section \<open>Where it goes wrong\<close>

text \<open>The five-byte length \<open>F0 FF FF FF FB\<close> is read as -5, so the next offset is the one just read.\<close>

lemma read_stuck: "read_word ([0xF0, 0xFF, 0xFF, 0xFF, 0xFB] @ rest) (Some 0) = Read [] (Some 0)"
  by (simp add: read_word_def word_header_def Let_def be_val_simps signed32_def js_slice_def)

lemma scan_never:
  assumes "scan_sentences b off st acc = Some y"
  shows "\<not> (b = [0xF0, 0xFF, 0xFF, 0xFF, 0xFB] @ rest \<and> off = Some 0 \<and> st = Some 0 \<and> acc = [])"
  by (rule scan_sentences.raw_induct
      [where P = "\<lambda>b off st acc y. \<not> (b = [0xF0, 0xFF, 0xFF, 0xFF, 0xFB] @ rest \<and> off = Some 0 \<and> st = Some 0 \<and> acc = [])", OF _ assms])
    (use read_stuck [of rest] in \<open>fastforce split: bind_splits\<close>)

lemma scan_stuck: "scan_sentences ([0xF0, 0xFF, 0xFF, 0xFF, 0xFB] @ rest) (Some 0) (Some 0) [] = None"
  using scan_never [of _ "Some 0" "Some 0" "[]" _ rest]
  by (cases "scan_sentences ([0xF0, 0xFF, 0xFF, 0xFF, 0xFB] @ rest) (Some 0) (Some 0) []") auto

text \<open>Five bytes hang the client. On a connection whose buffer is empty, a chunk that starts with the
  word length \<open>F0 FF FF FF FB\<close> makes the reading loop run forever, whatever commands wait.\<close>

theorem length_wraps_forever:
  assumes "rc_buf c = []"
  shows "ros_run c (Data ([0xF0, 0xFF, 0xFF, 0xFF, 0xFB] @ rest) # es) = None"
  using scan_stuck [of rest] assms by (simp add: ros_step_def on_data_def parse_sentences_def Let_def)

theorem length_wraps_forever_witness: "ros_run idle_client [Data ([0xF0, 0xFF, 0xFF, 0xFF, 0xFB] @ [])] = None"
  using length_wraps_forever [of idle_client "[]" "[]"] by (simp add: idle_client_def del: ros_run.simps)

text \<open>A command can get the end of another's reply. The router ends a failed command with a trap and
  then a done. When the done arrives in a later chunk, and the next command has been sent in between, that
  command is settled with the done of the first, before the router has answered it; the same happens to
  the command after one that timed out.\<close>

theorem stale_done_answers_next:
  "ros_run idle_client [Send 1 True, Data (encode_sentence [ascii ''!trap'']), Send 2 True, Data (encode_sentence [ascii ''!done''])] =
     Some \<lparr>rc_buf = [], rc_pending = [], rc_settled = [(1, Inl (Trap None (ascii ''!trap''))), (2, Inr [[ascii ''!done'']])]\<rparr> \<and>
   ros_run idle_client [Send 1 True, Timeout 1, Send 2 True, Data (encode_sentence [ascii ''!done''])] =
     Some \<lparr>rc_buf = [], rc_pending = [], rc_settled = [(1, Inl Timed_out), (2, Inr [[ascii ''!done'']])]\<rparr>"
proof -
  have one: "parse_sentences (encode_sentence [ascii k]) = Some ([[ascii k]], [])" if "k = ''!trap'' \<or> k = ''!done''" for k
    using parse_stream [of "[[ascii k]]" "[]"] that incomplete_Nil by (auto simp: ok_sentence_def ascii_def)
  from one [of "''!trap''"] one [of "''!done''"] show ?thesis
    by (simp add: ros_step_def on_data_def idle_client_def send_sentence_def on_timeout_def settle_def on_sentence_def
        final_sentence_def reply_kinds_def outcome_of_def trap_error_def word_starts_def ascii_def)
qed

end
