(* ===== verification/Access_Control.thy ===== *)
theory Access_Control
  imports Vb_Prelude
begin

text \<open>
  Who may do what: the authentication of a request by an API key, a bearer token or the session cookie
  (\<open>middleware/auth.js\<close>, \<open>utils/accessTokens.js\<close>, \<open>utils/bearerToken.js\<close>), the organization it acts in
  (\<open>services/orgPrincipalService.js\<close>), the scopes of API tokens (\<open>utils/scopes.js\<close>) and the permission
  check of a route (\<open>middleware/rbac.js\<close>, \<open>getPermissions\<close> and \<open>getOrgRole\<close> of \<open>models/User.js\<close>).

  The signature check of a JWT, SHA-256 and \<open>JSON.parse\<close> are parameters, and so is the comparison of
  names in SQL, which ignores case. The branches for test processes, the note of when a token was last
  used and the rate limits are left out. A scope list holds texts.
\<close>

section \<open>Scopes\<close>

definition valid_resources :: "string list" where
  "valid_resources =
     [''api_tokens'', ''audit_logs'', ''cfdi_documents'', ''clients'', ''concession_titles'', ''connection_logs'',
      ''cgnat_attribution'', ''contracts'', ''coverage_zones'', ''credit_notes'', ''csd_certificates'',
      ''device_config_backups'', ''devices'', ''expenses'', ''facturas_publicas'', ''files'',
      ''ift_statistical_reports'', ''inventory'', ''invoices'', ''ip_assignments'', ''ip_attribution'', ''ip_pools'',
      ''jobs'', ''network_health'', ''network_links'', ''organizations'', ''outages'', ''pac_providers'',
      ''payment_gateways'', ''payment_transactions'', ''payments'', ''plans'', ''promotions'', ''quotes'',
      ''recurring_payment_profiles'', ''regulatory_filings'', ''revenue_summary'', ''roles'', ''scheduled_tasks'',
      ''service_areas'', ''settings'', ''sites'', ''sla_definitions'', ''snmp_profiles'', ''speed_tests'',
      ''suspension_rules'', ''tax_rates'', ''tax_rules'', ''tickets'', ''users'', ''vlans'', ''webhooks'']"

definition ingest_resources :: "string list" where
  "ingest_resources = [''connection_logs'', ''cgnat_attribution'', ''pppoe_events'']"

definition read_actions :: "string list" where "read_actions = [''view'', ''export'']"
definition write_actions :: "string list" where "write_actions = [''create'', ''update'', ''delete'', ''manage'']"

text \<open>The text before and behind the last dot, and before and behind the first colon.\<close>

definition split_last_dot :: "string \<Rightarrow> (string \<times> string) option" where
  "split_last_dot s =
     (case index_of (CHR ''.'') (rev s) of
        None \<Rightarrow> None
      | Some k \<Rightarrow> Some (take (length s - Suc k) s, drop (length s - k) s))"

definition split_colon :: "string \<Rightarrow> (string \<times> string) option" where
  "split_colon s = (case index_of (CHR '':'') s of None \<Rightarrow> None | Some i \<Rightarrow> Some (take i s, drop (Suc i) s))"

definition permission_to_scope :: "string \<Rightarrow> (string \<times> string) option" where
  "permission_to_scope slug =
     (case split_last_dot slug of
        None \<Rightarrow> None
      | Some (resource, action) \<Rightarrow>
          Some (resource,
            if action \<in> set read_actions then ''read''
            else if action \<in> set write_actions then ''write''
            else if action = ''ingest'' then ''ingest'' else ''write''))"

definition scope_grants :: "string \<Rightarrow> string \<Rightarrow> string \<Rightarrow> bool" where
  "scope_grants resource access scope =
     (case split_colon scope of
        None \<Rightarrow> False
      | Some (r, a) \<Rightarrow>
          if access = ''ingest'' then r = resource \<and> a = ''ingest''
          else r = ''*'' \<and> a = ''write'' \<or> r = ''*'' \<and> a = ''read'' \<and> access = ''read'' \<or>
               r = resource \<and> (a = ''write'' \<or> a = ''read'' \<and> access = ''read''))"

definition has_scope :: "string list option \<Rightarrow> string \<Rightarrow> string \<Rightarrow> bool" where
  "has_scope scopes resource access =
     (case scopes of None \<Rightarrow> True | Some ss \<Rightarrow> list_ex (scope_grants resource access) ss)"

definition scope_allows_permission :: "string list option \<Rightarrow> string \<Rightarrow> bool" where
  "scope_allows_permission scopes slug =
     (case scopes of
        None \<Rightarrow> True
      | Some ss \<Rightarrow> ss \<noteq> [] \<and>
          (case permission_to_scope slug of None \<Rightarrow> False | Some (resource, access) \<Rightarrow> has_scope scopes resource access))"

definition is_valid_scope :: "string \<Rightarrow> bool" where
  "is_valid_scope scope =
     (case split_colon scope of
        None \<Rightarrow> False
      | Some (resource, access) \<Rightarrow>
          if access = ''ingest'' then resource \<in> set ingest_resources
          else if access \<noteq> ''read'' \<and> access \<noteq> ''write'' then False
          else resource = ''*'' \<or> resource \<in> set valid_resources)"

datatype scope_fault = Invalid_scope string | Duplicate_scope string

fun validate_scopes_from :: "string list \<Rightarrow> string list \<Rightarrow> scope_fault list" where
  "validate_scopes_from seen [] = []"
| "validate_scopes_from seen (s # ss) =
     (if \<not> is_valid_scope s then Invalid_scope s # validate_scopes_from seen ss
      else if s \<in> set seen then Duplicate_scope s # validate_scopes_from seen ss
      else validate_scopes_from (s # seen) ss)"

definition validate_scopes :: "string list option \<Rightarrow> scope_fault list" where
  "validate_scopes scopes = (case scopes of None \<Rightarrow> [] | Some ss \<Rightarrow> validate_scopes_from [] ss)"

definition list_available_scopes :: "string list" where
  "list_available_scopes =
     [''*:read'', ''*:write''] @ concat (map (\<lambda>r. [r @ '':read'', r @ '':write'']) valid_resources) @
     map (\<lambda>r. r @ '':ingest'') ingest_resources"

section \<open>Tables\<close>

record user_row =
  us_id :: nat
  us_role :: string
  us_active :: bool
  us_live :: bool
  us_org :: "nat option"
  us_operator :: bool
  us_group :: "nat option"
  us_version :: nat
  us_must_change :: bool

record role_row =
  ro_id :: nat
  ro_name :: string
  ro_kind :: "string option"
  ro_system :: bool
  ro_live :: bool

record member_row =
  me_user :: nat
  me_org :: nat
  me_role :: string
  me_live :: bool

record org_row =
  og_id :: nat
  og_active :: bool
  og_live :: bool

text \<open>The value of a JSON column: null, a list of texts, a text, or another value.\<close>

datatype json_scopes = Null_scopes | Scope_list "string list" | Scope_text string | Other_json

record api_token =
  tk_id :: nat
  tk_hash :: string
  tk_user :: nat
  tk_org :: "nat option"
  tk_scopes :: json_scopes
  tk_sql_null :: bool
  tk_expires :: "int option"
  tk_revoked :: bool
  tk_live :: bool

record auth_db =
  ub_users :: "user_row list"
  ub_roles :: "role_row list"
  ub_members :: "member_row list"
  ub_orgs :: "org_row list"
  ub_grants :: "(nat \<times> string) list"
  ub_tokens :: "api_token list"

record jwt_payload =
  pl_sub :: nat
  pl_org :: "nat option"
  pl_version :: "nat option"
  pl_type :: "string option"
  pl_aud :: "string list"

record auth_config =
  ax_name_eq :: "string \<Rightarrow> string \<Rightarrow> bool"
  ax_now :: int
  ax_operators :: "nat list"
  ax_sha256 :: "string \<Rightarrow> string"
  ax_parse_json :: "string \<Rightarrow> json_scopes option"
  ax_jwt_verify :: "string \<Rightarrow> jwt_payload option"

text \<open>\<open>req.user\<close>.\<close>

record principal =
  pr_user :: nat
  pr_role :: string
  pr_member_role :: string
  pr_org :: nat
  pr_operator :: bool
  pr_super :: bool
  pr_global :: bool
  pr_token :: "nat option"
  pr_scopes :: json_scopes
  pr_sql_null :: bool

section \<open>The organization a user acts in\<close>

definition is_install_operator_user :: "auth_config \<Rightarrow> user_row \<Rightarrow> bool" where
  "is_install_operator_user x u \<longleftrightarrow>
     (if ax_operators x \<noteq> [] then us_id u \<in> set (ax_operators x) else us_role u = ''admin'' \<and> us_operator u)"

definition live_group :: "auth_db \<Rightarrow> user_row \<Rightarrow> role_row option" where
  "live_group db u = (case us_group u of None \<Rightarrow> None | Some g \<Rightarrow> find (\<lambda>r. ro_id r = g \<and> ro_live r) (ub_roles db))"

definition authority_persona :: "auth_db \<Rightarrow> user_row \<Rightarrow> string" where
  "authority_persona db u = (case Option.bind (live_group db u) ro_kind of None \<Rightarrow> us_role u | Some k \<Rightarrow> k)"

definition membership_role :: "auth_db \<Rightarrow> nat \<Rightarrow> nat \<Rightarrow> string option" where
  "membership_role db user org =
     map_option me_role (find (\<lambda>m. me_user m = user \<and> me_org m = org \<and> me_live m) (ub_members db))"

definition membership_persona :: "string \<Rightarrow> string" where
  "membership_persona role = (if role \<in> {''owner'', ''admin''} then ''admin'' else role)"

definition is_super_admin :: "auth_db \<Rightarrow> user_row \<Rightarrow> bool" where
  "is_super_admin db u \<longleftrightarrow>
     (case live_group db u of None \<Rightarrow> False | Some r \<Rightarrow> ro_name r = ''super_admin'' \<and> ro_system r)"

text \<open>
  \<open>user\<close> and \<open>home\<close> are the id and the organization of the user the caller read; a request for no organization, or
  for 0, is one for the home organization. \<open>None\<close> is no access.
\<close>

record org_access =
  oa_org :: nat
  oa_member :: string
  oa_persona :: string
  oa_operator :: bool
  oa_super :: bool

definition wanted_org :: "nat option \<Rightarrow> nat option \<Rightarrow> nat" where
  "wanted_org requested home =
     (case requested of None \<Rightarrow> case_option 0 id home | Some n \<Rightarrow> if n = 0 then case_option 0 id home else n)"

definition resolve_org_principal ::
    "auth_config \<Rightarrow> auth_db \<Rightarrow> nat \<Rightarrow> nat option \<Rightarrow> nat option \<Rightarrow> bool \<Rightarrow> org_access option" where
  "resolve_org_principal x db user home requested allow_operator =
     (let org = wanted_org requested home in
      if user = 0 \<or> org = 0 then None
      else
        (case (find (\<lambda>g. og_id g = org \<and> og_active g \<and> og_live g) (ub_orgs db),
               find (\<lambda>u. us_id u = user \<and> us_active u \<and> us_live u) (ub_users db)) of
           (Some g, Some u) \<Rightarrow>
             let member = membership_role db user org; is_home = (us_org u = Some org); persona = authority_persona db u;
                 operator = (allow_operator \<and> is_install_operator_user x u);
                 super = (allow_operator \<and> is_super_admin db u)
             in if \<not> (operator \<or> super) \<and> (case member of None \<Rightarrow> False | Some r \<Rightarrow> membership_persona r \<noteq> persona) then None
                else if \<not> is_home \<and> member = None \<and> \<not> (operator \<or> super) then None
                else Some \<lparr>oa_org = org,
                  oa_member = (case member of Some r \<Rightarrow> r | None \<Rightarrow> if is_home then persona else ''admin''),
                  oa_persona = persona, oa_operator = operator, oa_super = super\<rparr>
         | _ \<Rightarrow> None))"

section \<open>Authentication\<close>

datatype auth_error =
    Invalid_api_token
  | Inactive_user
  | No_organization_access
  | Missing_token
  | Invalid_token
  | Session_revoked
  | Password_change_required

definition authenticate_api_token :: "auth_config \<Rightarrow> auth_db \<Rightarrow> string \<Rightarrow> auth_error + principal" where
  "authenticate_api_token x db key =
     (case find (\<lambda>t. tk_hash t = ax_sha256 x key \<and> tk_org t \<noteq> None \<and> tk_live t \<and> \<not> tk_revoked t \<and>
              (case tk_expires t of None \<Rightarrow> True | Some e \<Rightarrow> ax_now x < e) \<and>
              find (\<lambda>u. us_id u = tk_user t \<and> us_live u) (ub_users db) \<noteq> None) (ub_tokens db) of
        None \<Rightarrow> Inl Invalid_api_token
      | Some t \<Rightarrow>
          (case find (\<lambda>u. us_id u = tk_user t \<and> us_live u) (ub_users db) of
             None \<Rightarrow> Inl Invalid_api_token
           | Some u \<Rightarrow>
               if \<not> us_active u then Inl Inactive_user
               else
                 (case resolve_org_principal x db (tk_user t) (us_org u) (tk_org t) False of
                    None \<Rightarrow> Inl No_organization_access
                  | Some a \<Rightarrow>
                      Inr \<lparr>pr_user = tk_user t, pr_role = oa_persona a, pr_member_role = oa_member a, pr_org = oa_org a,
                        pr_operator = False, pr_super = False, pr_global = False, pr_token = Some (tk_id t),
                        pr_scopes = tk_scopes t, pr_sql_null = tk_sql_null t\<rparr>)))"

definition is_portal_payload :: "jwt_payload \<Rightarrow> bool" where
  "is_portal_payload p \<longleftrightarrow> pl_type p = Some ''portal'' \<or> ''vigabss-portal'' \<in> set (pl_aud p)"

definition is_mfa_payload :: "jwt_payload \<Rightarrow> bool" where
  "is_mfa_payload p \<longleftrightarrow> pl_type p = Some ''mfa'' \<or> ''vigabss-mfa'' \<in> set (pl_aud p)"

text \<open>\<open>ax_jwt_verify\<close> is \<open>jwt.verify\<close> with the staff key, audience and issuer.\<close>

definition verify_staff_access_token :: "auth_config \<Rightarrow> string \<Rightarrow> jwt_payload option" where
  "verify_staff_access_token x token =
     (case ax_jwt_verify x token of
        None \<Rightarrow> None
      | Some p \<Rightarrow> if is_portal_payload p \<or> is_mfa_payload p \<or> pl_type p \<noteq> Some ''staff'' then None else Some p)"

definition bearer_token :: "string option \<Rightarrow> string option" where
  "bearer_token header =
     (case header of
        None \<Rightarrow> None
      | Some h \<Rightarrow>
          if \<not> starts_with ''Bearer '' h then None
          else let token = js_trim (drop 7 h) in if token \<in> {'''', ''null'', ''undefined''} then None else Some token)"

definition token_version_stale :: "nat option \<Rightarrow> nat \<Rightarrow> bool" where
  "token_version_stale payload current \<longleftrightarrow> (case payload of None \<Rightarrow> 0 | Some v \<Rightarrow> v) \<noteq> current"

text \<open>\<open>/^\/api\/v1\/auth\/(?:me|change-password|logout)\/?$/\<close> on the path without its query.\<close>

definition password_change_allowed :: "string \<Rightarrow> bool" where
  "password_change_allowed url \<longleftrightarrow>
     (let path = takeWhile (\<lambda>c. c \<noteq> CHR ''?'') url in
      \<exists>a\<in>{''me'', ''change-password'', ''logout''}. path = ''/api/v1/auth/'' @ a \<or> path = ''/api/v1/auth/'' @ a @ ''/'')"

record http_request =
  hr_api_key :: "string option"
  hr_authorization :: "string option"
  hr_cookie :: "string option"
  hr_url :: string

definition nonempty :: "string option \<Rightarrow> string option" where
  "nonempty s = (if s = Some [] then None else s)"

definition authenticate_session :: "auth_config \<Rightarrow> auth_db \<Rightarrow> http_request \<Rightarrow> auth_error + principal" where
  "authenticate_session x db rq =
     (case (case bearer_token (hr_authorization rq) of None \<Rightarrow> nonempty (hr_cookie rq) | Some t \<Rightarrow> Some t) of
        None \<Rightarrow> Inl Missing_token
      | Some token \<Rightarrow>
          (case verify_staff_access_token x token of
             None \<Rightarrow> Inl Invalid_token
           | Some p \<Rightarrow>
               (case find (\<lambda>u. us_id u = pl_sub p \<and> us_live u) (ub_users db) of
                  None \<Rightarrow> Inl Inactive_user
                | Some u \<Rightarrow>
                    if \<not> us_active u then Inl Inactive_user
                    else if token_version_stale (pl_version p) (us_version u) then Inl Session_revoked
                    else
                      (case resolve_org_principal x db (us_id u) (us_org u) (pl_org p) True of
                         None \<Rightarrow> Inl No_organization_access
                       | Some a \<Rightarrow>
                           if us_must_change u \<and> \<not> password_change_allowed (hr_url rq) then Inl Password_change_required
                           else Inr \<lparr>pr_user = us_id u, pr_role = oa_persona a, pr_member_role = oa_member a, pr_org = oa_org a,
                             pr_operator = oa_operator a, pr_super = oa_super a, pr_global = oa_operator a \<or> oa_super a,
                             pr_token = None, pr_scopes = Null_scopes, pr_sql_null = False\<rparr>))))"

definition authenticate_request :: "auth_config \<Rightarrow> auth_db \<Rightarrow> http_request \<Rightarrow> auth_error + principal" where
  "authenticate_request x db rq =
     (case nonempty (hr_api_key rq) of
        Some key \<Rightarrow> authenticate_api_token x db key
      | None \<Rightarrow> authenticate_session x db rq)"

section \<open>Permissions\<close>

definition role_grants :: "auth_db \<Rightarrow> nat \<Rightarrow> string list" where
  "role_grants db role = map snd (filter (\<lambda>g. fst g = role) (ub_grants db))"

definition get_permissions :: "auth_config \<Rightarrow> auth_db \<Rightarrow> nat \<Rightarrow> nat \<Rightarrow> string list" where
  "get_permissions x db user org =
     (let u = find (\<lambda>u. us_id u = user \<and> us_live u) (ub_users db);
          group_user = Option.bind u (\<lambda>u. map_option (\<lambda>g. (g, us_org u = Some org \<or> membership_role db user org \<noteq> None)) (live_group db u))
      in case group_user of
        Some (g, True) \<Rightarrow> role_grants db (ro_id g)
      | _ \<Rightarrow>
          (let rows = (case membership_role db user org of
                 None \<Rightarrow> []
               | Some name \<Rightarrow> (case find (\<lambda>r. ax_name_eq x (ro_name r) name \<and> ro_live r) (ub_roles db) of
                                None \<Rightarrow> [] | Some r \<Rightarrow> role_grants db (ro_id r)))
           in if rows \<noteq> [] then rows
              else case u of
                Some u \<Rightarrow>
                  if us_org u = Some org
                  then concat (map (\<lambda>r. role_grants db (ro_id r)) (filter (\<lambda>r. ax_name_eq x (ro_name r) (us_role u) \<and> ro_live r) (ub_roles db)))
                  else []
              | None \<Rightarrow> []))"

definition get_org_role :: "auth_db \<Rightarrow> nat \<Rightarrow> nat \<Rightarrow> string option" where
  "get_org_role db user org =
     (case membership_role db user org of
        Some r \<Rightarrow> Some r
      | None \<Rightarrow> map_option us_role (find (\<lambda>u. us_id u = user \<and> us_org u = Some org \<and> us_live u) (ub_users db)))"

definition unrestricted_token :: "principal \<Rightarrow> bool" where
  "unrestricted_token p \<longleftrightarrow> pr_scopes p = Null_scopes \<and> pr_sql_null p"

text \<open>\<open>True\<close> when nothing is thrown.\<close>

definition enforce_token_scopes :: "auth_config \<Rightarrow> principal \<Rightarrow> string list \<Rightarrow> bool" where
  "enforce_token_scopes x p required =
     (if pr_token p = None \<or> unrestricted_token p then True
      else
        (case (case pr_scopes p of Scope_text s \<Rightarrow> ax_parse_json x s | v \<Rightarrow> Some v) of
           Some (Scope_list ss) \<Rightarrow> ss \<noteq> [] \<and> list_ex (scope_allows_permission (Some ss)) required
         | _ \<Rightarrow> False))"

definition require_permission :: "auth_config \<Rightarrow> auth_db \<Rightarrow> principal \<Rightarrow> string list \<Rightarrow> bool" where
  "require_permission x db p required =
     (if pr_org p = 0 then False
      else if \<not> enforce_token_scopes x p required then False
      else if pr_global p \<and> pr_token p = None then True
      else list_ex (\<lambda>s. s \<in> set (get_permissions x db (pr_user p) (pr_org p))) required)"

definition require_role :: "auth_db \<Rightarrow> principal \<Rightarrow> string list \<Rightarrow> bool" where
  "require_role db p roles =
     (if pr_org p = 0 then False
      else if pr_token p \<noteq> None \<and> \<not> unrestricted_token p then False
      else if pr_global p \<and> pr_token p = None then True
      else (case get_org_role db (pr_user p) (pr_org p) of None \<Rightarrow> False | Some r \<Rightarrow> r \<noteq> [] \<and> r \<in> set roles))"

definition user_has_permission :: "auth_config \<Rightarrow> auth_db \<Rightarrow> principal \<Rightarrow> string \<Rightarrow> bool" where
  "user_has_permission x db p permission =
     (if pr_org p = 0 then False
      else if \<not> enforce_token_scopes x p [permission] then False
      else if pr_global p \<and> pr_token p = None then True
      else permission \<in> set (get_permissions x db (pr_user p) (pr_org p)))"

section \<open>Scopes and what they cover\<close>

lemma split_colon_Some: "split_colon s = Some (r, a) \<longleftrightarrow> s = r @ '':'' @ a \<and> CHR '':'' \<notin> set r"
proof
  assume "split_colon s = Some (r, a)"
  then obtain i where i: "index_of (CHR '':'') s = Some i" and ra: "r = take i s" "a = drop (Suc i) s"
    by (auto simp: split_colon_def split: option.splits)
  show "s = r @ '':'' @ a \<and> CHR '':'' \<notin> set r"
    using i id_take_nth_drop [of i s] by (simp add: ra index_of_Some)
next
  assume "s = r @ '':'' @ a \<and> CHR '':'' \<notin> set r"
  moreover have "index_of (CHR '':'') (r @ '':'' @ a) = Some (length r)" if "CHR '':'' \<notin> set r"
    using that by (simp add: index_of_Some nth_append)
  ultimately show "split_colon s = Some (r, a)" by (simp add: split_colon_def)
qed

lemma split_colon_None: "split_colon s = None \<longleftrightarrow> CHR '':'' \<notin> set s"
  unfolding index_of_None [symmetric] split_colon_def by (cases "index_of (CHR '':'') s") simp_all

lemma split_last_dot_append:
  assumes "CHR ''.'' \<notin> set a"
  shows "split_last_dot (r @ ''.'' @ a) = Some (r, a)"
proof -
  have "index_of (CHR ''.'') (rev a @ ''.'' @ rev r) = Some (length a)"
    using assms by (simp add: index_of_Some nth_append)
  then show ?thesis by (simp add: split_last_dot_def)
qed

lemma valid_resources_no_colon: "r \<in> set valid_resources \<Longrightarrow> CHR '':'' \<notin> set r"
  by (auto simp: valid_resources_def)

lemma ingest_resources_no_colon: "r \<in> set ingest_resources \<Longrightarrow> CHR '':'' \<notin> set r"
  by (auto simp: ingest_resources_def)

lemma available_iff:
  "s \<in> set list_available_scopes \<longleftrightarrow>
     (\<exists>r a. s = r @ '':'' @ a \<and>
        (a = ''ingest'' \<and> r \<in> set ingest_resources \<or> a \<in> {''read'', ''write''} \<and> (r = ''*'' \<or> r \<in> set valid_resources)))"
proof (cases "s = ''*:read'' \<or> s = ''*:write''")
  case True
  then have "\<exists>r a. s = r @ '':'' @ a \<and> a \<in> {''read'', ''write''} \<and> r = ''*''"
    by (intro exI [of _ "''*''"] exI [of _ "drop 2 s"]) auto
  then have "\<exists>r a. s = r @ '':'' @ a \<and>
      (a = ''ingest'' \<and> r \<in> set ingest_resources \<or> a \<in> {''read'', ''write''} \<and> (r = ''*'' \<or> r \<in> set valid_resources))"
    by blast
  moreover have "s \<in> set list_available_scopes" using True by (auto simp: list_available_scopes_def)
  ultimately show ?thesis by blast
next
  case False
  then show ?thesis unfolding list_available_scopes_def set_append set_concat set_map by (auto 4 0)
qed

lemma is_valid_scope_iff: "is_valid_scope s \<longleftrightarrow> s \<in> set list_available_scopes"
proof
  assume "is_valid_scope s"
  then obtain ra where c: "split_colon s = Some ra" by (cases "split_colon s") (simp_all add: is_valid_scope_def)
  obtain r a where ra: "ra = (r, a)" by (cases ra)
  have v: "if a = ''ingest'' then r \<in> set ingest_resources
           else (a = ''read'' \<or> a = ''write'') \<and> (r = ''*'' \<or> r \<in> set valid_resources)"
    using \<open>is_valid_scope s\<close> unfolding is_valid_scope_def c ra by (simp split: if_splits)
  have "s = r @ '':'' @ a" using c unfolding ra split_colon_Some by simp
  with v show "s \<in> set list_available_scopes"
    unfolding available_iff by (intro exI [of _ r] exI [of _ a]) (simp split: if_splits)
next
  assume "s \<in> set list_available_scopes"
  then obtain r a where s: "s = r @ '':'' @ a"
    and v: "a = ''ingest'' \<and> r \<in> set ingest_resources \<or> a \<in> {''read'', ''write''} \<and> (r = ''*'' \<or> r \<in> set valid_resources)"
    unfolding available_iff by blast
  have "CHR '':'' \<notin> set r"
    using v valid_resources_no_colon ingest_resources_no_colon by auto
  then have "split_colon s = Some (r, a)" by (simp add: split_colon_Some s)
  with v show "is_valid_scope s" by (auto simp: is_valid_scope_def)
qed

lemma validate_scopes_from_Nil:
  "validate_scopes_from seen ss = [] \<longleftrightarrow>
     distinct ss \<and> set ss \<inter> set seen = {} \<and> (\<forall>s\<in>set ss. is_valid_scope s)"
  by (induction ss arbitrary: seen) auto

text \<open>A scope list is accepted exactly when it names available scopes, each once.\<close>

theorem scopes_valid_exact:
  "validate_scopes (Some ss) = [] \<longleftrightarrow> distinct ss \<and> set ss \<subseteq> set list_available_scopes"
  by (auto simp: validate_scopes_def validate_scopes_from_Nil is_valid_scope_iff)

lemma scope_grants_iff:
  assumes "CHR '':'' \<notin> set r"
  shows "scope_grants r access scope \<longleftrightarrow>
     (if access = ''ingest'' then scope = r @ '':ingest''
      else scope = ''*:write'' \<or> scope = r @ '':write'' \<or> access = ''read'' \<and> (scope = ''*:read'' \<or> scope = r @ '':read''))"
proof (cases "split_colon scope")
  case None
  then have "CHR '':'' \<notin> set scope" by (simp add: split_colon_None)
  with None show ?thesis by (auto simp: scope_grants_def)
next
  case (Some ra)
  obtain q a where ra: "ra = (q, a)" by force
  then have s: "scope = q @ '':'' @ a" "CHR '':'' \<notin> set q" using Some by (simp_all add: split_colon_Some)
  have eq: "scope = r' @ '':'' @ a' \<longleftrightarrow> q = r' \<and> a = a'" if "CHR '':'' \<notin> set r'" for r' a'
  proof -
    have "scope = r' @ '':'' @ a' \<longleftrightarrow> split_colon scope = Some (r', a')" using that by (simp add: split_colon_Some)
    then show ?thesis by (simp add: Some ra)
  qed
  have star: "CHR '':'' \<notin> set ''*''" by simp
  have e: "scope = r @ '':ingest'' \<longleftrightarrow> q = r \<and> a = ''ingest''" "scope = r @ '':write'' \<longleftrightarrow> q = r \<and> a = ''write''"
    "scope = r @ '':read'' \<longleftrightarrow> q = r \<and> a = ''read''" "scope = ''*:write'' \<longleftrightarrow> q = ''*'' \<and> a = ''write''"
    "scope = ''*:read'' \<longleftrightarrow> q = ''*'' \<and> a = ''read''"
    using eq [OF assms, of "''ingest''"] eq [OF assms, of "''write''"] eq [OF assms, of "''read''"]
      eq [OF star, of "''write''"] eq [OF star, of "''read''"] by simp_all
  show ?thesis unfolding e by (auto simp: scope_grants_def Some ra)
qed

text \<open>
  The scopes of a token cover a permission \<open>resource.action\<close> exactly when the list names one of the scopes that
  stand for it. Collecting is covered by its own scope only, never by a wildcard, and an action of no known kind needs
  a write scope.
\<close>

theorem scope_allows_exact:
  assumes "CHR ''.'' \<notin> set action" and "CHR '':'' \<notin> set resource"
  shows "scope_allows_permission (Some ss) (resource @ ''.'' @ action) \<longleftrightarrow>
     (if action = ''ingest'' then resource @ '':ingest'' \<in> set ss
      else if action \<in> {''view'', ''export''}
      then set ss \<inter> {''*:read'', ''*:write'', resource @ '':read'', resource @ '':write''} \<noteq> {}
      else set ss \<inter> {''*:write'', resource @ '':write''} \<noteq> {})"
proof -
  have p: "permission_to_scope (resource @ ''.'' @ action) = Some (resource,
      if action \<in> set read_actions then ''read'' else if action \<in> set write_actions then ''write''
      else if action = ''ingest'' then ''ingest'' else ''write'')"
    using split_last_dot_append [OF assms(1), of resource] by (simp add: permission_to_scope_def)
  show ?thesis
  proof (cases "action \<in> {''view'', ''export''}")
    case True
    then have "permission_to_scope (resource @ ''.'' @ action) = Some (resource, ''read'')"
      unfolding p by (auto simp: read_actions_def)
    with True show ?thesis
      by (auto simp: scope_allows_permission_def has_scope_def list_ex_iff scope_grants_iff [OF assms(2)])
  next
    case read: False
    show ?thesis
    proof (cases "action = ''ingest''")
      case True
      have "permission_to_scope (resource @ ''.'' @ action) = Some (resource, ''ingest'')"
        using p by (simp add: True read_actions_def write_actions_def)
      with True show ?thesis
        by (auto simp: scope_allows_permission_def has_scope_def list_ex_iff scope_grants_iff [OF assms(2)])
    next
      case False
      with read have "permission_to_scope (resource @ ''.'' @ action) = Some (resource, ''write'')"
        unfolding p by (simp add: read_actions_def)
      with False read show ?thesis
        by (auto simp: scope_allows_permission_def has_scope_def list_ex_iff scope_grants_iff [OF assms(2)])
    qed
  qed
qed

lemma scope_allows_exact_witness:
  "\<not> scope_allows_permission (Some [''*:write'']) ''connection_logs.ingest'' \<and>
   scope_allows_permission (Some [''clients:write'']) ''clients.view''"
  using scope_allows_exact [of "''ingest''" "''connection_logs''" "[''*:write'']"]
    scope_allows_exact [of "''view''" "''clients''" "[''clients:write'']"] by simp

section \<open>What an admitted request may rely on\<close>

lemma found: "find P xs = Some y \<Longrightarrow> y \<in> set xs \<and> P y"
  by (induction xs) (auto split: if_splits)

text \<open>The user with a right to the organization: by home or membership of the matching persona.\<close>

definition belongs_to :: "auth_db \<Rightarrow> user_row \<Rightarrow> nat \<Rightarrow> bool" where
  "belongs_to db u org \<longleftrightarrow>
     (us_org u = Some org \<or> membership_role db (us_id u) org \<noteq> None) \<and>
     (case membership_role db (us_id u) org of None \<Rightarrow> True | Some r \<Rightarrow> membership_persona r = authority_persona db u)"

definition install_wide :: "auth_config \<Rightarrow> auth_db \<Rightarrow> user_row \<Rightarrow> bool" where
  "install_wide x db u \<longleftrightarrow> is_install_operator_user x u \<or> is_super_admin db u"

definition admitted_user :: "auth_db \<Rightarrow> nat \<Rightarrow> nat \<Rightarrow> user_row \<Rightarrow> bool" where
  "admitted_user db user org u \<longleftrightarrow>
     u \<in> set (ub_users db) \<and> us_id u = user \<and> us_active u \<and> us_live u \<and>
     (\<exists>g\<in>set (ub_orgs db). og_id g = org \<and> og_active g \<and> og_live g)"

lemma resolve_sound:
  assumes "resolve_org_principal x db user home requested allow = Some a"
  shows "\<exists>u. admitted_user db user (oa_org a) u \<and> oa_org a = wanted_org requested home \<and>
    (if oa_operator a \<or> oa_super a then allow \<and> install_wide x db u else belongs_to db u (oa_org a))"
proof -
  define org where "org = wanted_org requested home"
  from assms obtain g u where g: "find (\<lambda>g. og_id g = org \<and> og_active g \<and> og_live g) (ub_orgs db) = Some g"
    and u: "find (\<lambda>u. us_id u = user \<and> us_active u \<and> us_live u) (ub_users db) = Some u"
    unfolding resolve_org_principal_def Let_def org_def [symmetric] by (auto split: if_splits option.splits)
  have ids: "us_id u = user" using found [OF u] by simp
  have "admitted_user db user org u" using found [OF g] found [OF u] by (auto simp: admitted_user_def)
  moreover have "oa_org a = org \<and>
      (if oa_operator a \<or> oa_super a then allow \<and> install_wide x db u else belongs_to db u org)"
    using assms unfolding resolve_org_principal_def Let_def org_def [symmetric] g u
    by (auto simp: belongs_to_def install_wide_def ids split: if_splits option.splits)
  ultimately show ?thesis by (auto simp: org_def)
qed

text \<open>Where a permission of a user in an organization comes from: the group, the membership role, or the legacy role.\<close>

definition holds_permission :: "auth_config \<Rightarrow> auth_db \<Rightarrow> user_row \<Rightarrow> nat \<Rightarrow> string \<Rightarrow> bool" where
  "holds_permission x db u org slug \<longleftrightarrow>
     (\<exists>r\<in>set (ub_roles db). ro_live r \<and> (ro_id r, slug) \<in> set (ub_grants db) \<and>
        (case live_group db u of
           Some g \<Rightarrow> ro_id r = ro_id g
         | None \<Rightarrow> (\<exists>name. membership_role db (us_id u) org = Some name \<and> ax_name_eq x (ro_name r) name) \<or>
                   us_org u = Some org \<and> ax_name_eq x (ro_name r) (us_role u)))"

lemma role_grants_iff: "s \<in> set (role_grants db r) \<longleftrightarrow> (r, s) \<in> set (ub_grants db)"
  by (force simp: role_grants_def)

lemma same_user:
  "distinct (map us_id (ub_users db)) \<Longrightarrow> u \<in> set (ub_users db) \<Longrightarrow> v \<in> set (ub_users db) \<Longrightarrow> us_id u = us_id v \<Longrightarrow> u = v"
  by (metis distinct_map inj_onD)

lemma user_unique:
  assumes "distinct (map us_id (ub_users db))" and "u \<in> set (ub_users db)" and "us_live u"
  shows "find (\<lambda>v. us_id v = us_id u \<and> us_live v) (ub_users db) = Some u"
proof (cases "find (\<lambda>v. us_id v = us_id u \<and> us_live v) (ub_users db)")
  case None
  with assms show ?thesis by (auto simp: find_None_iff)
next
  case (Some w)
  with found [OF Some] assms show ?thesis by (auto simp: distinct_map dest: inj_onD)
qed

lemma live_group_in: "live_group db u = Some g \<Longrightarrow> g \<in> set (ub_roles db) \<and> ro_live g"
  by (auto simp: live_group_def dest: found split: option.splits)

lemma get_permissions_sound:
  assumes "distinct (map us_id (ub_users db))" and "u \<in> set (ub_users db)" and "us_live u"
    and "belongs_to db u org" and "slug \<in> set (get_permissions x db (us_id u) org)"
  shows "holds_permission x db u org slug"
proof (cases "live_group db u")
  case (Some g)
  have "us_org u = Some org \<or> (\<exists>y. membership_role db (us_id u) org = Some y)"
    using assms(4) by (auto simp: belongs_to_def)
  with assms(5) have "(ro_id g, slug) \<in> set (ub_grants db)"
    by (auto simp: get_permissions_def user_unique [OF assms(1-3)] Some role_grants_iff)
  with live_group_in [OF Some] show ?thesis by (auto simp: holds_permission_def Some)
next
  case None
  define rows where "rows = (case membership_role db (us_id u) org of
       None \<Rightarrow> []
     | Some name \<Rightarrow> (case find (\<lambda>r. ax_name_eq x (ro_name r) name \<and> ro_live r) (ub_roles db) of
                      None \<Rightarrow> [] | Some r \<Rightarrow> role_grants db (ro_id r)))"
  have rows: "\<exists>r\<in>set (ub_roles db). ro_live r \<and> (ro_id r, slug) \<in> set (ub_grants db) \<and>
      (\<exists>name. membership_role db (us_id u) org = Some name \<and> ax_name_eq x (ro_name r) name)" if "slug \<in> set rows"
    using that
    by (cases "membership_role db (us_id u) org"; cases "find (\<lambda>r. ax_name_eq x (ro_name r) (the (membership_role db (us_id u) org)) \<and> ro_live r) (ub_roles db)")
      (auto simp: rows_def role_grants_iff dest: found)
  have "slug \<in> set rows \<or> us_org u = Some org \<and>
      (\<exists>r\<in>set (ub_roles db). ro_live r \<and> ax_name_eq x (ro_name r) (us_role u) \<and> slug \<in> set (role_grants db (ro_id r)))"
    using assms(5) unfolding get_permissions_def rows_def [symmetric]
    by (auto simp: user_unique [OF assms(1-3)] None split: if_splits)
  with rows show ?thesis by (auto simp: holds_permission_def None role_grants_iff)
qed

text \<open>What the credential of a principal was.\<close>

definition live_token :: "auth_config \<Rightarrow> api_token \<Rightarrow> bool" where
  "live_token x t \<longleftrightarrow> tk_live t \<and> \<not> tk_revoked t \<and> (case tk_expires t of None \<Rightarrow> True | Some e \<Rightarrow> ax_now x < e)"

definition token_behind :: "auth_config \<Rightarrow> auth_db \<Rightarrow> http_request \<Rightarrow> principal \<Rightarrow> api_token \<Rightarrow> bool" where
  "token_behind x db rq p t \<longleftrightarrow>
     t \<in> set (ub_tokens db) \<and> live_token x t \<and> map_option (ax_sha256 x) (hr_api_key rq) = Some (tk_hash t) \<and>
     pr_token p = Some (tk_id t) \<and> tk_user t = pr_user p \<and> tk_org t = Some (pr_org p) \<and> \<not> pr_global p \<and>
     pr_scopes p = tk_scopes t \<and> pr_sql_null p = tk_sql_null t"

definition session_behind :: "auth_config \<Rightarrow> http_request \<Rightarrow> principal \<Rightarrow> user_row \<Rightarrow> bool" where
  "session_behind x rq p u \<longleftrightarrow>
     pr_token p = None \<and>
     (\<exists>tok pl. ax_jwt_verify x tok = Some pl \<and> pl_type pl = Some ''staff'' \<and> \<not> is_portal_payload pl \<and> \<not> is_mfa_payload pl \<and>
        pl_sub pl = us_id u \<and> case_option 0 id (pl_version pl) = us_version u \<and>
        pr_org p = wanted_org (pl_org pl) (us_org u)) \<and>
     (us_must_change u \<longrightarrow> password_change_allowed (hr_url rq))"

lemma verify_staff_sound:
  "verify_staff_access_token x tok = Some p \<Longrightarrow>
     ax_jwt_verify x tok = Some p \<and> pl_type p = Some ''staff'' \<and> \<not> is_portal_payload p \<and> \<not> is_mfa_payload p"
  by (auto simp: verify_staff_access_token_def split: option.splits if_splits)

lemma api_token_sound:
  assumes "authenticate_api_token x db key = Inr p" and "nonempty (hr_api_key rq) = Some key"
    and orgs: "\<forall>t\<in>set (ub_tokens db). tk_org t \<noteq> Some 0"
  shows "\<exists>u t. admitted_user db (pr_user p) (pr_org p) u \<and> belongs_to db u (pr_org p) \<and> token_behind x db rq p t"
proof -
  let ?f = "find (\<lambda>t. tk_hash t = ax_sha256 x key \<and> tk_org t \<noteq> None \<and> tk_live t \<and> \<not> tk_revoked t \<and>
              (case tk_expires t of None \<Rightarrow> True | Some e \<Rightarrow> ax_now x < e) \<and>
              find (\<lambda>u. us_id u = tk_user t \<and> us_live u) (ub_users db) \<noteq> None) (ub_tokens db)"
  from assms(1) obtain t where t: "?f = Some t"
    unfolding authenticate_api_token_def by (cases ?f) simp_all
  note p = assms(1) [unfolded authenticate_api_token_def t option.case]
  from p obtain u where u: "find (\<lambda>u. us_id u = tk_user t \<and> us_live u) (ub_users db) = Some u"
    by (auto split: option.splits)
  from p obtain a where a: "resolve_org_principal x db (tk_user t) (us_org u) (tk_org t) False = Some a"
    and pa: "p = \<lparr>pr_user = tk_user t, pr_role = oa_persona a, pr_member_role = oa_member a, pr_org = oa_org a,
      pr_operator = False, pr_super = False, pr_global = False, pr_token = Some (tk_id t),
      pr_scopes = tk_scopes t, pr_sql_null = tk_sql_null t\<rparr>"
    unfolding u option.case by (auto split: if_splits option.splits)
  from resolve_sound [OF a] obtain v where v: "admitted_user db (tk_user t) (oa_org a) v"
      "oa_org a = wanted_org (tk_org t) (us_org u)" "belongs_to db v (oa_org a)"
    by (auto split: if_splits)
  obtain n where n: "tk_org t = Some n" "n \<noteq> 0" using found [OF t] orgs by auto
  have "hr_api_key rq = Some key" using assms(2) by (auto simp: nonempty_def split: if_splits)
  then have "token_behind x db rq p t"
    using found [OF t] v(2) n by (simp add: token_behind_def live_token_def pa wanted_org_def)
  with v show ?thesis unfolding pa by auto
qed

lemma session_sound:
  assumes ok: "authenticate_session x db rq = Inr p" and ids: "distinct (map us_id (ub_users db))"
  shows "\<exists>u. admitted_user db (pr_user p) (pr_org p) u \<and> session_behind x rq p u \<and>
    (if pr_global p then install_wide x db u else belongs_to db u (pr_org p))"
proof -
  let ?t = "case bearer_token (hr_authorization rq) of None \<Rightarrow> nonempty (hr_cookie rq) | Some t \<Rightarrow> Some t"
  from ok obtain tok where tok: "?t = Some tok"
    unfolding authenticate_session_def by (cases ?t) simp_all
  note p1 = ok [unfolded authenticate_session_def tok option.case]
  from p1 obtain pl where pl: "verify_staff_access_token x tok = Some pl" by (auto split: option.splits)
  note p2 = p1 [unfolded pl option.case]
  from p2 obtain u where u: "find (\<lambda>u. us_id u = pl_sub pl \<and> us_live u) (ub_users db) = Some u"
    by (auto split: option.splits)
  note p3 = p2 [unfolded u option.case]
  from p3 obtain a where a: "resolve_org_principal x db (us_id u) (us_org u) (pl_org pl) True = Some a"
    and st: "us_active u" "\<not> token_version_stale (pl_version pl) (us_version u)"
      "us_must_change u \<Longrightarrow> password_change_allowed (hr_url rq)"
    and pa: "p = \<lparr>pr_user = us_id u, pr_role = oa_persona a, pr_member_role = oa_member a, pr_org = oa_org a,
      pr_operator = oa_operator a, pr_super = oa_super a, pr_global = oa_operator a \<or> oa_super a,
      pr_token = None, pr_scopes = Null_scopes, pr_sql_null = False\<rparr>"
    by (auto split: if_splits option.splits)
  from resolve_sound [OF a] obtain v where v: "admitted_user db (us_id u) (oa_org a) v"
      "oa_org a = wanted_org (pl_org pl) (us_org u)"
      "if oa_operator a \<or> oa_super a then install_wide x db v else belongs_to db v (oa_org a)"
    by (auto split: if_splits)
  have uv: "v = u" using found [OF u] v(1) same_user [OF ids, of v u] by (simp add: admitted_user_def)
  have "session_behind x rq p u"
    unfolding session_behind_def pa principal.select_convs
  proof (intro conjI)
    show "\<exists>tok pl. ax_jwt_verify x tok = Some pl \<and> pl_type pl = Some ''staff'' \<and> \<not> is_portal_payload pl \<and>
        \<not> is_mfa_payload pl \<and> pl_sub pl = us_id u \<and> case_option 0 id (pl_version pl) = us_version u \<and>
        oa_org a = wanted_org (pl_org pl) (us_org u)"
      using verify_staff_sound [OF pl] found [OF u] st(2) v(2)
      by (intro exI [of _ tok] exI [of _ pl]) (auto simp: token_version_stale_def split: option.splits)
  qed (use st(3) in simp_all)
  with v show ?thesis unfolding pa uv by auto
qed

text \<open>The scopes a token brings to a route.\<close>

definition token_permits :: "auth_config \<Rightarrow> api_token \<Rightarrow> string list \<Rightarrow> bool" where
  "token_permits x t required \<longleftrightarrow>
     tk_scopes t = Null_scopes \<and> tk_sql_null t \<or>
     (\<exists>ss. (tk_scopes t = Scope_list ss \<or> (\<exists>j. tk_scopes t = Scope_text j \<and> ax_parse_json x j = Some (Scope_list ss))) \<and>
        (\<exists>s\<in>set required. scope_allows_permission (Some ss) s))"

lemma enforce_token_scopes_sound:
  assumes "enforce_token_scopes x p required" and "token_behind x db rq p t"
  shows "token_permits x t required"
proof (cases "unrestricted_token p")
  case True
  with assms(2) show ?thesis by (simp add: token_behind_def unrestricted_token_def token_permits_def)
next
  case False
  have tk: "pr_token p \<noteq> None" "pr_scopes p = tk_scopes t" using assms(2) by (simp_all add: token_behind_def)
  let ?v = "case tk_scopes t of Scope_text s \<Rightarrow> ax_parse_json x s | v \<Rightarrow> Some v"
  have "case ?v of Some (Scope_list ss) \<Rightarrow> ss \<noteq> [] \<and> list_ex (scope_allows_permission (Some ss)) required | _ \<Rightarrow> False"
    using assms(1) unfolding enforce_token_scopes_def by (simp only: tk False if_False simp_thms)
  then obtain ss where ss: "?v = Some (Scope_list ss)" "list_ex (scope_allows_permission (Some ss)) required"
    by (auto split: option.splits json_scopes.splits)
  have "tk_scopes t = Scope_list ss \<or> (\<exists>j. tk_scopes t = Scope_text j \<and> ax_parse_json x j = Some (Scope_list ss))"
    using ss(1) by (cases "tk_scopes t") simp_all
  with ss(2) show ?thesis by (auto simp: token_permits_def list_ex_iff)
qed

text \<open>
  C99: a request passes a permission guard only for a live and active user of a live and active organization. Behind it
  is either a staff session whose token is of the user's present version, or a live, unrevoked, unexpired key of that
  very organization whose scopes permit a permission of the route. Unless the session is of an install-wide identity,
  the user belongs to the organization and holds a permission of the route there.
\<close>

theorem permission_isolated:
  assumes "distinct (map us_id (ub_users db))" and "\<forall>t\<in>set (ub_tokens db). tk_org t \<noteq> Some 0"
    and "authenticate_request x db rq = Inr p" and "require_permission x db p required"
  shows "\<exists>u. admitted_user db (pr_user p) (pr_org p) u \<and>
    (session_behind x rq p u \<or> (\<exists>t. token_behind x db rq p t \<and> token_permits x t required)) \<and>
    (pr_global p \<and> pr_token p = None \<and> install_wide x db u \<or>
     belongs_to db u (pr_org p) \<and> (\<exists>s\<in>set required. holds_permission x db u (pr_org p) s))"
proof -
  have held: "\<exists>s\<in>set required. holds_permission x db u (pr_org p) s"
    if "admitted_user db (pr_user p) (pr_org p) u" "belongs_to db u (pr_org p)" "\<not> (pr_global p \<and> pr_token p = None)" for u
    using assms(4) that get_permissions_sound [OF assms(1), of u "pr_org p" _ x]
    by (auto simp: require_permission_def list_ex_iff admitted_user_def split: if_splits)
  have scoped: "enforce_token_scopes x p required" using assms(4) by (simp add: require_permission_def split: if_splits)
  show ?thesis
  proof (cases "nonempty (hr_api_key rq)")
    case None
    with assms(3) have "authenticate_session x db rq = Inr p" by (simp add: authenticate_request_def)
    from session_sound [OF this assms(1)] obtain u where u: "admitted_user db (pr_user p) (pr_org p) u"
        "session_behind x rq p u" "if pr_global p then install_wide x db u else belongs_to db u (pr_org p)" by blast
    show ?thesis
    proof (cases "pr_global p")
      case True
      have "pr_token p = None" using u(2) by (simp add: session_behind_def)
      with True u show ?thesis by auto
    next
      case False
      with u held [of u] show ?thesis by auto
    qed
  next
    case (Some key)
    with assms(3) have "authenticate_api_token x db key = Inr p" by (simp add: authenticate_request_def)
    from api_token_sound [OF this Some assms(2)] obtain u t where u: "admitted_user db (pr_user p) (pr_org p) u"
        "belongs_to db u (pr_org p)" "token_behind x db rq p t" by blast
    have "\<not> (pr_global p \<and> pr_token p = None)" using u(3) by (simp add: token_behind_def)
    with u held [OF u(1,2)] enforce_token_scopes_sound [OF scoped u(3)] show ?thesis by auto
  qed
qed

section \<open>A key at work\<close>

text \<open>
  A technician's key limited to \<open>devices:read\<close>. The group grants \<open>radius.credentials.view\<close> only, so no permission is
  both in the scopes and granted; a route that takes either of the two is open all the same.
\<close>

definition key_config :: auth_config where
  "key_config = \<lparr>ax_name_eq = (=), ax_now = 10, ax_operators = [], ax_sha256 = id, ax_parse_json = (\<lambda>s. None),
     ax_jwt_verify = (\<lambda>s. None)\<rparr>"

definition key_db :: auth_db where
  "key_db = \<lparr>ub_users = [\<lparr>us_id = 1, us_role = ''technician'', us_active = True, us_live = True, us_org = Some 7,
       us_operator = False, us_group = Some 5, us_version = 0, us_must_change = False\<rparr>],
     ub_roles = [\<lparr>ro_id = 5, ro_name = ''field'', ro_kind = Some ''technician'', ro_system = False, ro_live = True\<rparr>],
     ub_members = [], ub_orgs = [\<lparr>og_id = 7, og_active = True, og_live = True\<rparr>],
     ub_grants = [(5, ''radius.credentials.view'')],
     ub_tokens = [\<lparr>tk_id = 3, tk_hash = ''k'', tk_user = 1, tk_org = Some 7, tk_scopes = Scope_list [''devices:read''],
       tk_sql_null = False, tk_expires = Some 20, tk_revoked = False, tk_live = True\<rparr>]\<rparr>"

definition key_request :: http_request where
  "key_request = \<lparr>hr_api_key = Some ''k'', hr_authorization = None, hr_cookie = None, hr_url = ''/api/v1/radius''\<rparr>"

definition key_principal :: principal where
  "key_principal = \<lparr>pr_user = 1, pr_role = ''technician'', pr_member_role = ''technician'', pr_org = 7, pr_operator = False,
     pr_super = False, pr_global = False, pr_token = Some 3, pr_scopes = Scope_list [''devices:read''], pr_sql_null = False\<rparr>"

lemma key_authenticates: "authenticate_request key_config key_db key_request = Inr key_principal"
  by (simp add: authenticate_request_def authenticate_api_token_def nonempty_def key_config_def key_db_def key_request_def
      key_principal_def resolve_org_principal_def wanted_org_def membership_role_def authority_persona_def live_group_def
      is_super_admin_def Let_def)

lemma key_passes: "require_permission key_config key_db key_principal [''devices.view'', ''radius.credentials.view'']"
  by code_simp


lemma permission_isolated_witness:
  "\<exists>u. admitted_user key_db 1 7 u \<and>
    (session_behind key_config key_request key_principal u \<or>
       (\<exists>t. token_behind key_config key_db key_request key_principal t \<and>
          token_permits key_config t [''devices.view'', ''radius.credentials.view''])) \<and>
    (pr_global key_principal \<and> pr_token key_principal = None \<and> install_wide key_config key_db u \<or>
     belongs_to key_db u 7 \<and>
     (\<exists>s\<in>set [''devices.view'', ''radius.credentials.view'']. holds_permission key_config key_db u 7 s))"
proof -
  have "distinct (map us_id (ub_users key_db))" "\<forall>t\<in>set (ub_tokens key_db). tk_org t \<noteq> Some 0"
    by (simp_all add: key_db_def)
  from permission_isolated [OF this key_authenticates key_passes] show ?thesis
    by (simp only: key_principal_def principal.select_convs)
qed


end
