(* ===== verification/Tax_Rules.thy ===== *)
theory Tax_Rules
  imports Money
begin

text \<open>
  Which tax a new document carries: \<open>normalizePostalCode\<close>, \<open>postalSpecMatch\<close>, \<open>resolveRegionRate\<close>,
  \<open>resolveTaxContext\<close> and \<open>assertTaxCoherent\<close> of \<open>src/services/billingService.js\<close>, over the tables
  \<open>tax_rules\<close>, \<open>tax_rates\<close> and \<open>clients\<close>.

  A rate is its number of ten-thousandths (\<open>DECIMAL(5, 4)\<close>). Comparisons of a column with NULL are false, as in
  SQL.
\<close>

section \<open>Postal codes\<close>

text \<open>The matches of \<open>/\d{5}/g\<close>.\<close>

function five_runs :: "string \<Rightarrow> string list" where
  "five_runs s =
     (if length s < 5 then []
      else if list_all is_digit (take 5 s) then take 5 s # five_runs (drop 5 s)
      else five_runs (tl s))"
  by pat_completeness auto

termination
  by (relation "measure length") auto

declare five_runs.simps [simp del]

text \<open>\<open>/^\s*\d{5}\s*-\s*\d{4}\s*$/\<close>.\<close>

definition zip_plus_four :: "string \<Rightarrow> bool" where
  "zip_plus_four s \<longleftrightarrow>
     (let a = dropWhile js_ws s; b = dropWhile js_ws (drop 5 a); d = dropWhile js_ws (tl b) in
      length a \<ge> 5 \<and> list_all is_digit (take 5 a) \<and> b \<noteq> [] \<and> hd b = CHR ''-'' \<and>
      length d \<ge> 4 \<and> list_all is_digit (take 4 d) \<and> list_all js_ws (drop 4 d))"

definition is_code_char :: "char \<Rightarrow> bool" where
  "is_code_char c \<longleftrightarrow> is_digit c \<or> (let n = code_unit c in 65 \<le> n \<and> n \<le> 90)"

definition normalize_postal_code :: "string option \<Rightarrow> string option" where
  "normalize_postal_code raw =
     (case raw of
        None \<Rightarrow> None
      | Some r \<Rightarrow>
          let str = js_upper (js_trim r); five = five_runs str; cleaned = filter is_code_char str in
          if str = [] then None
          else if five \<noteq> [] then (if length five > 1 \<and> \<not> zip_plus_four str then None else Some (hd five))
          else if length cleaned < 3 \<or> length cleaned > 10 then None
          else if \<not> list_ex is_digit cleaned then None
          else Some cleaned)"

text \<open>\<open>/^(\d+)-(\d+)$/\<close>.\<close>

definition numeric_range :: "string \<Rightarrow> (string \<times> string) option" where
  "numeric_range part =
     (let a = takeWhile is_digit part; r = dropWhile is_digit part in
      if a \<noteq> [] \<and> r \<noteq> [] \<and> hd r = CHR ''-'' \<and> tl r \<noteq> [] \<and> list_all is_digit (tl r) then Some (a, tl r) else None)"

text \<open>\<open>a <= b\<close> on texts.\<close>

fun str_le :: "string \<Rightarrow> string \<Rightarrow> bool" where
  "str_le [] b = True"
| "str_le (x # a) [] = False"
| "str_le (x # a) (y # b) = (if x = y then str_le a b else code_unit x < code_unit y)"

definition part_width :: "string \<Rightarrow> string \<Rightarrow> nat option" where
  "part_width part cp =
     (if part = [] then None
      else case numeric_range part of
        Some (a, b) \<Rightarrow>
          if length a \<noteq> length b \<or> length cp \<noteq> length a \<or> cp = [] \<or> \<not> list_all is_digit cp then None
          else (let (lo, hi) = (if digits_val a \<le> digits_val b then (a, b) else (b, a)) in
                if str_le lo cp \<and> str_le cp hi then Some (digits_val hi - digits_val lo + 1) else None)
      | None \<Rightarrow>
          if ends_with ''*'' part
          then (let prefix = butlast part in
                if prefix \<noteq> [] \<and> starts_with prefix cp then Some (10 ^ max 1 (10 - length prefix)) else None)
          else if part = cp then Some 1 else None)"

definition consider_width :: "nat option \<Rightarrow> nat option \<Rightarrow> nat option" where
  "consider_width best width =
     (case width of None \<Rightarrow> best | Some w \<Rightarrow> (case best of None \<Rightarrow> Some w | Some b \<Rightarrow> if w < b then Some w else best))"

definition spec_part :: "string \<Rightarrow> string" where
  "spec_part p = filter (\<lambda>c. \<not> js_ws c) (js_upper (js_trim p))"

definition postal_spec_match :: "string option \<Rightarrow> string option \<Rightarrow> nat option" where
  "postal_spec_match spec cp =
     (case (spec, cp) of
        (Some s, Some c) \<Rightarrow>
          if s = [] \<or> c = [] then None
          else foldl consider_width None (map (\<lambda>p. part_width (spec_part p) c) (js_split (CHR '','') s))
      | _ \<Rightarrow> None)"

section \<open>Rules and rates\<close>

record tax_rule =
  tx_id :: nat
  tx_org :: "nat option"
  tx_postal :: "string option"
  tx_rate :: nat
  tx_active :: bool
  tx_live :: bool

record tax_rate =
  tr_id :: nat
  tr_org :: "nat option"
  tr_rate :: nat
  tr_default :: bool
  tr_active :: bool
  tr_live :: bool

record tax_client =
  tc_id :: nat
  tc_org :: "nat option"
  tc_exempt :: bool
  tc_locale :: string
  tc_zip :: "string option"

text \<open>\<open>td_locales\<close> holds the live organizations. The rules stand in the order of their ids.\<close>

record tax_db =
  td_rules :: "tax_rule list"
  td_rates :: "tax_rate list"
  td_clients :: "tax_client list"
  td_locales :: "(nat \<times> string) list"

record tax_context =
  cx_rate :: nat
  cx_rate_id :: "nat option"
  cx_exempt :: bool
  cx_rule :: "nat option"

text \<open>The winning rule: its id, rate and width.\<close>

fun narrowest :: "(nat \<times> nat \<times> nat) option \<Rightarrow> string \<Rightarrow> tax_rule list \<Rightarrow> (nat \<times> nat \<times> nat) option" where
  "narrowest winner cp [] = winner"
| "narrowest winner cp (r # rs) =
     (case postal_spec_match (tx_postal r) (Some cp) of
        None \<Rightarrow> narrowest winner cp rs
      | Some width \<Rightarrow>
          (case winner of
             Some (i, rate, w) \<Rightarrow>
               if width < w then narrowest (Some (tx_id r, tx_rate r, width)) cp rs else narrowest winner cp rs
           | None \<Rightarrow> narrowest (Some (tx_id r, tx_rate r, width)) cp rs))"

definition rule_applies :: "nat option \<Rightarrow> tax_rule \<Rightarrow> bool" where
  "rule_applies org r \<longleftrightarrow> org \<noteq> None \<and> tx_org r = org \<and> tx_active r \<and> tx_live r \<and> tx_postal r \<noteq> None"

definition resolve_region_rate :: "tax_rule list \<Rightarrow> nat option \<Rightarrow> string option \<Rightarrow> (nat \<times> nat \<times> nat) option" where
  "resolve_region_rate rules org raw_zip =
     (case normalize_postal_code raw_zip of
        None \<Rightarrow> None
      | Some cp \<Rightarrow> narrowest None cp (filter (rule_applies org) rules))"

definition org_locale :: "tax_db \<Rightarrow> nat \<Rightarrow> string" where
  "org_locale db org =
     (case map_of (td_locales db) org of None \<Rightarrow> ''global'' | Some l \<Rightarrow> if l = [] then ''global'' else l)"

definition tax_client_row :: "tax_db \<Rightarrow> nat option \<Rightarrow> nat option \<Rightarrow> tax_client option" where
  "tax_client_row db org client =
     (case client of
        None \<Rightarrow> None
      | Some c \<Rightarrow> if c = 0 then None else find (\<lambda>r. tc_id r = c \<and> tc_org r = org) (td_clients db))"

text \<open>The rates the query admits; one with the explicit id comes first.\<close>

definition rate_admitted :: "nat option \<Rightarrow> nat \<Rightarrow> tax_rate \<Rightarrow> bool" where
  "rate_admitted org explicit r \<longleftrightarrow> tr_active r \<and> tr_live r \<and>
     (tr_id r = explicit \<and> (tr_org r = None \<or> tr_org r = org) \<or> org \<noteq> None \<and> tr_org r = org \<and> tr_default r)"

definition configured_rate :: "tax_db \<Rightarrow> nat option \<Rightarrow> nat \<Rightarrow> tax_rate option" where
  "configured_rate db org explicit =
     (let rows = filter (rate_admitted org explicit) (td_rates db) in
      case find (\<lambda>r. tr_id r = explicit) rows of
        Some r \<Rightarrow> Some r
      | None \<Rightarrow> (case rows of [] \<Rightarrow> None | r # _ \<Rightarrow> Some r))"

text \<open>\<open>passed\<close> is the client row a caller has read already; \<open>explicit\<close> the rate it asks for, 0 for none.\<close>

definition resolve_tax_context ::
    "tax_db \<Rightarrow> nat option \<Rightarrow> nat option \<Rightarrow> nat \<Rightarrow> tax_client option \<Rightarrow> tax_context" where
  "resolve_tax_context db org client explicit passed =
     (let row = (case passed of Some r \<Rightarrow> Some r | None \<Rightarrow> tax_client_row db org client);
          region = (if explicit = 0 then Option.bind row (\<lambda>r. resolve_region_rate (td_rules db) org (tc_zip r)) else None);
          mx = (case org of Some n \<Rightarrow> org_locale db n = ''MX''
                | None \<Rightarrow> (case row of Some r \<Rightarrow> tc_locale r = ''MX'' | None \<Rightarrow> False))
      in if (case row of Some r \<Rightarrow> tc_exempt r | None \<Rightarrow> False)
         then \<lparr>cx_rate = 0, cx_rate_id = None, cx_exempt = True, cx_rule = None\<rparr>
         else (case region of
           Some (rule, rate, _) \<Rightarrow> \<lparr>cx_rate = rate, cx_rate_id = None, cx_exempt = False, cx_rule = Some rule\<rparr>
         | None \<Rightarrow>
             (case configured_rate db org explicit of
                Some r \<Rightarrow> \<lparr>cx_rate = tr_rate r, cx_rate_id = Some (tr_id r), cx_exempt = False, cx_rule = None\<rparr>
              | None \<Rightarrow> \<lparr>cx_rate = (if mx then 1600 else 0), cx_rate_id = None, cx_exempt = False, cx_rule = None\<rparr>)))"

datatype tax_error = Client_tax_exempt | Tax_required nat

text \<open>The tax of a document in cents; half a cent counts as none.\<close>

definition assert_tax_coherent :: "tax_db \<Rightarrow> nat option \<Rightarrow> nat option \<Rightarrow> int \<Rightarrow> tax_error + unit" where
  "assert_tax_coherent db org client tax =
     (if client = None then Inr ()
      else
        (let carries = (0 < tax); ctx = resolve_tax_context db org client 0 None in
         if cx_exempt ctx then (if carries then Inl Client_tax_exempt else Inr ())
         else if \<not> carries \<and> 0 < cx_rate ctx then Inl (Tax_required (cx_rate ctx)) else Inr ()))"

section \<open>The tax of an amount\<close>

text \<open>\<open>money.mul(subtotal, rate)\<close> in cents.\<close>

definition tax_of :: "int \<Rightarrow> nat \<Rightarrow> int" where
  "tax_of subtotal rate = div_round (subtotal * int rate) 10000"

text \<open>The text of the Number of a rate: no trailing zeros.\<close>

definition rate_text :: "nat \<Rightarrow> string" where
  "rate_text r =
     (let w = show_nat (r div 10000); f = r mod 10000;
          ds = [digit_char (f div 1000), digit_char (f div 100 mod 10), digit_char (f div 10 mod 10), digit_char (f mod 10)];
          frac = rev (dropWhile (\<lambda>c. c = CHR ''0'') (rev ds))
      in w @ (if frac = [] then [] else CHR ''.'' # frac))"

section \<open>The narrowest rule wins\<close>

definition rule_width :: "string \<Rightarrow> tax_rule \<Rightarrow> nat option" where
  "rule_width cp r = postal_spec_match (tx_postal r) (Some cp)"

definition rule_found :: "string \<Rightarrow> tax_rule \<Rightarrow> nat \<times> nat \<times> nat \<Rightarrow> bool" where
  "rule_found cp r v \<longleftrightarrow> (case v of (i, rate, w) \<Rightarrow> i = tx_id r \<and> rate = tx_rate r \<and> rule_width cp r = Some w)"

text \<open>No rule of the list is narrower, and none as narrow has a smaller id.\<close>

definition beats :: "nat \<times> nat \<times> nat \<Rightarrow> string \<Rightarrow> tax_rule \<Rightarrow> bool" where
  "beats v cp r \<longleftrightarrow> (case v of (i, rate, w) \<Rightarrow>
     (case rule_width cp r of None \<Rightarrow> True | Some w' \<Rightarrow> w < w' \<or> w = w' \<and> i \<le> tx_id r))"

lemma narrowest_None: "narrowest win cp rs = None \<longleftrightarrow> win = None \<and> (\<forall>r\<in>set rs. rule_width cp r = None)"
  by (induction win cp rs rule: narrowest.induct) (auto simp: rule_width_def split: option.splits)

lemma narrowest_Some:
  assumes "narrowest win cp rs = Some v" and "sorted_wrt (\<lambda>a b. tx_id a < tx_id b) rs"
    and "\<And>i rate w r. win = Some (i, rate, w) \<Longrightarrow> r \<in> set rs \<Longrightarrow> i < tx_id r"
  shows "(win = Some v \<or> (\<exists>r\<in>set rs. rule_found cp r v)) \<and> (\<forall>r\<in>set rs. beats v cp r) \<and>
    (case win of None \<Rightarrow> True | Some (i, rate, w) \<Rightarrow> snd (snd v) < w \<or> v = (i, rate, w))"
  using assms
proof (induction rs arbitrary: win)
  case Nil
  then show ?case by (auto split: prod.splits)
next
  case (Cons r rs)
  have sorted: "sorted_wrt (\<lambda>a b. tx_id a < tx_id b) rs" "\<forall>q\<in>set rs. tx_id r < tx_id q" using Cons.prems(2) by simp_all
  show ?case
  proof (cases "rule_width cp r")
    case None
    with Cons.prems(1) have "narrowest win cp rs = Some v" by (simp add: rule_width_def)
    from Cons.IH [OF this sorted(1)] Cons.prems(3) None show ?thesis
      by (auto simp: beats_def split: prod.splits option.splits)
  next
    case (Some width)
    let ?new = "Some (tx_id r, tx_rate r, width)"
    show ?thesis
    proof (cases "case win of None \<Rightarrow> True | Some (i, rate, w) \<Rightarrow> width < w")
      case True
      with Cons.prems(1) Some have "narrowest ?new cp rs = Some v"
        by (auto simp: rule_width_def split: option.splits prod.splits)
      from Cons.IH [OF this sorted(1)] sorted(2)
      have v: "?new = Some v \<or> (\<exists>r\<in>set rs. rule_found cp r v)" "\<forall>q\<in>set rs. beats v cp q"
        "snd (snd v) < width \<or> v = (tx_id r, tx_rate r, width)" by auto
      have "rule_found cp r (tx_id r, tx_rate r, width)" using Some by (simp add: rule_found_def)
      with v(1) have "\<exists>q\<in>set (r # rs). rule_found cp q v" by auto
      moreover have "beats v cp r" using v(3) Some by (auto simp: beats_def split: prod.splits)
      ultimately show ?thesis using v True by (auto split: option.splits prod.splits)
    next
      case False
      then obtain i rate w where w: "win = Some (i, rate, w)" "w \<le> width"
        by (auto split: option.splits prod.splits)
      with Cons.prems(1) Some have "narrowest win cp rs = Some v" by (simp add: rule_width_def)
      from Cons.IH [OF this sorted(1)] Cons.prems(3)
      have v: "win = Some v \<or> (\<exists>r\<in>set rs. rule_found cp r v)" "\<forall>q\<in>set rs. beats v cp q"
        "snd (snd v) < w \<or> v = (i, rate, w)" by (auto simp: w(1))
      have "i < tx_id r" using Cons.prems(3) [OF w(1), of r] by simp
      then have "beats v cp r" using v(3) Some w(2) by (auto simp: beats_def split: prod.splits)
      with v show ?thesis by (auto simp: w(1))
    qed
  qed
qed

text \<open>
  The region rate of a postal code is that of a matching rule of the organization that is narrower than every other
  matching rule, the smallest id first among equals; there is none exactly when the postal code cannot be read or no
  rule matches it.
\<close>

theorem region_rate_narrowest:
  assumes "sorted_wrt (\<lambda>a b. tx_id a < tx_id b) rules"
  shows "case resolve_region_rate rules org raw of
      None \<Rightarrow> (case normalize_postal_code raw of
                None \<Rightarrow> True | Some cp \<Rightarrow> \<forall>r\<in>set rules. rule_applies org r \<longrightarrow> rule_width cp r = None)
    | Some v \<Rightarrow> (\<exists>cp r. normalize_postal_code raw = Some cp \<and> r \<in> set rules \<and> rule_applies org r \<and> rule_found cp r v \<and>
                 (\<forall>q\<in>set rules. rule_applies org q \<longrightarrow> beats v cp q))"
proof (cases "normalize_postal_code raw")
  case None
  then show ?thesis by (simp add: resolve_region_rate_def)
next
  case (Some cp)
  let ?rs = "filter (rule_applies org) rules"
  have sorted: "sorted_wrt (\<lambda>a b. tx_id a < tx_id b) ?rs" using assms by (rule sorted_wrt_filter)
  show ?thesis
  proof (cases "narrowest None cp ?rs")
    case None
    with narrowest_None [of None cp ?rs] show ?thesis unfolding resolve_region_rate_def Some option.case None by simp
  next
    case v: (Some v)
    from narrowest_Some [OF v sorted] show ?thesis by (auto simp: resolve_region_rate_def Some v)
  qed
qed

section \<open>Codes of six and more digits\<close>

lemma five_runs_digits:
  assumes "list_all is_digit s"
  shows "five_runs s = (if length s < 5 then [] else take 5 s # five_runs (drop 5 s))"
  using assms by (subst five_runs.simps) (auto simp: list_all_iff dest: in_set_takeD)

lemma upper_digit: "is_digit c \<Longrightarrow> upper_text c = [c]"
  by (auto simp: upper_text_def is_digit_def Let_def)

lemma js_upper_digits: "list_all is_digit s \<Longrightarrow> js_upper s = s"
  by (induction s) (simp_all add: js_upper_def upper_digit)

lemma trim_digits_id: "list_all is_digit s \<Longrightarrow> js_trim s = s"
  by (cases "s = []") (simp_all add: js_trim_def [of "[]"] js_trim_id list_all_iff digit_not_ws)

lemma digits_no_ws: "list_all is_digit s \<Longrightarrow> filter (\<lambda>c. \<not> js_ws c) s = s"
  by (induction s) (auto simp: digit_not_ws)

text \<open>
  A code of six or more digits is cut to its first five or not read at all, so a rule that names it does not apply
  to a client who has it.
\<close>

theorem long_code_unmatched:
  assumes "list_all is_digit code" and "5 < length code"
  shows "(normalize_postal_code (Some code) = None \<or> normalize_postal_code (Some code) = Some (take 5 code)) \<and>
    postal_spec_match (Some code) (normalize_postal_code (Some code)) = None"
proof -
  have runs: "five_runs code = take 5 code # five_runs (drop 5 code)" using five_runs_digits [OF assms(1)] assms(2) by simp
  have norm: "normalize_postal_code (Some code) = None \<or> normalize_postal_code (Some code) = Some (take 5 code)"
    using runs by (simp add: normalize_postal_code_def trim_digits_id [OF assms(1)] js_upper_digits [OF assms(1)] Let_def)
  have ne: "take 5 code \<noteq> code" using assms(2) by (metis length_take min.absorb4 nat_less_le)
  have "code \<noteq> []" using assms(2) by auto
  then have "is_digit (last code)" using assms(1) last_in_set [of code] by (simp add: list_all_iff)
  then have star: "last code \<noteq> CHR ''*''" by (auto simp: is_digit_def)
  have comma: "CHR '','' \<notin> set code" using assms(1) by (auto simp: list_all_iff is_digit_def)
  have part: "spec_part code = code"
    using assms(1) by (simp add: spec_part_def trim_digits_id js_upper_digits digits_no_ws)
  have "dropWhile is_digit code = []" using assms(1) by (simp add: dropWhile_eq_Nil_conv list_all_iff)
  then have range: "numeric_range code = None" by (simp add: numeric_range_def)
  have "ends_with ''*'' code = False"
    using star assms(2) by (metis ends_with_def last_ConsL last_drop length_drop diff_diff_cancel length_Cons list.size(3) less_numeral_extra(1) not_less0 One_nat_def append_Nil2 last_appendR list.distinct(1) append_take_drop_id)
  then have "part_width code (take 5 code) = None" using range assms(2) ne [symmetric] by (auto simp: part_width_def)
  then have "postal_spec_match (Some code) (Some (take 5 code)) = None"
    using assms(2) by (simp add: postal_spec_match_def js_split_fresh [OF comma] part consider_width_def)
  with norm show ?thesis by (auto simp: postal_spec_match_def)
qed

lemma long_code_unmatched_witness:
  "postal_spec_match (Some ''560001'') (normalize_postal_code (Some ''560001'')) = None"
  using long_code_unmatched [of "''560001''"] by (simp add: is_digit_def)

section \<open>Where a rate comes from\<close>






text \<open>A Mexican border client: the region rule of 8 percent goes before the default of 16.\<close>

definition border_db :: tax_db where
  "border_db = \<lparr>td_rules = [\<lparr>tx_id = 4, tx_org = Some 1, tx_postal = Some ''22000'', tx_rate = 800,
       tx_active = True, tx_live = True\<rparr>],
     td_rates = [\<lparr>tr_id = 2, tr_org = Some 1, tr_rate = 1600, tr_default = True, tr_active = True, tr_live = True\<rparr>],
     td_clients = [\<lparr>tc_id = 9, tc_org = Some 1, tc_exempt = False, tc_locale = ''MX'', tc_zip = Some ''22000''\<rparr>],
     td_locales = [(1, ''MX'')]\<rparr>"



lemma region_rate_narrowest_witness:
  "\<exists>cp r. normalize_postal_code (Some ''22000'') = Some cp \<and> r \<in> set (td_rules border_db) \<and> rule_found cp r (4, 800, 1)"
proof -
  have e: "resolve_region_rate (td_rules border_db) (Some 1) (Some ''22000'') = Some (4, 800, 1)" by code_simp
  have "sorted_wrt (\<lambda>a b. tx_id a < tx_id b) (td_rules border_db)" by (simp add: border_db_def)
  from region_rate_narrowest [OF this, of "Some 1" "Some ''22000''"] show ?thesis unfolding e by auto
qed

section \<open>The tax is what \<open>money.js\<close> computes\<close>

lemma half_up_scale: "0 < k \<Longrightarrow> half_up (n * k) (d * k) = half_up n d"
proof -
  assume "0 < k"
  have "(2 * (n * k) + d * k) div (2 * (d * k)) = ((2 * n + d) * k) div ((2 * d) * k)" by (simp add: algebra_simps)
  also have "\<dots> = (2 * n + d) div (2 * d)" using \<open>0 < k\<close> by (intro div_mult_mult2) simp
  finally show ?thesis by (simp add: half_up_def)
qed

lemma div_round_scale:
  assumes "0 < k" and "d \<noteq> 0"
  shows "div_round (n * k) (d * k) = div_round n d"
proof -
  have "d * k \<noteq> 0" using assms by simp
  then show ?thesis
    using assms half_up_scale [of k "\<bar>n\<bar>" "\<bar>d\<bar>"]
    by (simp add: div_round_sign abs_mult mult_less_0_iff)
qed

lemma scale_to_cents_div_round:
  assumes "s \<le> t" and "2 \<le> t"
  shows "scale_to_cents n s = div_round (n * 10 ^ (t - s)) (10 ^ (t - 2))"
proof (cases "s \<le> 2")
  case True
  have e: "(10::int) ^ (t - s) = 10 ^ (2 - s) * 10 ^ (t - 2)"
    using True assms by (simp add: power_add [symmetric])
  have "div_round (n * 10 ^ (2 - s) * 10 ^ (t - 2)) (1 * 10 ^ (t - 2)) = div_round (n * 10 ^ (2 - s)) 1"
    by (rule div_round_scale) simp_all
  moreover have "div_round x 1 = x" for x
  proof -
    have "half_up a 1 = a" for a by (simp add: half_up_def)
    then show ?thesis by (simp add: div_round_sign)
  qed
  ultimately show ?thesis using True by (simp add: scale_to_cents_def pow10_def e mult.assoc)
next
  case False
  have e: "(10::int) ^ (t - 2) = 10 ^ (s - 2) * 10 ^ (t - s)"
    using False assms by (simp add: power_add [symmetric])
  show ?thesis using False by (simp add: scale_to_cents_def pow10_def e div_round_scale)
qed

text \<open>The text of an amount, and of a rate, reads as its exact value.\<close>

lemma parse_from_cents:
  "\<exists>d. parse_decimal (from_cents c) = Inr d \<and> d_scale d \<le> 2 \<and> d_int d * 10 ^ (2 - d_scale d) = c"
proof -
  obtain d where d: "parse_decimal (from_cents c) = Inr d" "scale_to_cents (d_int d) (d_scale d) = c"
    using cents_from_cents [of c] by (auto simp: cents_def bind_r_Inr_conv simp del: cents_from_cents)
  obtain f where f: "list_all is_digit f" "length f \<le> 2"
    "cents_text c = (if c < 0 then ''-'' else []) @ show_nat (nat \<bar>c\<bar> div 100) @ (if f = [] then [] else CHR ''.'' # f)"
    by (rule cents_text_shape [of c])
  have "d_scale d \<le> 2"
    using d(1) parse_decimal_plain [OF show_nat_nonempty show_nat_digits f(1), of "c < 0" "nat \<bar>c\<bar> div 100"] f(2)
    by (auto simp: from_cents_def f(3))
  with d show ?thesis by (simp add: scale_to_cents_def pow10_def)
qed

lemma strip_zeros:
  "rev (dropWhile (\<lambda>x. x = c) (rev ds)) @ replicate (length ds - length (dropWhile (\<lambda>x. x = c) (rev ds))) c = ds"
proof -
  let ?t = "takeWhile (\<lambda>x. x = c) (rev ds)" and ?d = "dropWhile (\<lambda>x. x = c) (rev ds)"
  have l: "length ?t + length ?d = length ds" by (metis length_append length_rev takeWhile_dropWhile_id)
  have "?t = replicate (length ?t) c" by (rule replicate_length_same [symmetric]) (auto dest: set_takeWhileD)
  then have "rev ?t = replicate (length ?t) c" by (metis rev_replicate)
  moreover have "rev ?d @ rev ?t = ds" by (metis rev_append rev_rev_ident takeWhile_dropWhile_id)
  moreover have "length ds - length ?d = length ?t" using l by simp
  ultimately show ?thesis by simp
qed

lemma digits_val_zeros: "digits_val (s @ replicate k (CHR ''0'')) = digits_val s * 10 ^ k"
proof (induction k)
  case (Suc k)
  have "s @ replicate (Suc k) (CHR ''0'') = (s @ replicate k (CHR ''0'')) @ [CHR ''0'']"
    by (simp add: replicate_append_same)
  then show ?case using Suc digits_val_snoc [of "s @ replicate k (CHR ''0'')" "CHR ''0''"] by (simp add: digit_val_def)
qed simp

lemma four_digits:
  fixes r :: nat
  shows "r = x * 10000 + f \<Longrightarrow> f = p * 10 + d \<Longrightarrow> p = q * 10 + c \<Longrightarrow> q = a * 10 + b \<Longrightarrow>
    (((x * 10 + a) * 10 + b) * 10 + c) * 10 + d = r"
  by simp

lemma parse_rate_text:
  "\<exists>d. parse_decimal (JText (rate_text r)) = Inr d \<and> d_scale d \<le> 4 \<and> d_int d * 10 ^ (4 - d_scale d) = int r"
proof -
  define f where "f = r mod 10000"
  define ds where "ds = [digit_char (f div 1000), digit_char (f div 100 mod 10), digit_char (f div 10 mod 10), digit_char (f mod 10)]"
  define frac where "frac = rev (dropWhile (\<lambda>c. c = CHR ''0'') (rev ds))"
  let ?w = "show_nat (r div 10000)"
  have small: "f div 1000 < 10" unfolding f_def by simp
  have dig: "list_all is_digit ds" using small by (simp add: ds_def)
  have len: "length frac \<le> 4" using length_dropWhile_le [of "\<lambda>c. c = CHR ''0''" "rev ds"] by (simp add: frac_def ds_def)
  have fdig: "list_all is_digit frac"
    using dig by (auto simp: frac_def list_all_iff dest: set_dropWhileD)
  have four: "length ds = 4" by (simp add: ds_def)
  have strip: "frac @ replicate (4 - length frac) (CHR ''0'') = ds"
    using strip_zeros [of "CHR ''0''" ds] four by (simp only: frac_def length_rev)
  have val: "digits_val (?w @ ds) = r"
  proof -
    have "digits_val (?w @ ds) = ((((r div 10000) * 10 + f div 1000) * 10 + f div 100 mod 10) * 10 + f div 10 mod 10) * 10 + f mod 10"
      using small digits_val_snoc [of "?w @ [digit_char (f div 1000), digit_char (f div 100 mod 10), digit_char (f div 10 mod 10)]"]
        digits_val_snoc [of "?w @ [digit_char (f div 1000), digit_char (f div 100 mod 10)]"]
        digits_val_snoc [of "?w @ [digit_char (f div 1000)]"] digits_val_snoc [of ?w]
      by (simp add: ds_def)
    also have "\<dots> = r"
    proof -
      have "f = f div 10 * 10 + f mod 10" "f div 10 = f div 100 * 10 + f div 10 mod 10"
        "f div 100 = f div 1000 * 10 + f div 100 mod 10" "r = r div 10000 * 10000 + f"
        unfolding f_def by (simp_all add: div_mult2_eq [of _ 10 10, simplified] div_mult2_eq [of _ 100 10, simplified])
      from four_digits [OF this(4,1,2,3)] show ?thesis .
    qed
    finally show ?thesis .
  qed
  have "digits_val (?w @ frac) * 10 ^ (4 - length frac) = digits_val ((?w @ frac) @ replicate (4 - length frac) (CHR ''0''))"
    by (rule digits_val_zeros [symmetric])
  also have "\<dots> = r" using strip val by simp
  finally have v: "digits_val (?w @ frac) * 10 ^ (4 - length frac) = r" .
  have e: "rate_text r = (if False then ''-'' else []) @ ?w @ (if frac = [] then [] else CHR ''.'' # frac)"
    by (simp add: rate_text_def Let_def frac_def ds_def f_def)
  have "parse_decimal (JText (rate_text r)) = Inr \<lparr>d_int = int (digits_val (?w @ frac)), d_scale = length frac\<rparr>"
    unfolding e using parse_decimal_plain [OF show_nat_nonempty show_nat_digits fdig, of False "r div 10000"] by simp
  moreover have "int (digits_val (?w @ frac)) * 10 ^ (4 - length frac) = int r"
    using v by (metis of_nat_mult of_nat_numeral of_nat_power)
  ultimately show ?thesis using len by auto
qed

lemma tax_of_money_mul: "money_mul (from_cents c) (JText (rate_text r)) = Inr (from_cents (tax_of c r))"
proof -
  obtain d where d: "parse_decimal (from_cents c) = Inr d" "d_scale d \<le> 2" "d_int d * 10 ^ (2 - d_scale d) = c"
    using parse_from_cents by blast
  obtain e where e: "parse_decimal (JText (rate_text r)) = Inr e" "d_scale e \<le> 4" "d_int e * 10 ^ (4 - d_scale e) = int r"
    using parse_rate_text by blast
  have "(10::int) ^ (6 - (d_scale d + d_scale e)) = 10 ^ (2 - d_scale d) * 10 ^ (4 - d_scale e)"
    using d(2) e(2) by (simp add: power_add [symmetric])
  then have "d_int d * d_int e * 10 ^ (6 - (d_scale d + d_scale e)) = c * int r"
    unfolding d(3) [symmetric] e(3) [symmetric] by (simp add: algebra_simps)
  then have "scale_to_cents (d_int d * d_int e) (d_scale d + d_scale e) = tax_of c r"
    using scale_to_cents_div_round [of "d_scale d + d_scale e" 6 "d_int d * d_int e"] d(2) e(2) by (simp add: tax_of_def)
  then show ?thesis by (simp add: money_mul_def d(1) e(1))
qed

end
