(* ===== verification/Invoicing.thy ===== *)
theory Invoicing
  imports Tax_Rules Billing_Db Radius_Accounting
begin

text \<open>
  Billing periods and invoices: \<open>generateBillingPeriod\<close>, \<open>calculateOverageCharges\<close>, \<open>generateInvoice\<close>,
  \<open>createOneOffInvoice\<close> and their helpers in \<open>src/services/billingService.js\<close>.

  A \<open>DATE\<close> is its day number since 1970; the process and the database run in UTC. Amounts are cents
  (\<open>DECIMAL(10, 2)\<close>), a value the column does not hold is refused. \<open>generateInvoice\<close> runs in a transaction: the work
  (\<open>invoice_period\<close>) is the new state, or an error and the state stays. Descriptions, events and log lines are left out, and so is the
  stock drawdown of a one-off invoice. The allowance of data packs and rollover (\<open>extraAllowanceGb\<close>) is a parameter of
  the state. The dates of the JavaScript standard library are those of \<open>Utc_Time\<close>.
\<close>

section \<open>Tables\<close>

datatype billing_cycle = Monthly | Quarterly | Semi_annual | Annual

datatype addon_cycle = Addon_monthly | Addon_one_time | Addon_yearly

datatype overage_mode = Overage_none | Overage_per_gb | Overage_prompt

datatype period_status = Period_pending | Period_invoiced | Period_skipped

record bill_period =
  bp_id :: nat
  bp_contract :: nat
  bp_start :: nat
  bp_end :: nat
  bp_status :: period_status
  bp_invoice :: "nat option"
  bp_scheduled :: nat

record bill_contract =
  bc_id :: nat
  bc_org :: "nat option"
  bc_client :: nat
  bc_plan :: nat
  bc_start :: nat
  bc_first_activated :: "nat option"
  bc_billing_day :: "nat option"
  bc_cycle :: "billing_cycle option"
  bc_price_override :: "int option"

record bill_plan =
  pn_id :: nat
  pn_org :: "nat option"
  pn_price :: int
  pn_currency :: string
  pn_cycle :: billing_cycle
  pn_trial_days :: "nat option"
  pn_trial_price :: int
  pn_overage :: overage_mode
  pn_overage_price :: "int option"
  pn_cap :: "int option"

record contract_addon =
  ka_id :: nat
  ka_contract :: nat
  ka_addon :: nat
  ka_quantity :: nat
  ka_unit_price :: int
  ka_start :: nat
  ka_end :: "nat option"
  ka_active :: bool
  ka_live :: bool

record addon_entry =
  ke_id :: nat
  ke_cycle :: addon_cycle
  ke_taxable :: bool
  ke_live :: bool

record bill_invoice =
  iv_id :: nat
  iv_org :: "nat option"
  iv_client :: nat
  iv_contract :: "nat option"
  iv_number :: string
  iv_subtotal :: int
  iv_tax :: int
  iv_total :: int
  iv_currency :: string
  iv_rate :: nat
  iv_rate_id :: "nat option"
  iv_due :: nat
  iv_issued :: nat
  iv_live :: bool

text \<open>Quantities are in hundredths.\<close>

record bill_line =
  li_invoice :: nat
  li_quantity :: int
  li_unit :: int
  li_amount :: int

record bill_debit =
  de_client :: nat
  de_org :: "nat option"
  de_amount :: int
  de_currency :: string
  de_invoice :: nat

text \<open>
  \<open>bs_extra c from to\<close> is \<open>money.mul(extra.total_gb, BYTES_PER_GB)\<close> in hundredths of a byte, \<open>bs_liveness\<close> the parsed
  \<open>RADIUS_SESSION_LIVENESS_MINUTES\<close>.
\<close>

record bill_state =
  bs_contracts :: "bill_contract list"
  bs_plans :: "bill_plan list"
  bs_periods :: "bill_period list"
  bs_addons :: "contract_addon list"
  bs_catalog :: "addon_entry list"
  bs_invoices :: "bill_invoice list"
  bs_lines :: "bill_line list"
  bs_ledger :: "bill_debit list"
  bs_seq :: "nat \<Rightarrow> nat option"
  bs_tax :: tax_db
  bs_currencies :: "(nat \<times> string) list"
  bs_usage :: "usage_row list"
  bs_sessions :: "session list"
  bs_extra :: "nat \<Rightarrow> nat \<Rightarrow> nat \<Rightarrow> int"
  bs_liveness :: "int option"

datatype bill_fault = Value_out_of_range | Invoice_number_taken | Organization_missing

datatype bill_error = Plan_not_found | Invoice_generation_error bill_fault | Organization_required

definition column_fits :: "int \<Rightarrow> bool" where
  "column_fits c \<longleftrightarrow> \<bar>c\<bar> < 10000000000"

section \<open>Dates\<close>

definition day_month :: "nat \<Rightarrow> nat" where
  "day_month d = month_from 0 d"

text \<open>\<open>setMonth(getMonth() + 1)\<close>: the day of the month stays, and runs over when the next month is shorter.\<close>

definition plus_month :: "nat \<Rightarrow> nat" where
  "plus_month d = month_start (Suc (day_month d)) + (d - month_start (day_month d))"

text \<open>\<open>setDate(k)\<close> for \<open>1 <= k\<close>.\<close>

definition with_date :: "nat \<Rightarrow> nat \<Rightarrow> nat" where
  "with_date d k = month_start (day_month d) + k - 1"

definition service_start_date :: "bill_contract \<Rightarrow> nat" where
  "service_start_date c = (case bc_first_activated c of Some d \<Rightarrow> d | None \<Rightarrow> bc_start c)"

section \<open>Billing periods\<close>

text \<open>\<open>ORDER BY period_end DESC LIMIT 1\<close>.\<close>

definition later_period :: "(bill_period \<Rightarrow> bool) \<Rightarrow> bill_period option \<Rightarrow> bill_period \<Rightarrow> bill_period option" where
  "later_period P best r =
     (if P r \<and> (case best of None \<Rightarrow> True | Some b \<Rightarrow> bp_end b < bp_end r) then Some r else best)"

definition last_period :: "(bill_period \<Rightarrow> bool) \<Rightarrow> bill_period list \<Rightarrow> bill_period option" where
  "last_period P rows = foldl (later_period P) None rows"

definition next_period :: "bill_contract \<Rightarrow> bill_period list \<Rightarrow> bill_period" where
  "next_period c rows =
     (let start = (case last_period (\<lambda>r. bp_contract r = bc_id c \<and> bp_status r = Period_invoiced) rows of
            Some p \<Rightarrow> bp_end p + 1 | None \<Rightarrow> service_start_date c)
      in \<lparr>bp_id = next_id bp_id rows, bp_contract = bc_id c, bp_start = start, bp_end = plus_month start - 1,
         bp_status = Period_pending, bp_invoice = None,
         bp_scheduled = with_date start (case bc_billing_day c of None \<Rightarrow> 1 | Some k \<Rightarrow> if k = 0 then 1 else k)\<rparr>)"

text \<open>The insert meets the unique key on contract and start when a run raced it: the row that is there is used.\<close>

definition generate_billing_period :: "bill_contract \<Rightarrow> bill_period list \<Rightarrow> bill_period \<times> bill_period list" where
  "generate_billing_period c rows =
     (case last_period (\<lambda>r. bp_contract r = bc_id c \<and> bp_status r = Period_pending) rows of
        Some p \<Rightarrow> (p, rows)
      | None \<Rightarrow>
          (let p = next_period c rows in
           case find (\<lambda>r. bp_contract r = bc_id c \<and> bp_start r = bp_start p) rows of
             Some r \<Rightarrow> (r, rows)
           | None \<Rightarrow> (p, rows @ [p])))"

section \<open>Numbers\<close>

text \<open>The upsert of a sequence row: the number handed out, and the row after it.\<close>

definition next_sequence_number :: "(nat \<Rightarrow> nat option) \<Rightarrow> nat option \<Rightarrow> nat \<times> (nat \<Rightarrow> nat option)" where
  "next_sequence_number seq org =
     (let k = (case org of None \<Rightarrow> 0 | Some n \<Rightarrow> n); n = (case seq k of None \<Rightarrow> 1 | Some n \<Rightarrow> n)
      in (n, seq(k \<mapsto> n + 1)))"

definition pad_start :: "nat \<Rightarrow> string \<Rightarrow> string" where
  "pad_start n s = replicate (n - length s) (CHR ''0'') @ s"

definition next_invoice_number :: "(nat \<Rightarrow> nat option) \<Rightarrow> nat option \<Rightarrow> string \<times> (nat \<Rightarrow> nat option)" where
  "next_invoice_number seq org =
     (case next_sequence_number seq org of (n, seq') \<Rightarrow> (''INV-'' @ pad_start 6 (show_nat n), seq'))"

section \<open>Overage\<close>

definition bytes_per_gb :: int where
  "bytes_per_gb = 1073741824"

definition liveness_minutes :: "int option \<Rightarrow> int" where
  "liveness_minutes v = min (max (case v of None \<Rightarrow> 60 | Some n \<Rightarrow> n) 1) 1440"

text \<open>A session whose usage cannot be verified and that may reach into the days from \<open>a\<close> to \<open>b\<close>.\<close>

definition unverifiable_overlap :: "int option \<Rightarrow> nat \<Rightarrow> nat \<Rightarrow> session \<Rightarrow> bool" where
  "unverifiable_overlap live a b s \<longleftrightarrow>
     (se_instance s = None \<or> se_event s = Start) \<and>
     int a * ms_per_day \<le>
       (if se_instance s = None \<and> se_event s = Stop then se_started s
        else (case se_received s of Some t \<Rightarrow> t | None \<Rightarrow> (case se_last_at s of Some t \<Rightarrow> t | None \<Rightarrow> se_started s))
             + liveness_minutes live * 60000) \<and>
     se_started s < int (b + 1) * ms_per_day"

record overage =
  ov_gb :: int
  ov_price :: int
  ov_amount :: int

definition usage_in :: "bill_state \<Rightarrow> bill_contract \<Rightarrow> nat \<Rightarrow> nat \<Rightarrow> usage_row list" where
  "usage_in bs c a b =
     filter (\<lambda>u. du_contract u = Some (bc_id c) \<and> map_option int (bc_org c) = Some (du_org u) \<and> a \<le> du_day u \<and> du_day u \<le> b)
       (bs_usage bs)"

definition usage_unverified :: "bill_state \<Rightarrow> bill_contract \<Rightarrow> nat \<Rightarrow> nat \<Rightarrow> bool" where
  "usage_unverified bs c a b \<longleftrightarrow>
     usage_in bs c a b = [] \<or> list_ex (\<lambda>u. \<not> du_complete u) (usage_in bs c a b) \<or>
     list_ex (\<lambda>s. map_option int (bc_org c) = Some (se_org s) \<and> se_contract s = bc_id c \<and>
        unverifiable_overlap (bs_liveness bs) a b s) (bs_sessions bs)"

definition bytes_used :: "usage_row list \<Rightarrow> int" where
  "bytes_used us = sum_list (map (\<lambda>u. du_deltas u Bytes_in + du_deltas u Bytes_out) (filter du_complete us))"

text \<open>The allowance and the bytes over it are in hundredths of a byte, as \<open>money.js\<close> computes them.\<close>

definition overage_of :: "int \<Rightarrow> int \<Rightarrow> int \<Rightarrow> int \<Rightarrow> overage option" where
  "overage_of cap extra bytes price =
     (let over = bytes * 100 - (cap * bytes_per_gb + extra) in
      if over \<le> 0 then None
      else (let gb = div_round over bytes_per_gb; p = div_round price 100 in
            if gb \<le> 0 then None else Some \<lparr>ov_gb = gb, ov_price = p, ov_amount = div_round (gb * p) 100\<rparr>))"

definition calculate_overage_charges :: "bill_state \<Rightarrow> nat \<Rightarrow> nat \<Rightarrow> nat \<Rightarrow> overage option" where
  "calculate_overage_charges bs contract a b =
     (case find (\<lambda>c. bc_id c = contract) (bs_contracts bs) of
        None \<Rightarrow> None
      | Some c \<Rightarrow>
          (case find (\<lambda>p. pn_id p = bc_plan c) (bs_plans bs) of
             None \<Rightarrow> None
           | Some p \<Rightarrow>
               if usage_unverified bs c a b then None
               else if pn_overage p \<noteq> Overage_per_gb then None
               else (case (pn_cap p, pn_overage_price p) of
                       (Some cap, Some price) \<Rightarrow> overage_of cap (bs_extra bs contract a b) (bytes_used (usage_in bs c a b)) price
                     | _ \<Rightarrow> None)))"

section \<open>Add-ons\<close>

text \<open>The cents of \<open>Math.round(x * 100) / 100\<close>.\<close>

definition line_cents :: "rat \<Rightarrow> int" where
  "line_cents x = math_round (fl_mul x 100)"

text \<open>29 February falls on the 28th in a common year.\<close>

definition anniversary_day :: "nat \<Rightarrow> nat \<Rightarrow> nat" where
  "anniversary_day start year =
     (let m = day_month start mod 12; d = start - month_start (day_month start); k = 12 * year + m
      in month_start k + (if m = 1 \<and> d = 28 \<and> \<not> leap_year (1970 + year) then 27 else d))"

definition anniversary_in_period :: "nat \<Rightarrow> nat \<Rightarrow> nat \<Rightarrow> bool" where
  "anniversary_in_period start a b =
     list_ex (\<lambda>y. a \<le> anniversary_day start y \<and> anniversary_day start y \<le> b) [day_month a div 12, day_month b div 12]"

definition cycle_months :: "billing_cycle \<Rightarrow> nat" where
  "cycle_months c = (case c of Monthly \<Rightarrow> 1 | Quarterly \<Rightarrow> 3 | Semi_annual \<Rightarrow> 6 | Annual \<Rightarrow> 12)"

text \<open>Quantity, unit price and amount of the line.\<close>

definition addon_line_for_period :: "contract_addon \<Rightarrow> addon_cycle \<Rightarrow> nat \<Rightarrow> nat \<Rightarrow> nat \<Rightarrow> (int \<times> int \<times> int) option" where
  "addon_line_for_period a cyc p_start p_end months =
     (let unit_price = num_of_cents (ka_unit_price a); units = (if ka_quantity a = 0 then 1 else ka_quantity a);
          plain = (int units * 100, ka_unit_price a, line_cents (fl_mul unit_price (of_nat units)))
      in case cyc of
           Addon_yearly \<Rightarrow> if anniversary_in_period (ka_start a) p_start p_end then Some plain else None
         | Addon_one_time \<Rightarrow> Some plain
         | Addon_monthly \<Rightarrow>
             (let price = line_cents (fl_mul unit_price (of_nat (max 1 months)))
              in Some (int units * 100, price, line_cents (fl_mul (num_of_cents price) (of_nat units)))))"

definition addons_in_force :: "bill_state \<Rightarrow> nat \<Rightarrow> nat \<Rightarrow> nat \<Rightarrow> (contract_addon \<times> addon_cycle) list" where
  "addons_in_force bs contract p_start p_end =
     concat (map (\<lambda>a. if ka_contract a = contract \<and> ka_active a \<and> ka_live a \<and> ka_start a \<le> p_end \<and>
                         (case ka_end a of None \<Rightarrow> True | Some e \<Rightarrow> p_start \<le> e)
                      then map (\<lambda>k. (a, ke_cycle k)) (filter (\<lambda>k. ke_id k = ka_addon a \<and> ke_live k) (bs_catalog bs))
                      else []) (bs_addons bs))"

section \<open>Invoices\<close>

definition insert_line :: "nat \<Rightarrow> int \<Rightarrow> int \<Rightarrow> int \<Rightarrow> bill_state \<Rightarrow> bill_error + bill_state" where
  "insert_line nid q u a bs =
     (if column_fits q \<and> column_fits u \<and> column_fits a
      then Inr (bs\<lparr>bs_lines := bs_lines bs @ [\<lparr>li_invoice = nid, li_quantity = q, li_unit = u, li_amount = a\<rparr>]\<rparr>)
      else Inl (Invoice_generation_error Value_out_of_range))"

definition insert_invoice :: "bill_invoice \<Rightarrow> bill_state \<Rightarrow> bill_error + bill_state" where
  "insert_invoice v bs =
     (if \<not> (column_fits (iv_subtotal v) \<and> column_fits (iv_tax v) \<and> column_fits (iv_total v))
      then Inl (Invoice_generation_error Value_out_of_range)
      else if iv_org v \<noteq> None \<and> list_ex (\<lambda>w. iv_live w \<and> iv_org w = iv_org v \<and> iv_number w = iv_number v) (bs_invoices bs)
      then Inl (Invoice_generation_error Invoice_number_taken)
      else Inr (bs\<lparr>bs_invoices := bs_invoices bs @ [v]\<rparr>))"

definition insert_debit :: "bill_debit \<Rightarrow> bill_state \<Rightarrow> bill_error + bill_state" where
  "insert_debit d bs = Inr (bs\<lparr>bs_ledger := bs_ledger bs @ [d]\<rparr>)"

text \<open>\<open>Invoice.findById\<close> refuses to read without an organization.\<close>

definition find_invoice_of :: "bill_state \<Rightarrow> nat option \<Rightarrow> nat option \<Rightarrow> bill_error + bill_invoice option" where
  "find_invoice_of bs i org =
     (if org = None then Inl Organization_required
      else Inr (case i of None \<Rightarrow> None | Some k \<Rightarrow> find (\<lambda>v. iv_id v = k \<and> iv_live v \<and> iv_org v = org) (bs_invoices bs)))"

definition org_currency :: "bill_state \<Rightarrow> nat option \<Rightarrow> string" where
  "org_currency bs org =
     (case Option.bind org (map_of (bs_currencies bs)) of None \<Rightarrow> ''MXN'' | Some x \<Rightarrow> if x = [] then ''MXN'' else x)"

text \<open>\<open>given\<close> is the plan row a caller passes on; a partial one counts as none.\<close>

definition resolve_full_plan :: "bill_state \<Rightarrow> bill_contract \<Rightarrow> bill_plan option \<Rightarrow> nat option \<Rightarrow> bill_error + bill_plan" where
  "resolve_full_plan bs c given org =
     (case given of
        Some p \<Rightarrow> Inr p
      | None \<Rightarrow>
          (case find (\<lambda>p. pn_id p = bc_plan c \<and> pn_org p = (if org = None then bc_org c else org)) (bs_plans bs) of
             None \<Rightarrow> Inl Plan_not_found | Some p \<Rightarrow> Inr p))"

definition is_contract_in_trial :: "bill_contract \<Rightarrow> bill_plan \<Rightarrow> int \<Rightarrow> bool" where
  "is_contract_in_trial c p now \<longleftrightarrow>
     (case pn_trial_days p of
        None \<Rightarrow> False
      | Some n \<Rightarrow> n \<noteq> 0 \<and> now < int (service_start_date c + n) * ms_per_day)"

definition plan_price :: "bill_contract \<Rightarrow> bill_plan \<Rightarrow> int \<Rightarrow> int" where
  "plan_price c p now =
     (if is_contract_in_trial c p now then pn_trial_price p
      else case bc_price_override c of Some x \<Rightarrow> x | None \<Rightarrow> pn_price p)"

text \<open>The lines of the add-ons, with the running subtotal; a one-time charge expires once billed.\<close>

fun bill_addons ::
    "nat \<Rightarrow> nat \<Rightarrow> nat \<Rightarrow> nat \<Rightarrow> (contract_addon \<times> addon_cycle) list \<Rightarrow> int \<Rightarrow> bill_state \<Rightarrow> bill_error + int \<times> bill_state" where
  "bill_addons nid p_start p_end months [] running bs = Inr (running, bs)"
| "bill_addons nid p_start p_end months ((a, cyc) # rest) running bs =
     (case addon_line_for_period a cyc p_start p_end months of
        None \<Rightarrow> bill_addons nid p_start p_end months rest running bs
      | Some (q, u, amount) \<Rightarrow>
          bind_r (insert_line nid q u amount bs) (\<lambda>bs.
            bill_addons nid p_start p_end months rest (running + amount)
              (if cyc = Addon_one_time
               then bs\<lparr>bs_addons := upd_where (\<lambda>k. ka_id k = ka_id a \<and> ka_active k) (\<lambda>k. k\<lparr>ka_active := False\<rparr>) (bs_addons bs)\<rparr>
               else bs)))"

definition bill_overage :: "nat \<Rightarrow> bool \<Rightarrow> bill_plan \<Rightarrow> nat \<Rightarrow> nat \<Rightarrow> nat \<Rightarrow> int \<Rightarrow> bill_state \<Rightarrow> bill_error + int \<times> bill_state" where
  "bill_overage nid trial p contract a b running bs =
     (if \<not> trial \<and> pn_overage p = Overage_per_gb
      then (case calculate_overage_charges bs contract a b of
              None \<Rightarrow> Inr (running, bs)
            | Some x \<Rightarrow> bind_r (insert_line nid (ov_gb x) (ov_price x) (ov_amount x) bs) (\<lambda>bs. Inr (running + ov_amount x, bs)))
      else Inr (running, bs))"

definition set_totals :: "nat \<Rightarrow> int \<Rightarrow> int \<Rightarrow> int \<Rightarrow> bill_state \<Rightarrow> bill_error + bill_state" where
  "set_totals nid s t tot bs =
     (if column_fits s \<and> column_fits t \<and> column_fits tot
      then Inr (bs\<lparr>bs_invoices := upd_where (\<lambda>v. iv_id v = nid) (\<lambda>v. v\<lparr>iv_subtotal := s, iv_tax := t, iv_total := tot\<rparr>)
             (bs_invoices bs)\<rparr>)
      else Inl (Invoice_generation_error Value_out_of_range))"

text \<open>The work on a pending period, inside the transaction.\<close>

definition invoice_period ::
    "bill_period \<Rightarrow> bill_contract \<Rightarrow> bill_plan \<Rightarrow> nat option \<Rightarrow> int \<Rightarrow> nat \<Rightarrow> bill_state \<Rightarrow> bill_error + bill_state" where
  "invoice_period period c plan org now today bs =
     (let trial = is_contract_in_trial c plan now; price = plan_price c plan now;
          currency = (if pn_currency plan = [] then org_currency bs org else pn_currency plan);
          tax = resolve_tax_context (bs_tax bs) org (Some (bc_client c)) 0 None; rate = cx_rate tax;
          tot = price + tax_of price rate;
          (number, seq) = next_invoice_number (bs_seq bs) org; nid = next_id iv_id (bs_invoices bs);
          months = cycle_months (case bc_cycle c of Some k \<Rightarrow> k | None \<Rightarrow> pn_cycle plan)
      in bind_r (insert_invoice \<lparr>iv_id = nid, iv_org = org, iv_client = bc_client c, iv_contract = Some (bc_id c), iv_number = number,
             iv_subtotal = price, iv_tax = tax_of price rate, iv_total = tot, iv_currency = currency, iv_rate = rate,
             iv_rate_id = cx_rate_id tax, iv_due = bp_end period + 15, iv_issued = today, iv_live = True\<rparr> (bs\<lparr>bs_seq := seq\<rparr>)) (\<lambda>bs.
         bind_r (insert_line nid 100 price price bs) (\<lambda>bs.
         bind_r (bill_overage nid trial plan (bc_id c) (bp_start period) (bp_end period) price bs) (\<lambda>(running, bs).
         bind_r (bill_addons nid (bp_start period) (bp_end period) months
             (addons_in_force bs (bc_id c) (bp_start period) (bp_end period)) running bs) (\<lambda>(running, bs).
         bind_r (if running \<noteq> price
                 then set_totals nid running (tax_of running rate) (running + tax_of running rate) bs else Inr bs) (\<lambda>bs.
         insert_debit \<lparr>de_client = bc_client c, de_org = org,
             de_amount = (if running \<noteq> price then running + tax_of running rate else tot), de_currency = currency, de_invoice = nid\<rparr>
           (bs\<lparr>bs_periods := upd_where (\<lambda>p. bp_id p = bp_id period)
                (\<lambda>p. p\<lparr>bp_status := Period_invoiced, bp_invoice := Some nid\<rparr>) (bs_periods bs)\<rparr>)))))))"

text \<open>
  The invoice is read back after the commit, inside the same \<open>try\<close>: a refusal there is reported as a failure to make the
  invoice and does not undo the work. The result is what the call returns or throws, and the state it leaves.
\<close>

definition wrapped_fault :: "bill_error + 'a \<Rightarrow> bill_error + 'a" where
  "wrapped_fault r = (case r of Inl _ \<Rightarrow> Inl (Invoice_generation_error Organization_missing) | Inr x \<Rightarrow> Inr x)"

definition bill_and_read ::
    "bill_period \<Rightarrow> bill_contract \<Rightarrow> bill_plan \<Rightarrow> nat option \<Rightarrow> int \<Rightarrow> nat \<Rightarrow> bill_state \<Rightarrow>
      (bill_error + bill_invoice option) \<times> bill_state" where
  "bill_and_read period c plan org now today bs =
     (case invoice_period period c plan org now today bs of
        Inl e \<Rightarrow> (Inl e, bs)
      | Inr bs' \<Rightarrow> (wrapped_fault (find_invoice_of bs' (Some (next_id iv_id (bs_invoices bs))) org), bs'))"

definition generate_invoice ::
    "bill_period \<Rightarrow> bill_contract \<Rightarrow> bill_plan option \<Rightarrow> nat option \<Rightarrow> int \<Rightarrow> nat \<Rightarrow> bill_state \<Rightarrow>
      (bill_error + bill_invoice option) \<times> bill_state" where
  "generate_invoice period c given org now today bs =
     (case resolve_full_plan bs c given org of
        Inl e \<Rightarrow> (Inl e, bs)
      | Inr plan \<Rightarrow>
          (case find (\<lambda>p. bp_id p = bp_id period) (bs_periods bs) of
             None \<Rightarrow> bill_and_read period c plan org now today bs
           | Some locked \<Rightarrow>
               if bp_status locked \<noteq> Period_pending then (find_invoice_of bs (bp_invoice locked) org, bs)
               else bill_and_read period c plan org now today bs))"

definition one_off_invoice ::
    "nat option \<Rightarrow> nat \<Rightarrow> nat option \<Rightarrow> int \<Rightarrow> string option \<Rightarrow> int \<Rightarrow> nat \<Rightarrow> bill_state \<Rightarrow> bill_error + bill_state" where
  "one_off_invoice org client contract amount given now today bs =
     (let currency = (case given of None \<Rightarrow> org_currency bs org | Some x \<Rightarrow> if x = [] then org_currency bs org else x);
          tax = resolve_tax_context (bs_tax bs) org (Some client) 0 None; rate = cx_rate tax;
          tot = amount + tax_of amount rate;
          (number, seq) = next_invoice_number (bs_seq bs) org; nid = next_id iv_id (bs_invoices bs)
      in bind_r (insert_invoice \<lparr>iv_id = nid, iv_org = org, iv_client = client, iv_contract = contract, iv_number = number,
             iv_subtotal = amount, iv_tax = tax_of amount rate, iv_total = tot, iv_currency = currency, iv_rate = rate,
             iv_rate_id = cx_rate_id tax, iv_due = utc_day now + 15, iv_issued = today, iv_live = True\<rparr> (bs\<lparr>bs_seq := seq\<rparr>)) (\<lambda>bs.
         bind_r (insert_line nid 100 amount amount bs) (\<lambda>bs.
         insert_debit \<lparr>de_client = client, de_org = org, de_amount = tot, de_currency = currency, de_invoice = nid\<rparr> bs)))"

text \<open>\<open>joins\<close>: the caller passed its own connection, which reads the row back without a scope.\<close>

definition create_one_off_invoice ::
    "bool \<Rightarrow> nat option \<Rightarrow> nat \<Rightarrow> nat option \<Rightarrow> int \<Rightarrow> string option \<Rightarrow> int \<Rightarrow> nat \<Rightarrow> bill_state \<Rightarrow>
      (bill_error + bill_invoice option) \<times> bill_state" where
  "create_one_off_invoice joins org client contract amount given now today bs =
     (case one_off_invoice org client contract amount given now today bs of
        Inl e \<Rightarrow> (Inl e, bs)
      | Inr bs' \<Rightarrow>
          (let nid = next_id iv_id (bs_invoices bs) in
           (if joins then Inr (find (\<lambda>v. iv_id v = nid) (bs_invoices bs')) else wrapped_fault (find_invoice_of bs' (Some nid) org), bs')))"

end
