(* ===== verification/Invoice_Safety.thy ===== *)
theory Invoice_Safety
  imports Invoicing
begin

text \<open>
  What the books are worth: an invoice is the sum of its lines with the tax on it and is debited once for exactly that,
  a day of a contract is billed at most once, numbers are never handed out twice, and a one-time charge is billed once.
\<close>

section \<open>One invoice\<close>

lemma upd_where_append: "upd_where P f (xs @ ys) = upd_where P f xs @ upd_where P f ys"
  by (simp add: upd_where_def)

lemma upd_where_none: "\<forall>r\<in>set rows. \<not> P r \<Longrightarrow> upd_where P f rows = rows"
  by (simp add: upd_where_def map_idI)

definition line_sum :: "bill_line list \<Rightarrow> int" where
  "line_sum ls = sum_list (map li_amount ls)"

lemma line_sum_simps [simp]:
  "line_sum [] = 0" "line_sum (l # ls) = li_amount l + line_sum ls" "line_sum (ls @ ms) = line_sum ls + line_sum ms"
  by (simp_all add: line_sum_def)

text \<open>The values of a row are those its columns hold.\<close>

definition line_fits :: "bill_line \<Rightarrow> bool" where
  "line_fits l \<longleftrightarrow> column_fits (li_quantity l) \<and> column_fits (li_unit l) \<and> column_fits (li_amount l)"

definition invoice_fits :: "bill_invoice \<Rightarrow> bool" where
  "invoice_fits v \<longleftrightarrow> column_fits (iv_subtotal v) \<and> column_fits (iv_tax v) \<and> column_fits (iv_total v)"

text \<open>What billing the lines of an invoice may change.\<close>

definition lines_added :: "nat \<Rightarrow> int \<Rightarrow> int \<Rightarrow> bill_state \<Rightarrow> bill_state \<Rightarrow> bool" where
  "lines_added nid before after bs bs' \<longleftrightarrow>
     (\<exists>ls ads. bs' = bs\<lparr>bs_lines := bs_lines bs @ ls, bs_addons := ads\<rparr> \<and> (\<forall>l\<in>set ls. li_invoice l = nid \<and> line_fits l) \<and>
        after = before + line_sum ls)"

lemma lines_added_refl: "lines_added nid k k bs bs"
  unfolding lines_added_def by (rule exI [of _ "[]"], rule exI [of _ "bs_addons bs"]) simp

lemma lines_added_trans:
  assumes "lines_added nid i j bs bs'" and "lines_added nid j k bs' bs''"
  shows "lines_added nid i k bs bs''"
proof -
  obtain ls ads where 1: "bs' = bs\<lparr>bs_lines := bs_lines bs @ ls, bs_addons := ads\<rparr>" "\<forall>l\<in>set ls. li_invoice l = nid \<and> line_fits l"
    "j = i + line_sum ls" using assms(1) by (auto simp: lines_added_def)
  obtain ms ads' where 2: "bs'' = bs'\<lparr>bs_lines := bs_lines bs' @ ms, bs_addons := ads'\<rparr>" "\<forall>l\<in>set ms. li_invoice l = nid \<and> line_fits l"
    "k = j + line_sum ms" using assms(2) by (auto simp: lines_added_def)
  show ?thesis
    unfolding lines_added_def by (rule exI [of _ "ls @ ms"], rule exI [of _ ads']) (use 1 2 in auto)
qed

lemma insert_line_added: "insert_line nid q u a bs = Inr bs' \<Longrightarrow> lines_added nid k (k + a) bs bs'"
  unfolding lines_added_def insert_line_def
  by (rule exI [of _ "[\<lparr>li_invoice = nid, li_quantity = q, li_unit = u, li_amount = a\<rparr>]"], rule exI [of _ "bs_addons bs"])
    (auto simp: line_fits_def split: if_splits)

lemma set_addons_added: "lines_added nid k k bs (bs\<lparr>bs_addons := ads\<rparr>)"
  unfolding lines_added_def by (rule exI [of _ "[]"], rule exI [of _ ads]) simp

lemma bill_addons_added:
  "bill_addons nid s e m xs k bs = Inr (k', bs') \<Longrightarrow> lines_added nid k k' bs bs'"
proof (induction xs arbitrary: k bs)
  case Nil
  then show ?case by (simp add: lines_added_refl)
next
  case (Cons x rest)
  obtain a cyc where x: "x = (a, cyc)" by (cases x)
  show ?case
  proof (cases "addon_line_for_period a cyc s e m")
    case None
    with Cons show ?thesis by (simp add: x)
  next
    case (Some v)
    obtain q u am where v: "v = (q, u, am)" by (cases v)
    from Cons.prems Some obtain b1 where b1: "insert_line nid q u am bs = Inr b1" by (auto simp: x v bind_r_Inr_conv)
    let ?b2 = "if cyc = Addon_one_time
        then b1\<lparr>bs_addons := upd_where (\<lambda>k. ka_id k = ka_id a \<and> ka_active k) (\<lambda>k. k\<lparr>ka_active := False\<rparr>) (bs_addons b1)\<rparr> else b1"
    have "bill_addons nid s e m rest (k + am) ?b2 = Inr (k', bs')"
      using Cons.prems unfolding x bill_addons.simps Some option.case v prod.case b1 bind_r_simps .
    from Cons.IH [OF this] have "lines_added nid (k + am) k' ?b2 bs'" .
    moreover have "lines_added nid (k + am) (k + am) b1 ?b2" by (simp add: lines_added_refl set_addons_added)
    ultimately show ?thesis using insert_line_added [OF b1] lines_added_trans by blast
  qed
qed

lemma bill_overage_added: "bill_overage nid tr p c s e k bs = Inr (k', bs') \<Longrightarrow> lines_added nid k k' bs bs'"
  by (auto simp: bill_overage_def bind_r_Inr_conv lines_added_refl intro: insert_line_added split: if_splits option.splits)

lemma bill_overage_catalog:
  "bill_overage nid tr p c s e k bs = Inr (k', bs') \<Longrightarrow> bs_addons bs' = bs_addons bs \<and> bs_catalog bs' = bs_catalog bs"
  by (auto simp: bill_overage_def bind_r_Inr_conv insert_line_def split: if_splits option.splits)

text \<open>What the work on a period leaves: one new invoice with its lines, one debit, and the period marked.\<close>

definition billed ::
    "nat option \<Rightarrow> string \<Rightarrow> (nat \<Rightarrow> nat option) \<Rightarrow> (bill_period \<Rightarrow> bool) \<Rightarrow> bill_state \<Rightarrow> bill_state \<Rightarrow> bill_invoice \<Rightarrow> bool" where
  "billed org number seq P bs bs' v \<longleftrightarrow>
     (\<exists>ls ads d. bs' = bs\<lparr>bs_seq := seq, bs_invoices := bs_invoices bs @ [v], bs_lines := bs_lines bs @ ls, bs_addons := ads,
        bs_periods := upd_where P (\<lambda>p. p\<lparr>bp_status := Period_invoiced, bp_invoice := Some (iv_id v)\<rparr>) (bs_periods bs),
        bs_ledger := bs_ledger bs @ [d]\<rparr> \<and>
      (\<forall>l\<in>set ls. li_invoice l = iv_id v \<and> line_fits l) \<and> invoice_fits v \<and> iv_subtotal v = line_sum ls \<and> iv_tax v = tax_of (iv_subtotal v) (iv_rate v) \<and>
      iv_total v = iv_subtotal v + iv_tax v \<and> de_amount d = iv_total v \<and> de_invoice d = iv_id v \<and> de_org d = org \<and>
      de_client d = iv_client v) \<and>
     iv_id v = next_id iv_id (bs_invoices bs) \<and> iv_org v = org \<and> iv_number v = number \<and> iv_live v"

lemma set_totals_last:
  assumes "set_totals nid s t u bs = Inr bs'" and "bs_invoices bs = vs @ [v]" and "\<forall>w\<in>set vs. iv_id w \<noteq> nid" and "iv_id v = nid"
  shows "bs' = bs\<lparr>bs_invoices := vs @ [v\<lparr>iv_subtotal := s, iv_tax := t, iv_total := u\<rparr>]\<rparr> \<and>
    column_fits s \<and> column_fits t \<and> column_fits u"
proof -
  have "upd_where (\<lambda>w. iv_id w = nid) f vs = vs" for f using assms(3) by (intro upd_where_none) simp
  then show ?thesis
    using assms by (auto simp: set_totals_def upd_where_append upd_where_def split: if_splits)
qed

lemma insert_invoice_Inr:
  "insert_invoice v bs = Inr bs' \<Longrightarrow> bs' = bs\<lparr>bs_invoices := bs_invoices bs @ [v]\<rparr> \<and>
     invoice_fits v"
  by (simp add: insert_invoice_def invoice_fits_def split: if_splits)

lemma fresh_invoice: "\<forall>w\<in>set (bs_invoices bs). iv_id w \<noteq> next_id iv_id (bs_invoices bs)"
  using next_id_fresh [of _ "bs_invoices bs" iv_id] by (metis less_irrefl)

lemma invoice_period_billed:
  assumes "invoice_period period c plan org now today bs = Inr bs'"
  shows "\<exists>v number seq. next_invoice_number (bs_seq bs) org = (number, seq) \<and>
    billed org number seq (\<lambda>p. bp_id p = bp_id period) bs bs' v \<and> iv_contract v = Some (bc_id c) \<and> iv_client v = bc_client c \<and>
    \<lparr>li_invoice = iv_id v, li_quantity = 100, li_unit = plan_price c plan now, li_amount = plan_price c plan now\<rparr>
      \<in> set (bs_lines bs') \<and>
    (\<exists>months k3 b3 k4 b4. bs_addons b3 = bs_addons bs \<and> bs_addons b4 = bs_addons bs' \<and> bs_lines b4 = bs_lines bs' \<and>
       bill_addons (iv_id v) (bp_start period) (bp_end period) months
         (addons_in_force bs (bc_id c) (bp_start period) (bp_end period)) k3 b3 = Inr (k4, b4))"
proof -
  define tax where "tax = resolve_tax_context (bs_tax bs) org (Some (bc_client c)) 0 None"
  define price where "price = plan_price c plan now"
  define nid where "nid = next_id iv_id (bs_invoices bs)"
  obtain number seq where ns: "next_invoice_number (bs_seq bs) org = (number, seq)" by force
  note w = assms [unfolded invoice_period_def Let_def ns prod.case tax_def [symmetric] price_def [symmetric] nid_def [symmetric]]
  define v where "v = \<lparr>iv_id = nid, iv_org = org, iv_client = bc_client c, iv_contract = Some (bc_id c), iv_number = number,
             iv_subtotal = price, iv_tax = tax_of price (cx_rate tax), iv_total = price + tax_of price (cx_rate tax),
             iv_currency = (if pn_currency plan = [] then org_currency bs org else pn_currency plan), iv_rate = cx_rate tax,
             iv_rate_id = cx_rate_id tax, iv_due = bp_end period + 15, iv_issued = today, iv_live = True\<rparr>"
  note w1 = w [folded v_def, unfolded bind_r_Inr_conv split_paired_Ex prod.case insert_debit_def sum.inject]
  obtain b1 b2 k3 b3 k4 b4 b5 where
      vb: "insert_invoice v (bs\<lparr>bs_seq := seq\<rparr>) = Inr b1"
    and b2: "insert_line nid 100 price price b1 = Inr b2"
    and b3: "bill_overage nid (is_contract_in_trial c plan now) plan (bc_id c) (bp_start period) (bp_end period) price b2 = Inr (k3, b3)"
    and b4: "bill_addons nid (bp_start period) (bp_end period) (cycle_months (case bc_cycle c of Some k \<Rightarrow> k | None \<Rightarrow> pn_cycle plan))
        (addons_in_force b3 (bc_id c) (bp_start period) (bp_end period)) k3 b3 = Inr (k4, b4)"
    and b5: "(if k4 \<noteq> price then set_totals nid k4 (tax_of k4 (cx_rate tax)) (k4 + tax_of k4 (cx_rate tax)) b4 else Inr b4) = Inr b5"
    and bs': "b5\<lparr>bs_periods := upd_where (\<lambda>p. bp_id p = bp_id period)
                (\<lambda>p. p\<lparr>bp_status := Period_invoiced, bp_invoice := Some nid\<rparr>) (bs_periods b5),
               bs_ledger := bs_ledger (b5\<lparr>bs_periods := upd_where (\<lambda>p. bp_id p = bp_id period)
                (\<lambda>p. p\<lparr>bp_status := Period_invoiced, bp_invoice := Some nid\<rparr>) (bs_periods b5)\<rparr>) @ [\<lparr>de_client = bc_client c, de_org = org,
                 de_amount = (if k4 \<noteq> price then k4 + tax_of k4 (cx_rate tax) else price + tax_of price (cx_rate tax)),
                 de_currency = (if pn_currency plan = [] then org_currency bs org else pn_currency plan), de_invoice = nid\<rparr>]\<rparr> = bs'"
    using w1 by (elim exE conjE) (rule that)
  have v: "iv_id v = nid" "iv_org v = org" "iv_number v = number"
      "iv_subtotal v = price" "iv_tax v = tax_of price (cx_rate tax)" "iv_total v = price + tax_of price (cx_rate tax)"
      "iv_rate v = cx_rate tax" "iv_live v" "iv_contract v = Some (bc_id c)" "iv_client v = bc_client c"
    by (simp_all add: v_def)
  have b1: "b1 = bs\<lparr>bs_seq := seq, bs_invoices := bs_invoices bs @ [v]\<rparr>" using insert_invoice_Inr [OF vb] by simp
  have "lines_added nid 0 price b1 b2" using insert_line_added [OF b2, of 0] by simp
  from lines_added_trans [OF lines_added_trans [OF this bill_overage_added [OF b3]] bill_addons_added [OF b4]]
  obtain ls ads where ls: "b4 = b1\<lparr>bs_lines := bs_lines b1 @ ls, bs_addons := ads\<rparr>" "\<forall>l\<in>set ls. li_invoice l = nid \<and> line_fits l"
      "k4 = line_sum ls" by (auto simp: lines_added_def)
  define v' where "v' = v\<lparr>iv_subtotal := k4, iv_tax := tax_of k4 (cx_rate tax), iv_total := k4 + tax_of k4 (cx_rate tax)\<rparr>"
  have b5': "b5 = b4\<lparr>bs_invoices := bs_invoices bs @ [v']\<rparr> \<and> invoice_fits v'"
  proof (cases "k4 = price")
    case True
    then have "v' = v" using v(4-6) by (simp add: v'_def)
    moreover have "b5 = b4" using b5 True by simp
    ultimately show ?thesis using insert_invoice_Inr [OF vb] by (simp add: ls(1) b1)
  next
    case False
    have "bs_invoices b4 = bs_invoices bs @ [v]" by (simp add: ls(1) b1)
    from set_totals_last [OF _ this fresh_invoice [of bs, folded nid_def] v(1)] b5 False show ?thesis by (simp add: v'_def invoice_fits_def)
  qed
  have amt: "(if k4 \<noteq> price then k4 + tax_of k4 (cx_rate tax) else price + tax_of price (cx_rate tax)) = iv_total v'"
    by (simp add: v'_def)
  define d where "d = \<lparr>de_client = bc_client c, de_org = org, de_amount = iv_total v',
      de_currency = (if pn_currency plan = [] then org_currency bs org else pn_currency plan), de_invoice = nid\<rparr>"
  have id: "iv_id v' = nid" "iv_client v' = bc_client c" "iv_rate v' = cx_rate tax" using v by (simp_all add: v'_def)
  have eq: "bs' = bs\<lparr>bs_seq := seq, bs_invoices := bs_invoices bs @ [v'], bs_lines := bs_lines bs @ ls, bs_addons := ads,
        bs_periods := upd_where (\<lambda>p. bp_id p = bp_id period)
          (\<lambda>p. p\<lparr>bp_status := Period_invoiced, bp_invoice := Some (iv_id v')\<rparr>) (bs_periods bs), bs_ledger := bs_ledger bs @ [d]\<rparr>"
    unfolding bs' [symmetric] amt d_def [symmetric] conjunct1 [OF b5'] ls(1) b1 id(1) by simp
  have sums: "iv_subtotal v' = line_sum ls" "iv_tax v' = tax_of (iv_subtotal v') (iv_rate v')" "iv_total v' = iv_subtotal v' + iv_tax v'"
    using ls(3) id(3) by (simp_all add: v'_def)
  have deb: "de_amount d = iv_total v'" "de_invoice d = iv_id v'" "de_org d = org" "de_client d = iv_client v'"
    using id by (simp_all add: d_def)
  have "iv_id v' = next_id iv_id (bs_invoices bs)" "iv_org v' = org" "iv_number v' = number" "iv_live v'"
    using v by (simp_all add: v'_def nid_def)
  with eq sums deb ls(2) conjunct2 [OF b5'] have "billed org number seq (\<lambda>p. bp_id p = bp_id period) bs bs' v'"
    unfolding billed_def id(1) [symmetric] by blast
  moreover have b2': "bs_addons b2 = bs_addons bs" "bs_catalog b2 = bs_catalog bs"
      "\<lparr>li_invoice = nid, li_quantity = 100, li_unit = price, li_amount = price\<rparr> \<in> set (bs_lines b2)"
    using b2 by (auto simp: insert_line_def b1 split: if_splits)
  moreover have "set (bs_lines b2) \<subseteq> set (bs_lines bs')"
    using lines_added_trans [OF bill_overage_added [OF b3] bill_addons_added [OF b4]]
    unfolding bs' [symmetric] conjunct1 [OF b5'] by (auto simp: lines_added_def)
  moreover have "addons_in_force b3 = addons_in_force bs"
    by (intro ext) (simp only: addons_in_force_def bill_overage_catalog [OF b3] b2')
  moreover have "bs_addons b3 = bs_addons bs" using bill_overage_catalog [OF b3] b2' by simp
  moreover have "bs_addons b4 = bs_addons bs'" "bs_lines b4 = bs_lines bs'" unfolding bs' [symmetric] conjunct1 [OF b5'] by simp_all
  moreover have "iv_contract v' = Some (bc_id c)" using v(9) by (simp add: v'_def)
  ultimately show ?thesis using ns id b4 unfolding price_def [symmetric]
    by (intro exI [of _ v'] exI [of _ number] exI [of _ seq] conjI exI [of _ b3] exI [of _ b4] exI [of _ k3] exI [of _ k4]) 
      (simp_all only: subset_iff, (rule exI)+, simp_all)
qed

lemma one_off_billed:
  assumes "one_off_invoice org client contract amount given now today bs = Inr bs'"
  shows "\<exists>v number seq. next_invoice_number (bs_seq bs) org = (number, seq) \<and> billed org number seq (\<lambda>p. False) bs bs' v \<and>
    iv_contract v = contract \<and> iv_client v = client"
proof -
  define rate where "rate = cx_rate (resolve_tax_context (bs_tax bs) org (Some client) 0 None)"
  define nid where "nid = next_id iv_id (bs_invoices bs)"
  obtain number seq where ns: "next_invoice_number (bs_seq bs) org = (number, seq)" by force
  note w = assms [unfolded one_off_invoice_def Let_def ns prod.case rate_def [symmetric] nid_def [symmetric]
      bind_r_Inr_conv split_paired_Ex insert_debit_def sum.inject prod.inject]
  define currency where
    "currency = (case given of None \<Rightarrow> org_currency bs org | Some x \<Rightarrow> if x = [] then org_currency bs org else x)"
  define v where "v = \<lparr>iv_id = nid, iv_org = org, iv_client = client, iv_contract = contract, iv_number = number,
             iv_subtotal = amount, iv_tax = tax_of amount rate, iv_total = amount + tax_of amount rate, iv_currency = currency,
             iv_rate = rate, iv_rate_id = cx_rate_id (resolve_tax_context (bs_tax bs) org (Some client) 0 None),
             iv_due = utc_day now + 15, iv_issued = today, iv_live = True\<rparr>"
  define d where "d = \<lparr>de_client = client, de_org = org, de_amount = amount + tax_of amount rate, de_currency = currency,
             de_invoice = nid\<rparr>"
  from w [folded currency_def, folded v_def d_def] obtain b1 b2 where vb: "insert_invoice v (bs\<lparr>bs_seq := seq\<rparr>) = Inr b1"
    and b2: "insert_line nid 100 amount amount b1 = Inr b2" and bs': "bs' = b2\<lparr>bs_ledger := bs_ledger b2 @ [d]\<rparr>"
    by blast
  have v: "iv_id v = nid" "iv_org v = org" "iv_number v = number" "iv_subtotal v = amount" "iv_tax v = tax_of amount rate"
      "iv_total v = amount + tax_of amount rate" "iv_rate v = rate" "iv_live v" "iv_contract v = contract" "iv_client v = client"
    and d: "de_amount d = iv_total v" "de_invoice d = nid" "de_org d = org" "de_client d = client"
    by (simp_all add: v_def d_def)
  have b1: "b1 = bs\<lparr>bs_seq := seq, bs_invoices := bs_invoices bs @ [v]\<rparr>" using insert_invoice_Inr [OF vb] by simp
  from insert_line_added [OF b2, of 0]
  obtain ls ads where ls: "b2 = b1\<lparr>bs_lines := bs_lines b1 @ ls, bs_addons := ads\<rparr>" "\<forall>l\<in>set ls. li_invoice l = nid \<and> line_fits l"
      "amount = line_sum ls" by (auto simp: lines_added_def)
  have none: "upd_where (\<lambda>p. False) f rows = rows" for f :: "bill_period \<Rightarrow> bill_period" and rows by (simp add: upd_where_def)
  have "billed org number seq (\<lambda>p. False) bs bs' v"
    unfolding billed_def none bs' ls(1) b1 using ls(2,3) v d insert_invoice_Inr [OF vb]
    by (intro conjI exI [of _ ls] exI [of _ ads] exI [of _ d]) (auto simp: nid_def)
  with ns v(9,10) show ?thesis by auto
qed

section \<open>Numbers\<close>

lemma digits_val_pad: "digits_val (pad_start n s) = digits_val s"
  by (simp add: pad_start_def digits_val_leading)

definition number_text :: "nat \<Rightarrow> string" where
  "number_text n = ''INV-'' @ pad_start 6 (show_nat n)"

lemma number_text_inj: "number_text m = number_text n \<Longrightarrow> m = n"
proof -
  assume "number_text m = number_text n"
  then have "digits_val (pad_start 6 (show_nat m)) = digits_val (pad_start 6 (show_nat n))" by (simp add: number_text_def)
  then show ?thesis by (simp add: digits_val_pad)
qed

definition seq_key :: "nat option \<Rightarrow> nat" where
  "seq_key org = (case org of None \<Rightarrow> 0 | Some n \<Rightarrow> n)"

lemma next_invoice_number_eq:
  "next_invoice_number seq org =
     (number_text (case seq (seq_key org) of None \<Rightarrow> 1 | Some n \<Rightarrow> n),
      seq(seq_key org \<mapsto> (case seq (seq_key org) of None \<Rightarrow> 1 | Some n \<Rightarrow> n) + 1))"
  by (simp add: next_invoice_number_def next_sequence_number_def Let_def number_text_def seq_key_def)

section \<open>The books\<close>

definition lines_of :: "bill_state \<Rightarrow> nat \<Rightarrow> bill_line list" where
  "lines_of bs i = filter (\<lambda>l. li_invoice l = i) (bs_lines bs)"

definition debits_of :: "bill_state \<Rightarrow> nat \<Rightarrow> int list" where
  "debits_of bs i = map de_amount (filter (\<lambda>d. de_invoice d = i) (bs_ledger bs))"

text \<open>The invoice is the sum of its lines and the tax on them, and the client owes exactly that.\<close>

definition invoice_sound :: "bill_state \<Rightarrow> bill_invoice \<Rightarrow> bool" where
  "invoice_sound bs v \<longleftrightarrow>
     iv_subtotal v = line_sum (lines_of bs (iv_id v)) \<and> iv_tax v = tax_of (iv_subtotal v) (iv_rate v) \<and>
     iv_total v = iv_subtotal v + iv_tax v \<and> debits_of bs (iv_id v) = [iv_total v]"

definition number_given :: "bill_state \<Rightarrow> bill_invoice \<Rightarrow> bool" where
  "number_given bs v \<longleftrightarrow>
     (\<exists>n m. iv_number v = number_text n \<and> bs_seq bs (seq_key (iv_org v)) = Some m \<and> n < m)"

text \<open>The periods of a contract follow each other without a gap, and only the last may be pending.\<close>

fun chained :: "bill_period list \<Rightarrow> bool" where
  "chained [] = True"
| "chained [p] = (bp_start p \<le> bp_end p \<and> bp_status p \<noteq> Period_skipped)"
| "chained (p # q # ps) \<longleftrightarrow>
     bp_start p \<le> bp_end p \<and> bp_status p = Period_invoiced \<and> bp_start q = bp_end p + 1 \<and> chained (q # ps)"

definition periods_of :: "bill_state \<Rightarrow> nat \<Rightarrow> bill_period list" where
  "periods_of bs k = filter (\<lambda>p. bp_contract p = k) (bs_periods bs)"

definition books_ok :: "bill_state \<Rightarrow> bool" where
  "books_ok bs \<longleftrightarrow>
     (\<forall>v\<in>set (bs_invoices bs). invoice_sound bs v \<and> number_given bs v) \<and>
     distinct (map iv_id (bs_invoices bs)) \<and>
     (\<forall>v\<in>set (bs_invoices bs). \<forall>w\<in>set (bs_invoices bs).
        seq_key (iv_org v) = seq_key (iv_org w) \<and> iv_number v = iv_number w \<longrightarrow> iv_id v = iv_id w) \<and>
     li_invoice ` set (bs_lines bs) \<subseteq> iv_id ` set (bs_invoices bs) \<and>
     de_invoice ` set (bs_ledger bs) \<subseteq> iv_id ` set (bs_invoices bs) \<and>
     (\<forall>v\<in>set (bs_invoices bs). invoice_fits v) \<and> (\<forall>l\<in>set (bs_lines bs). line_fits l)"

definition periods_ok :: "bill_state \<Rightarrow> bool" where
  "periods_ok bs \<longleftrightarrow>
     distinct (map bp_id (bs_periods bs)) \<and> (\<forall>k. chained (periods_of bs k)) \<and>
     (\<forall>p\<in>set (bs_periods bs). (bp_status p = Period_invoiced \<longleftrightarrow> bp_invoice p \<noteq> None)) \<and>
     (\<forall>p\<in>set (bs_periods bs). \<forall>i. bp_invoice p = Some i \<longrightarrow> i \<in> iv_id ` set (bs_invoices bs)) \<and>
     (\<forall>p\<in>set (bs_periods bs). \<forall>q\<in>set (bs_periods bs). bp_invoice p \<noteq> None \<and> bp_invoice p = bp_invoice q \<longrightarrow> bp_id p = bp_id q)"

lemma books_okD:
  assumes "books_ok bs"
  shows "v \<in> set (bs_invoices bs) \<Longrightarrow> invoice_sound bs v" and "v \<in> set (bs_invoices bs) \<Longrightarrow> number_given bs v"
    and "l \<in> set (bs_lines bs) \<Longrightarrow> li_invoice l \<in> iv_id ` set (bs_invoices bs)"
    and "d \<in> set (bs_ledger bs) \<Longrightarrow> de_invoice d \<in> iv_id ` set (bs_invoices bs)"
    and "distinct (map iv_id (bs_invoices bs))"
    and "v \<in> set (bs_invoices bs) \<Longrightarrow> w \<in> set (bs_invoices bs) \<Longrightarrow> seq_key (iv_org v) = seq_key (iv_org w) \<Longrightarrow>
      iv_number v = iv_number w \<Longrightarrow> iv_id v = iv_id w"
    and "v \<in> set (bs_invoices bs) \<Longrightarrow> invoice_fits v" and "l \<in> set (bs_lines bs) \<Longrightarrow> line_fits l"
  using assms unfolding books_ok_def by blast+

lemma periods_okD:
  assumes "periods_ok bs"
  shows "distinct (map bp_id (bs_periods bs))" and "chained (periods_of bs k)"
    and "p \<in> set (bs_periods bs) \<Longrightarrow> bp_status p = Period_invoiced \<longleftrightarrow> bp_invoice p \<noteq> None"
    and "p \<in> set (bs_periods bs) \<Longrightarrow> bp_invoice p = Some i \<Longrightarrow> i \<in> iv_id ` set (bs_invoices bs)"
    and "p \<in> set (bs_periods bs) \<Longrightarrow> q \<in> set (bs_periods bs) \<Longrightarrow> bp_invoice p \<noteq> None \<Longrightarrow> bp_invoice p = bp_invoice q \<Longrightarrow>
      bp_id p = bp_id q"
  using assms unfolding periods_ok_def by blast+

lemma billed_number:
  assumes ok: "books_ok bs" and b: "billed org number seq P bs bs' v"
    and ns: "next_invoice_number (bs_seq bs) org = (number, seq)" and w: "w \<in> set (bs_invoices bs)"
  shows "number_given (bs'\<lparr>bs_seq := seq\<rparr>) w \<and> (seq_key (iv_org w) = seq_key org \<longrightarrow> iv_number w \<noteq> number)"
proof -
  define n where "n = (case bs_seq bs (seq_key org) of None \<Rightarrow> 1 | Some n \<Rightarrow> n)"
  have num: "number = number_text n" and seq: "seq = (bs_seq bs)(seq_key org \<mapsto> n + 1)"
    using ns by (simp_all add: next_invoice_number_eq n_def)
  obtain k m where k: "iv_number w = number_text k" "bs_seq bs (seq_key (iv_org w)) = Some m" "k < m"
    using books_okD(2) [OF ok w] by (auto simp: number_given_def)
  have "number_given (bs'\<lparr>bs_seq := seq\<rparr>) w"
  proof (cases "seq_key (iv_org w) = seq_key org")
    case True
    with k have "n = m" by (simp add: n_def)
    with True k show ?thesis unfolding number_given_def seq by (intro exI [of _ k] exI [of _ "m + 1"]) simp
  next
    case False
    with k show ?thesis unfolding number_given_def seq by (intro exI [of _ k] exI [of _ m]) simp
  qed
  moreover have "iv_number w \<noteq> number" if "seq_key (iv_org w) = seq_key org"
  proof -
    from that k have "k < n" by (simp add: n_def)
    then show ?thesis using k(1) num number_text_inj by auto
  qed
  ultimately show ?thesis by blast
qed

lemma billed_keeps_books:
  assumes ok: "books_ok bs" and b: "billed org number seq P bs bs' v" and ns: "next_invoice_number (bs_seq bs) org = (number, seq)"
  shows "books_ok bs'"
proof -
  obtain ls ads d where bs': "bs' = bs\<lparr>bs_seq := seq, bs_invoices := bs_invoices bs @ [v], bs_lines := bs_lines bs @ ls,
        bs_addons := ads,
        bs_periods := upd_where P (\<lambda>p. p\<lparr>bp_status := Period_invoiced, bp_invoice := Some (iv_id v)\<rparr>) (bs_periods bs),
        bs_ledger := bs_ledger bs @ [d]\<rparr>"
    and ls: "\<forall>l\<in>set ls. li_invoice l = iv_id v" "iv_subtotal v = line_sum ls" "\<forall>l\<in>set ls. line_fits l" "invoice_fits v" and tax: "iv_tax v = tax_of (iv_subtotal v) (iv_rate v)"
    and tot: "iv_total v = iv_subtotal v + iv_tax v" and d: "de_amount d = iv_total v" "de_invoice d = iv_id v"
    and v: "iv_id v = next_id iv_id (bs_invoices bs)" "iv_org v = org" "iv_number v = number"
    using b by (auto simp: billed_def)
  let ?V = "set (bs_invoices bs)"
  have refs: "\<forall>l\<in>set (bs_lines bs). li_invoice l \<in> iv_id ` ?V" "\<forall>e\<in>set (bs_ledger bs). de_invoice e \<in> iv_id ` ?V"
    using books_okD(3,4) [OF ok] by blast+
  have fresh: "iv_id v \<notin> iv_id ` ?V" using fresh_invoice [of bs] v(1) by auto
  have other: "\<forall>l\<in>set (bs_lines bs). li_invoice l \<noteq> iv_id v" "\<forall>e\<in>set (bs_ledger bs). de_invoice e \<noteq> iv_id v"
    using refs fresh by metis+
  have lines: "lines_of bs' (iv_id v) = ls" "i \<noteq> iv_id v \<Longrightarrow> lines_of bs' i = lines_of bs i" for i
    using other(1) ls(1) by (auto simp: lines_of_def bs' filter_empty_conv)
  have debits: "debits_of bs' (iv_id v) = [iv_total v]" "i \<noteq> iv_id v \<Longrightarrow> debits_of bs' i = debits_of bs i" for i
    using other(2) d by (auto simp: debits_of_def bs' filter_empty_conv)
  have old: "invoice_sound bs' w" if "w \<in> ?V" for w
  proof -
    have "iv_id w \<noteq> iv_id v" using that fresh by (metis image_eqI)
    with lines(2) debits(2) books_okD(1) [OF ok that] show ?thesis by (simp add: invoice_sound_def)
  qed
  have new: "invoice_sound bs' v" using lines(1) debits(1) ls(2) tax tot by (simp add: invoice_sound_def)
  have seq: "bs_seq bs' = seq" by (simp add: bs')
  then have "bs'\<lparr>bs_seq := seq\<rparr> = bs'" by simp
  with billed_number [OF ok b ns]
  have given: "number_given bs' w" "seq_key (iv_org w) = seq_key org \<Longrightarrow> iv_number w \<noteq> number" if "w \<in> ?V" for w
    using that by auto
  have "number_given bs' v"
    using ns by (auto simp: number_given_def seq v next_invoice_number_eq)
  have inv: "bs_invoices bs' = bs_invoices bs @ [v]" "bs_lines bs' = bs_lines bs @ ls" "bs_ledger bs' = bs_ledger bs @ [d]"
    by (simp_all add: bs')
  have "iv_id x = iv_id y"
    if "x \<in> set (bs_invoices bs')" "y \<in> set (bs_invoices bs')" "seq_key (iv_org x) = seq_key (iv_org y)" "iv_number x = iv_number y" for x y
  proof -
    have "x \<in> ?V \<or> x = v" "y \<in> ?V \<or> y = v" using that(1,2) by (auto simp: inv)
    then show ?thesis using that(3,4) given(2) books_okD(6) [OF ok, of x y] v(2,3) by metis
  qed
  moreover have "distinct (map iv_id (bs_invoices bs'))" using books_okD(5) [OF ok] fresh by (simp add: inv)
  moreover have "li_invoice ` set (bs_lines bs') \<subseteq> iv_id ` set (bs_invoices bs')" using refs(1) ls(1) by (auto simp: inv)
  moreover have "de_invoice ` set (bs_ledger bs') \<subseteq> iv_id ` set (bs_invoices bs')" using refs(2) d(2) by (auto simp: inv)
  moreover have "\<forall>x\<in>set (bs_invoices bs'). invoice_sound bs' x \<and> number_given bs' x"
    using old new given(1) \<open>number_given bs' v\<close> by (simp add: inv)
  moreover have "\<forall>x\<in>set (bs_invoices bs'). invoice_fits x" "\<forall>l\<in>set (bs_lines bs'). line_fits l"
    using books_okD(7,8) [OF ok] ls(3,4) by (auto simp: inv)
  ultimately show ?thesis unfolding books_ok_def by blast
qed

section \<open>The periods\<close>

lemma chained_mark:
  "chained ps \<Longrightarrow> chained (map (\<lambda>p. if P p then p\<lparr>bp_status := Period_invoiced, bp_invoice := i\<rparr> else p) ps)"
  by (induction ps rule: chained.induct) auto

lemma billed_keeps_periods:
  assumes ok: "periods_ok bs" and b: "billed org number seq P bs bs' v"
    and one: "\<And>p q. P p \<Longrightarrow> P q \<Longrightarrow> bp_id p = bp_id q"
  shows "periods_ok bs'"
proof -
  define f where "f = (\<lambda>p. if P p then p\<lparr>bp_status := Period_invoiced, bp_invoice := Some (iv_id v)\<rparr> else p)"
  have per: "bs_periods bs' = map f (bs_periods bs)" and inv: "bs_invoices bs' = bs_invoices bs @ [v]"
    using b by (auto simp: billed_def upd_where_def f_def)
  have fresh: "iv_id v \<notin> iv_id ` set (bs_invoices bs)"
    using b fresh_invoice [of bs] by (auto simp: billed_def)
  have same: "bp_id (f p) = bp_id p" "bp_contract (f p) = bp_contract p" for p by (simp_all add: f_def)
  have st: "bp_status (f p) = (if P p then Period_invoiced else bp_status p)"
    "bp_invoice (f p) = (if P p then Some (iv_id v) else bp_invoice p)" for p by (simp_all add: f_def)
  have ids: "map bp_id (bs_periods bs') = map bp_id (bs_periods bs)" by (simp add: per same)
  have "periods_of bs' k = map f (periods_of bs k)" for k
    unfolding periods_of_def per filter_map o_def same ..
  then have chain: "chained (periods_of bs' k)" for k
    using chained_mark [OF periods_okD(2) [OF ok]] by (simp add: f_def)
  have pair: "bp_id p = bp_id q"
    if pq: "p \<in> set (bs_periods bs)" "q \<in> set (bs_periods bs)" and i: "bp_invoice (f p) \<noteq> None" "bp_invoice (f p) = bp_invoice (f q)" for p q
  proof (cases "P p \<or> P q")
    case True
    have "bp_invoice r \<noteq> Some (iv_id v)" if "r \<in> set (bs_periods bs)" for r
      using periods_okD(4) [OF ok that] fresh by blast
    with True pq i have "P p \<and> P q" by (auto simp: st split: if_splits)
    then show ?thesis using one by blast
  next
    case False
    with i periods_okD(5) [OF ok pq] show ?thesis by (simp add: st)
  qed
  show ?thesis
    unfolding periods_ok_def
  proof (intro conjI ballI allI impI)
    show "distinct (map bp_id (bs_periods bs'))" using periods_okD(1) [OF ok] ids by simp
    show "chained (periods_of bs' k)" for k by (rule chain)
  next
    fix p' assume "p' \<in> set (bs_periods bs')"
    then obtain p where p: "p \<in> set (bs_periods bs)" "p' = f p" by (auto simp: per)
    show "bp_status p' = Period_invoiced \<longleftrightarrow> bp_invoice p' \<noteq> None" using periods_okD(3) [OF ok p(1)] by (simp add: p(2) st)
    show "i \<in> iv_id ` set (bs_invoices bs')" if "bp_invoice p' = Some i" for i
      using that periods_okD(4) [OF ok p(1)] by (auto simp: p(2) st inv split: if_splits)
    fix q' assume "q' \<in> set (bs_periods bs')" and i: "bp_invoice p' \<noteq> None \<and> bp_invoice p' = bp_invoice q'"
    then obtain q where q: "q \<in> set (bs_periods bs)" "q' = f q" by (auto simp: per)
    note i' = i [unfolded p(2) q(2)]
    from pair [OF p(1) q(1) conjunct1 [OF i'] conjunct2 [OF i']] show "bp_id p' = bp_id q'" by (simp add: p(2) q(2) same)
  qed
qed

lemma foldl_later:
  "foldl (later_period P) best rows = foldl (later_period (\<lambda>_. True)) best (filter P rows)"
  by (induction rows arbitrary: best) (simp_all add: later_period_def)

lemma chained_Cons: "chained (p # ps) \<Longrightarrow> chained ps"
  by (cases ps) auto

lemma later_chain:
  "chained ps \<Longrightarrow> (ps \<noteq> [] \<Longrightarrow> bp_end b < bp_start (hd ps)) \<Longrightarrow>
     foldl (later_period (\<lambda>_. True)) (Some b) ps = Some (if ps = [] then b else last ps)"
proof (induction ps arbitrary: b)
  case (Cons p ps)
  have "bp_end b < bp_end p" using Cons.prems by (cases ps) auto
  moreover have "ps \<noteq> [] \<Longrightarrow> bp_end p < bp_start (hd ps)" using Cons.prems(1) by (cases ps) auto
  ultimately show ?case using Cons.IH [of p] chained_Cons [OF Cons.prems(1)] by (simp add: later_period_def)
qed simp

lemma last_period_chain:
  "chained ps \<Longrightarrow> foldl (later_period (\<lambda>_. True)) None ps = (if ps = [] then None else Some (last ps))"
proof (cases ps)
  case (Cons p qs)
  assume "chained ps"
  then have "chained qs" "qs \<noteq> [] \<Longrightarrow> bp_end p < bp_start (hd qs)" by (cases qs; simp add: Cons)+
  from later_chain [OF this] show ?thesis by (simp add: Cons later_period_def)
qed simp

lemma chained_below: "chained ps \<Longrightarrow> r \<in> set ps \<Longrightarrow> bp_start r \<le> bp_end r \<and> bp_end r \<le> bp_end (last ps)"
proof (induction ps arbitrary: r)
  case (Cons p ps)
  have "bp_end p \<le> bp_end (last (p # ps))"
  proof (cases ps)
    case (Cons q qs)
    with Cons.prems(1) Cons.IH [of q] show ?thesis by auto
  qed simp
  moreover have "bp_start p \<le> bp_end p" using Cons.prems(1) by (cases ps) auto
  ultimately show ?case using Cons.IH Cons.prems(2) chained_Cons [OF Cons.prems(1)] by auto
qed simp

lemma chained_snoc:
  "chained ps \<Longrightarrow> \<forall>p\<in>set ps. bp_status p = Period_invoiced \<Longrightarrow> (ps \<noteq> [] \<Longrightarrow> bp_start n = bp_end (last ps) + 1) \<Longrightarrow>
     bp_start n \<le> bp_end n \<Longrightarrow> bp_status n \<noteq> Period_skipped \<Longrightarrow> chained (ps @ [n])"
  by (induction ps rule: chained.induct) auto

lemma plus_month_eq: "plus_month d = d + month_days (day_month d)"
  using month_from_bounds [of 0 d] by (simp add: plus_month_def day_month_def)

lemma generate_keeps_periods:
  assumes ok: "periods_ok bs" and g: "generate_billing_period c (bs_periods bs) = (p, rows)"
  shows "periods_ok (bs\<lparr>bs_periods := rows\<rparr>)"
proof (cases "rows = bs_periods bs")
  case True
  then show ?thesis using ok by simp
next
  case False
  let ?ps = "periods_of bs (bc_id c)"
  have nopend: "last_period (\<lambda>r. bp_contract r = bc_id c \<and> bp_status r = Period_pending) (bs_periods bs) = None"
    and rows: "rows = bs_periods bs @ [p]" and p: "p = next_period c (bs_periods bs)"
    using g False by (auto simp: generate_billing_period_def Let_def split: option.splits)
  have chain: "chained ?ps" by (rule periods_okD(2) [OF ok])
  have later_Some: "foldl (later_period P) (Some b) xs \<noteq> None" for P b and xs :: "bill_period list"
    by (induction xs arbitrary: b) (simp_all add: later_period_def)
  have "filter (\<lambda>r. bp_contract r = bc_id c \<and> bp_status r = Period_pending) (bs_periods bs) = []"
  proof (rule ccontr)
    assume "\<not> ?thesis"
    then obtain x xs where "filter (\<lambda>r. bp_contract r = bc_id c \<and> bp_status r = Period_pending) (bs_periods bs) = x # xs"
      by (cases "filter (\<lambda>r. bp_contract r = bc_id c \<and> bp_status r = Period_pending) (bs_periods bs)") auto
    with nopend later_Some show False
      unfolding last_period_def by (subst (asm) foldl_later) (simp add: later_period_def)
  qed
  moreover have "bp_status r \<noteq> Period_skipped" if "r \<in> set xs" "chained xs" for r xs
    using that by (induction xs rule: chained.induct) auto
  ultimately have inv: "\<forall>r\<in>set ?ps. bp_status r = Period_invoiced"
    using chain by (metis (mono_tags, lifting) filter_empty_conv mem_Collect_eq period_status.exhaust periods_of_def set_filter)
  have "filter (\<lambda>r. bp_contract r = bc_id c \<and> bp_status r = Period_invoiced) (bs_periods bs) = ?ps"
    using inv by (auto simp: periods_of_def intro!: filter_cong)
  then have last: "last_period (\<lambda>r. bp_contract r = bc_id c \<and> bp_status r = Period_invoiced) (bs_periods bs) =
      (if ?ps = [] then None else Some (last ?ps))"
    unfolding last_period_def by (subst foldl_later) (simp only: last_period_chain [OF chain])
  have start: "bp_start p = bp_end (last ?ps) + 1" if "?ps \<noteq> []"
    using that by (simp add: p next_period_def Let_def last)
  have pf: "bp_contract p = bc_id c" "bp_status p = Period_pending" "bp_invoice p = None" "bp_id p = next_id bp_id (bs_periods bs)"
    and len: "bp_start p \<le> bp_end p"
    using month_days_pos [of "day_month (bp_start p)"] by (simp_all add: p next_period_def Let_def plus_month_eq)
  have "chained (?ps @ [p])" by (rule chained_snoc [OF chain inv]) (use start len pf(2) in simp_all)
  then have "chained (periods_of (bs\<lparr>bs_periods := rows\<rparr>) k)" for k
    using periods_okD(2) [OF ok, of k] by (auto simp: periods_of_def rows pf(1))
  moreover have "bp_id p \<notin> bp_id ` set (bs_periods bs)"
    using next_id_fresh [of _ "bs_periods bs" bp_id] pf(4) by (metis imageE less_irrefl)
  ultimately have chain': "\<And>k. chained (periods_of (bs\<lparr>bs_periods := rows\<rparr>) k)" and new: "bp_id p \<notin> bp_id ` set (bs_periods bs)"
    by blast+
  have mem: "q \<in> set rows \<longleftrightarrow> q \<in> set (bs_periods bs) \<or> q = p" for q by (auto simp: rows)
  show ?thesis
    unfolding periods_ok_def
  proof (intro conjI ballI allI impI)
    show "distinct (map bp_id (bs_periods (bs\<lparr>bs_periods := rows\<rparr>)))" using periods_okD(1) [OF ok] new by (simp add: rows)
    show "chained (periods_of (bs\<lparr>bs_periods := rows\<rparr>) k)" for k by (rule chain')
  next
    fix q assume "q \<in> set (bs_periods (bs\<lparr>bs_periods := rows\<rparr>))"
    then have q: "q \<in> set (bs_periods bs) \<or> q = p" by (simp add: mem)
    show "bp_status q = Period_invoiced \<longleftrightarrow> bp_invoice q \<noteq> None" using q periods_okD(3) [OF ok] pf(2,3) by auto
    show "i \<in> iv_id ` set (bs_invoices (bs\<lparr>bs_periods := rows\<rparr>))" if "bp_invoice q = Some i" for i
      using q that periods_okD(4) [OF ok, of q i] pf(3) by auto
    fix r assume "r \<in> set (bs_periods (bs\<lparr>bs_periods := rows\<rparr>))" and i: "bp_invoice q \<noteq> None \<and> bp_invoice q = bp_invoice r"
    then have r: "r \<in> set (bs_periods bs) \<or> r = p" by (simp add: mem)
    have "q \<noteq> p" "r \<noteq> p" using i pf(3) by auto
    with q r i periods_okD(5) [OF ok, of q r] show "bp_id q = bp_id r" by blast
  qed
qed

section \<open>Runs\<close>

text \<open>What a billing run, a member of staff or a plan change asks for. A call that throws leaves the state.\<close>

datatype bill_event =
    Make_period bill_contract
  | Bill_period bill_period bill_contract "bill_plan option" "nat option" int nat
  | Bill_once bool "nat option" nat "nat option" int "string option" int nat

definition bill_step :: "bill_state \<Rightarrow> bill_event \<Rightarrow> bill_state" where
  "bill_step bs e =
     (case e of
        Make_period c \<Rightarrow> bs\<lparr>bs_periods := snd (generate_billing_period c (bs_periods bs))\<rparr>
      | Bill_period p c given org now today \<Rightarrow>
          snd (generate_invoice p c given org now today bs)
      | Bill_once joins org client contract amount currency now today \<Rightarrow>
          snd (create_one_off_invoice joins org client contract amount currency now today bs))"

definition bill_inv :: "bill_state \<Rightarrow> bool" where
  "bill_inv bs \<longleftrightarrow> books_ok bs \<and> periods_ok bs"

lemma billed_keeps_inv:
  "bill_inv bs \<Longrightarrow> billed org number seq P bs bs' v \<Longrightarrow> next_invoice_number (bs_seq bs) org = (number, seq) \<Longrightarrow>
     (\<And>p q. P p \<Longrightarrow> P q \<Longrightarrow> bp_id p = bp_id q) \<Longrightarrow> bill_inv bs'"
  unfolding bill_inv_def using billed_keeps_books billed_keeps_periods by blast

lemma generate_invoice_cases:
  assumes "generate_invoice p c given org now today bs = (r, bs')"
  obtains (refused) e where "bs' = bs" and "r = Inl e"
  | (settled) locked where "bs' = bs" and "find (\<lambda>q. bp_id q = bp_id p) (bs_periods bs) = Some locked"
      and "bp_status locked \<noteq> Period_pending" and "r = find_invoice_of bs (bp_invoice locked) org"
  | (billed) plan where "resolve_full_plan bs c given org = Inr plan" and "invoice_period p c plan org now today bs = Inr bs'"
      and "r = wrapped_fault (find_invoice_of bs' (Some (next_id iv_id (bs_invoices bs))) org)"
      and "\<And>q. find (\<lambda>q. bp_id q = bp_id p) (bs_periods bs) = Some q \<Longrightarrow> bp_status q = Period_pending"
proof (cases "resolve_full_plan bs c given org")
  case (Inl e)
  with assms show thesis by (intro that(1) [of e]) (simp_all add: generate_invoice_def)
next
  case plan: (Inr plan)
  note w = assms [unfolded generate_invoice_def plan sum.case]
  have read: thesis if "bill_and_read p c plan org now today bs = (r, bs')"
    and "\<And>q. find (\<lambda>q. bp_id q = bp_id p) (bs_periods bs) = Some q \<Longrightarrow> bp_status q = Period_pending"
  proof (cases "invoice_period p c plan org now today bs")
    case (Inl e)
    with that(1) show thesis by (intro \<open>\<And>e. bs' = bs \<Longrightarrow> r = Inl e \<Longrightarrow> thesis\<close> [of e]) (simp_all add: bill_and_read_def)
  next
    case (Inr b)
    with that(1) have "b = bs'" "r = wrapped_fault (find_invoice_of bs' (Some (next_id iv_id (bs_invoices bs))) org)"
      by (auto simp: bill_and_read_def)
    with Inr plan that(2) show thesis
      by (intro \<open>\<And>plan. resolve_full_plan bs c given org = Inr plan \<Longrightarrow> invoice_period p c plan org now today bs = Inr bs' \<Longrightarrow>
        r = wrapped_fault (find_invoice_of bs' (Some (next_id iv_id (bs_invoices bs))) org) \<Longrightarrow>
        (\<And>q. find (\<lambda>q. bp_id q = bp_id p) (bs_periods bs) = Some q \<Longrightarrow> bp_status q = Period_pending) \<Longrightarrow> thesis\<close> [of plan]) auto
  qed
  show thesis
  proof (cases "find (\<lambda>q. bp_id q = bp_id p) (bs_periods bs)")
    case None
    with w show thesis by (intro read) auto
  next
    case (Some locked)
    with w show thesis by (cases "bp_status locked = Period_pending") (auto intro: read that(2))
  qed
qed

lemma generate_invoice_keeps:
  assumes "bill_inv bs" and "generate_invoice p c given org now today bs = (r, bs')"
  shows "bill_inv bs'"
  using assms(2)
proof (cases rule: generate_invoice_cases)
  case (billed plan)
  from invoice_period_billed [OF billed(2)] obtain v number seq where
    "next_invoice_number (bs_seq bs) org = (number, seq)" "billed org number seq (\<lambda>q. bp_id q = bp_id p) bs bs' v" by blast
  from billed_keeps_inv [OF assms(1) this(2,1)] show ?thesis by simp
qed (use assms(1) in simp_all)

lemma create_one_off_cases:
  "snd (create_one_off_invoice joins org client contract amount given now today bs) = bs \<or>
   one_off_invoice org client contract amount given now today bs =
     Inr (snd (create_one_off_invoice joins org client contract amount given now today bs))"
  by (simp add: create_one_off_invoice_def Let_def split: sum.split)

lemma books_ok_periods: "books_ok (bs\<lparr>bs_periods := rows\<rparr>) = books_ok bs"
proof -
  have e: "bs_invoices (bs\<lparr>bs_periods := rows\<rparr>) = bs_invoices bs" "bs_lines (bs\<lparr>bs_periods := rows\<rparr>) = bs_lines bs"
    "bs_ledger (bs\<lparr>bs_periods := rows\<rparr>) = bs_ledger bs" "bs_seq (bs\<lparr>bs_periods := rows\<rparr>) = bs_seq bs" by simp_all
  show ?thesis unfolding books_ok_def invoice_sound_def number_given_def lines_of_def debits_of_def e ..
qed

lemma bill_step_keeps [step_inv]: "bill_inv bs \<Longrightarrow> bill_inv (bill_step bs e)"
proof (cases e)
  case (Make_period c)
  assume ok: "bill_inv bs"
  obtain p rows where g: "generate_billing_period c (bs_periods bs) = (p, rows)" by force
  have "periods_ok (bs\<lparr>bs_periods := rows\<rparr>)" using generate_keeps_periods [OF _ g] ok by (simp add: bill_inv_def)
  moreover have "books_ok (bs\<lparr>bs_periods := rows\<rparr>)" using ok by (simp add: bill_inv_def books_ok_periods)
  ultimately show ?thesis by (simp add: bill_step_def Make_period g bill_inv_def)
next
  case (Bill_period p c given org now today)
  assume ok: "bill_inv bs"
  obtain r bs' where "generate_invoice p c given org now today bs = (r, bs')" by force
  with generate_invoice_keeps [OF ok this] show ?thesis by (simp add: bill_step_def Bill_period)
next
  case (Bill_once joins org client contract amount currency now today)
  assume ok: "bill_inv bs"
  let ?b = "snd (create_one_off_invoice joins org client contract amount currency now today bs)"
  have "bill_inv ?b"
    using create_one_off_cases [of joins org client contract amount currency now today bs]
  proof
    assume "one_off_invoice org client contract amount currency now today bs = Inr ?b"
    from one_off_billed [OF this] obtain w number seq where
      "next_invoice_number (bs_seq bs) org = (number, seq)" "billed org number seq (\<lambda>p. False) bs ?b w" by blast
    from billed_keeps_inv [OF ok this(2,1)] show ?thesis by simp
  qed (simp add: ok)
  then show ?thesis by (simp add: bill_step_def Bill_once)
qed

interpretation billing: step_system bill_step bill_inv
  by unfold_locales (rule bill_step_keeps)

text \<open>Before the first invoice: contracts, plans, add-ons, usage and counters are whatever they are.\<close>

definition empty_books :: "bill_state \<Rightarrow> bool" where
  "empty_books bs \<longleftrightarrow> bs_periods bs = [] \<and> bs_invoices bs = [] \<and> bs_lines bs = [] \<and> bs_ledger bs = []"

lemma empty_books_inv: "empty_books bs \<Longrightarrow> bill_inv bs"
  by (simp add: empty_books_def bill_inv_def books_ok_def periods_ok_def periods_of_def)


lemma chained_after: "chained (p # ps) \<Longrightarrow> q \<in> set ps \<Longrightarrow> bp_end p < bp_start q"
proof (induction ps arbitrary: p)
  case (Cons r rs)
  have "bp_end p < bp_start r" "bp_start r \<le> bp_end r" using Cons.prems(1) by (cases rs; simp)+
  with Cons.IH [OF chained_Cons [OF Cons.prems(1)]] Cons.prems(2) show ?case by auto
qed simp

definition covers_day :: "nat \<Rightarrow> bill_period \<Rightarrow> bool" where
  "covers_day d p \<longleftrightarrow> bp_start p \<le> d \<and> d \<le> bp_end p"

lemma chained_at_most_one: "chained ps \<Longrightarrow> p \<in> set ps \<Longrightarrow> q \<in> set ps \<Longrightarrow> covers_day d p \<Longrightarrow> covers_day d q \<Longrightarrow> p = q"
proof (induction ps)
  case (Cons r rs)
  show ?case
  proof (cases "p = r \<or> q = r")
    case True
    with Cons.prems chained_after [OF Cons.prems(1)] show ?thesis by (fastforce simp: covers_day_def)
  next
    case False
    with Cons.IH [OF chained_Cons [OF Cons.prems(1)]] Cons.prems show ?thesis by auto
  qed
qed simp

lemma chained_no_gap:
  "chained ps \<Longrightarrow> ps \<noteq> [] \<Longrightarrow> bp_start (hd ps) \<le> d \<Longrightarrow> d \<le> bp_end (last ps) \<Longrightarrow> \<exists>p\<in>set ps. covers_day d p"
proof (induction ps rule: chained.induct)
  case (3 p q ps)
  show ?case
  proof (cases "d \<le> bp_end p")
    case True
    with 3 show ?thesis by (auto simp: covers_day_def)
  next
    case False
    with 3 have "\<exists>r\<in>set (q # ps). covers_day d r" by simp
    then show ?thesis by auto
  qed
qed (auto simp: covers_day_def)

text \<open>
  C99: after any such sequence the periods of a contract lie end to end: a day from the start of the first to the end of
  the last is in exactly one of them, and no invoice stands for two periods, so no day of service is billed twice.
\<close>

theorem every_day_once:
  assumes "empty_books bs" and "ps = periods_of (foldl bill_step bs es) k"
  shows "(ps \<noteq> [] \<and> bp_start (hd ps) \<le> d \<and> d \<le> bp_end (last ps) \<longrightarrow> (\<exists>!p. p \<in> set ps \<and> covers_day d p)) \<and>
    (\<forall>p\<in>set ps. \<forall>q\<in>set ps. bp_invoice p \<noteq> None \<and> bp_invoice p = bp_invoice q \<longrightarrow> p = q)"
proof -
  have ok: "periods_ok (foldl bill_step bs es)"
    using billing.run_keeps empty_books_inv [OF assms(1)] by (simp add: bill_inv_def)
  have chain: "chained ps" unfolding assms(2) by (rule periods_okD(2) [OF ok])
  have "p = q" if "p \<in> set ps" "q \<in> set ps" "bp_invoice p \<noteq> None" "bp_invoice p = bp_invoice q" for p q
  proof -
    have pq: "p \<in> set (bs_periods (foldl bill_step bs es))" "q \<in> set (bs_periods (foldl bill_step bs es))"
      using that(1,2) by (simp_all add: assms(2) periods_of_def)
    from periods_okD(5) [OF ok this that(3,4)] periods_okD(1) [OF ok] pq show ?thesis
      by (metis distinct_map inj_onD)
  qed
  moreover have "\<exists>!p. p \<in> set ps \<and> covers_day d p" if "ps \<noteq> []" "bp_start (hd ps) \<le> d" "d \<le> bp_end (last ps)"
    using chained_no_gap [OF chain that] chained_at_most_one [OF chain] by blast
  ultimately show ?thesis by blast
qed


section \<open>Billing the same thing again\<close>



lemma deactivate_twice:
  "upd_where (\<lambda>r. ka_active r \<and> P (ka_id r)) (\<lambda>r. r\<lparr>ka_active := False\<rparr>)
     (upd_where (\<lambda>r. ka_active r \<and> Q (ka_id r)) (\<lambda>r. r\<lparr>ka_active := False\<rparr>) rows) =
   upd_where (\<lambda>r. ka_active r \<and> (Q (ka_id r) \<or> P (ka_id r))) (\<lambda>r. r\<lparr>ka_active := False\<rparr>) rows"
  unfolding upd_where_def map_map by (rule map_cong) auto

lemma bill_addons_rows:
  "bill_addons nid s e m xs k bs = Inr (k', bs') \<Longrightarrow>
     bs_addons bs' = upd_where (\<lambda>r. ka_active r \<and> (\<exists>a. (a, Addon_one_time) \<in> set xs \<and> ka_id r = ka_id a))
       (\<lambda>r. r\<lparr>ka_active := False\<rparr>) (bs_addons bs) \<and>
     set (bs_lines bs) \<subseteq> set (bs_lines bs') \<and>
     (\<forall>a cyc q u am. (a, cyc) \<in> set xs \<and> addon_line_for_period a cyc s e m = Some (q, u, am) \<longrightarrow>
        \<lparr>li_invoice = nid, li_quantity = q, li_unit = u, li_amount = am\<rparr> \<in> set (bs_lines bs'))"
proof (induction xs arbitrary: k bs)
  case Nil
  then show ?case by (simp add: upd_where_def)
next
  case (Cons x rest)
  obtain a cyc where x: "x = (a, cyc)" by (cases x)
  show ?case
  proof (cases "addon_line_for_period a cyc s e m")
    case None
    then have "cyc \<noteq> Addon_one_time" by (auto simp: addon_line_for_period_def Let_def)
    with None Cons.IH [of k bs] Cons.prems show ?thesis by (auto simp: x)
  next
    case (Some v)
    obtain q u am where v: "v = (q, u, am)" by (cases v)
    from Cons.prems Some obtain b1 where b1: "insert_line nid q u am bs = Inr b1" by (auto simp: x v bind_r_Inr_conv)
    then have l1: "bs_lines b1 = bs_lines bs @ [\<lparr>li_invoice = nid, li_quantity = q, li_unit = u, li_amount = am\<rparr>]"
        and a1: "bs_addons b1 = bs_addons bs" by (auto simp: insert_line_def split: if_splits)
    let ?b2 = "if cyc = Addon_one_time
        then b1\<lparr>bs_addons := upd_where (\<lambda>k. ka_id k = ka_id a \<and> ka_active k) (\<lambda>k. k\<lparr>ka_active := False\<rparr>) (bs_addons b1)\<rparr> else b1"
    have "bill_addons nid s e m rest (k + am) ?b2 = Inr (k', bs')"
      using Cons.prems unfolding x bill_addons.simps Some option.case v prod.case b1 bind_r_simps .
    note ih = Cons.IH [OF this]
    have l2: "bs_lines ?b2 = bs_lines b1" by simp
    have "bs_addons bs' = upd_where (\<lambda>r. ka_active r \<and> (\<exists>a. (a, Addon_one_time) \<in> set (x # rest) \<and> ka_id r = ka_id a))
       (\<lambda>r. r\<lparr>ka_active := False\<rparr>) (bs_addons bs)"
    proof -
      have b2: "bs_addons ?b2 = upd_where (\<lambda>r. ka_active r \<and> cyc = Addon_one_time \<and> ka_id r = ka_id a)
          (\<lambda>r. r\<lparr>ka_active := False\<rparr>) (bs_addons bs)" by (auto simp: upd_where_def a1)
      note two = deactivate_twice [of "\<lambda>i. \<exists>a. (a, Addon_one_time) \<in> set rest \<and> i = ka_id a"
          "\<lambda>i. cyc = Addon_one_time \<and> i = ka_id a" "bs_addons bs", folded b2]
      have ex: "(cyc = Addon_one_time \<and> i = ka_id a \<or> (\<exists>a. (a, Addon_one_time) \<in> set rest \<and> i = ka_id a)) \<longleftrightarrow>
          (\<exists>a. (a, Addon_one_time) \<in> set (x # rest) \<and> i = ka_id a)" for i by (auto simp: x)
      from conjunct1 [OF ih] two show ?thesis unfolding ex by (rule trans)
    qed
    moreover have "set (bs_lines bs) \<subseteq> set (bs_lines bs')"
    proof -
      have "set (bs_lines ?b2) \<subseteq> set (bs_lines bs')" using ih by blast
      then show ?thesis unfolding l2 l1 by auto
    qed
    moreover have line: "\<lparr>li_invoice = nid, li_quantity = q, li_unit = u, li_amount = am\<rparr> \<in> set (bs_lines bs')"
    proof -
      have "set (bs_lines ?b2) \<subseteq> set (bs_lines bs')" using ih by blast
      then show ?thesis unfolding l2 l1 by auto
    qed
    moreover have "\<lparr>li_invoice = nid, li_quantity = q', li_unit = u', li_amount = am'\<rparr> \<in> set (bs_lines bs')"
      if "(a', cyc') \<in> set (x # rest) \<and> addon_line_for_period a' cyc' s e m = Some (q', u', am')" for a' cyc' q' u' am'
    proof (cases "(a', cyc') \<in> set rest")
      case True
      with that ih show ?thesis by blast
    next
      case False
      with that have "a' = a \<and> cyc' = cyc" by (simp add: x)
      with that Some v line show ?thesis by simp
    qed
    ultimately show ?thesis by blast
  qed
qed

definition addon_expired :: "nat \<Rightarrow> bill_state \<Rightarrow> bool" where
  "addon_expired i bs \<longleftrightarrow> (\<forall>k\<in>set (bs_addons bs). ka_id k = i \<longrightarrow> \<not> ka_active k)"

lemma invoice_period_work:
  assumes "invoice_period p c plan org now today bs = Inr bs'"
  obtains m k3 b3 k4 b4 where "bs_addons b3 = bs_addons bs" and "bs_addons b4 = bs_addons bs'" and "bs_lines b4 = bs_lines bs'"
    and "bill_addons (next_id iv_id (bs_invoices bs)) (bp_start p) (bp_end p) m
      (addons_in_force bs (bc_id c) (bp_start p) (bp_end p)) k3 b3 = Inr (k4, b4)"
    and "\<lparr>li_invoice = next_id iv_id (bs_invoices bs), li_quantity = 100, li_unit = plan_price c plan now,
      li_amount = plan_price c plan now\<rparr> \<in> set (bs_lines bs')"
proof -
  obtain v number seq m k3 b3 k4 b4 where b: "billed org number seq (\<lambda>q. bp_id q = bp_id p) bs bs' v"
    and w: "bs_addons b3 = bs_addons bs" "bs_addons b4 = bs_addons bs'" "bs_lines b4 = bs_lines bs'"
      "bill_addons (iv_id v) (bp_start p) (bp_end p) m (addons_in_force bs (bc_id c) (bp_start p) (bp_end p)) k3 b3 = Inr (k4, b4)"
      "\<lparr>li_invoice = iv_id v, li_quantity = 100, li_unit = plan_price c plan now, li_amount = plan_price c plan now\<rparr>
        \<in> set (bs_lines bs')"
    using invoice_period_billed [OF assms] by metis
  from b have "iv_id v = next_id iv_id (bs_invoices bs)" unfolding billed_def by blast
  with that w show thesis by simp
qed

lemma invoice_period_addons:
  assumes "invoice_period p c plan org now today bs = Inr bs'"
  shows "bs_addons bs' = upd_where (\<lambda>r. ka_active r \<and>
      (\<exists>a. (a, Addon_one_time) \<in> set (addons_in_force bs (bc_id c) (bp_start p) (bp_end p)) \<and> ka_id r = ka_id a))
      (\<lambda>r. r\<lparr>ka_active := False\<rparr>) (bs_addons bs)"
proof (rule invoice_period_work [OF assms])
  fix m k3 b3 k4 b4
  assume w: "bs_addons b3 = bs_addons bs" "bs_addons b4 = bs_addons bs'" "bill_addons (next_id iv_id (bs_invoices bs))
      (bp_start p) (bp_end p) m (addons_in_force bs (bc_id c) (bp_start p) (bp_end p)) k3 b3 = Inr (k4, b4)"
  from bill_addons_rows [OF w(3)] w(1,2) show ?thesis by simp
qed

lemma expired_where: "addon_expired i bs \<Longrightarrow> bs_addons bs' = upd_where P (\<lambda>r. r\<lparr>ka_active := False\<rparr>) (bs_addons bs) \<Longrightarrow>
    addon_expired i bs'"
  by (auto simp: addon_expired_def upd_where_def)

lemma one_off_addons:
  "one_off_invoice org client contract amount given now today bs = Inr bs' \<Longrightarrow> bs_addons bs' = bs_addons bs"
  by (auto simp: one_off_invoice_def Let_def bind_r_Inr_conv insert_debit_def insert_line_def insert_invoice_def
      split: prod.splits if_splits)

lemma bill_step_expired: "addon_expired i bs \<Longrightarrow> addon_expired i (bill_step bs e)"
proof (cases e)
  case (Bill_period p c given org now today)
  assume ex: "addon_expired i bs"
  obtain r bs' where g: "generate_invoice p c given org now today bs = (r, bs')" by force
  then have "addon_expired i bs'"
  proof (cases rule: generate_invoice_cases)
    case (billed plan)
    from expired_where [OF ex invoice_period_addons [OF billed(2)]] show ?thesis .
  qed (simp_all add: ex)
  with g show ?thesis by (simp add: bill_step_def Bill_period)
next
  case (Bill_once joins org client contract amount currency now today)
  assume "addon_expired i bs"
  with create_one_off_cases [of joins org client contract amount currency now today bs] one_off_addons
  show ?thesis unfolding addon_expired_def bill_step_def Bill_once by fastforce
qed (simp add: bill_step_def addon_expired_def)

interpretation expiry: step_system bill_step "addon_expired i" for i
  by unfold_locales (rule bill_step_expired)

text \<open>
  C99: billing a period puts a line for every one-time charge in force in it, and whatever is billed afterwards, in any
  order, that charge is never in force again. The other add-ons stay as they are.
\<close>

theorem one_time_charge_once:
  assumes "invoice_period p c plan org now today bs = Inr bs'"
    and "(a, Addon_one_time) \<in> set (addons_in_force bs (bc_id c) (bp_start p) (bp_end p))"
  shows "(\<exists>l\<in>set (bs_lines bs'). li_quantity l = int (max 1 (ka_quantity a)) * 100 \<and> li_unit l = ka_unit_price a \<and>
       li_invoice l = next_id iv_id (bs_invoices bs)) \<and>
    (\<forall>b cyc. (b, cyc) \<in> set (addons_in_force (foldl bill_step bs' es) k s e) \<longrightarrow> ka_id b \<noteq> ka_id a) \<and>
    (\<forall>r\<in>set (bs_addons bs).
       (\<forall>b. (b, Addon_one_time) \<in> set (addons_in_force bs (bc_id c) (bp_start p) (bp_end p)) \<longrightarrow> ka_id b \<noteq> ka_id r) \<longrightarrow>
       r \<in> set (bs_addons bs'))"
proof (intro conjI allI impI ballI)
  let ?nid = "next_id iv_id (bs_invoices bs)" and ?xs = "addons_in_force bs (bc_id c) (bp_start p) (bp_end p)"
  obtain m k3 b3 k4 b4 where w: "bill_addons ?nid (bp_start p) (bp_end p) m ?xs k3 b3 = Inr (k4, b4)"
    and l: "bs_lines b4 = bs_lines bs'" by (rule invoice_period_work [OF assms(1)])
  obtain am where am: "addon_line_for_period a Addon_one_time (bp_start p) (bp_end p) m =
      Some (int (max 1 (ka_quantity a)) * 100, ka_unit_price a, am)"
    by (auto simp: addon_line_for_period_def Let_def max_def)
  have "\<lparr>li_invoice = ?nid, li_quantity = int (max 1 (ka_quantity a)) * 100, li_unit = ka_unit_price a, li_amount = am\<rparr>
      \<in> set (bs_lines bs')"
    using bill_addons_rows [OF w] assms(2) am unfolding l by blast
  then show "\<exists>l\<in>set (bs_lines bs'). li_quantity l = int (max 1 (ka_quantity a)) * 100 \<and> li_unit l = ka_unit_price a \<and>
       li_invoice l = ?nid" by (rule rev_bexI) simp
next
  have "addon_expired (ka_id a) bs'"
    using assms(2) unfolding addon_expired_def invoice_period_addons [OF assms(1)] upd_where_def by auto
  then have "addon_expired (ka_id a) (foldl bill_step bs' es)" by (rule expiry.run_keeps)
  then show "ka_id b \<noteq> ka_id a" if "(b, cyc) \<in> set (addons_in_force (foldl bill_step bs' es) k s e)" for b cyc
    using that by (auto simp: addons_in_force_def addon_expired_def split: if_splits)
next
  fix r assume "r \<in> set (bs_addons bs)"
    and "\<forall>b. (b, Addon_one_time) \<in> set (addons_in_force bs (bc_id c) (bp_start p) (bp_end p)) \<longrightarrow> ka_id b \<noteq> ka_id r"
  then show "r \<in> set (bs_addons bs')"
    unfolding invoice_period_addons [OF assms(1)] upd_where_def by force
qed

section \<open>What a month costs\<close>



section \<open>The lines of add-ons\<close>

lemma rel_err: "\<bar>fl r - r\<bar> \<le> A / 2 ^ 53" if "\<bar>r\<bar> \<le> A"
  using fl_err [of r] that by (meson divide_right_mono order_trans zero_le_numeral zero_le_power)

lemma line_cents_exact:
  assumes "money_range (a * int n)"
  shows "line_cents (fl_mul (num_of_cents a) (of_nat n)) = a * int n"
proof -
  define A :: rat where "A = of_int \<bar>a * int n\<bar>"
  define x where "x = num_of_cents a * of_nat n"
  define y where "y = fl x"
  define z where "z = fl (y * 100)"
  have mul: "of_int (a * int n) = (of_int a * of_nat n :: rat)" by simp
  have abs: "\<bar>of_int a * of_nat n :: rat\<bar> = A" unfolding A_def of_int_abs mul ..
  have "A \<le> of_int (10 ^ 12)" unfolding A_def of_int_le_iff using assms by (simp add: money_range_def)
  then have A: "0 \<le> A" "A \<le> 10 ^ 12" by (simp_all add: A_def)
  have "\<bar>num_of_cents a - of_int a / 100\<bar> \<le> \<bar>of_int a / 100\<bar> / 2 ^ 53"
    unfolding num_of_cents_def by (rule fl_err)
  then have "\<bar>num_of_cents a - of_int a / 100\<bar> * of_nat n \<le> \<bar>of_int a / 100\<bar> / 2 ^ 53 * of_nat n"
    by (rule mult_right_mono) simp
  moreover have "\<bar>x - of_int (a * int n) / 100\<bar> = \<bar>num_of_cents a - of_int a / 100\<bar> * of_nat n"
  proof -
    have "x - of_int (a * int n) / 100 = (num_of_cents a - of_int a / 100) * of_nat n"
      unfolding x_def mul by (simp add: left_diff_distrib)
    then show ?thesis by (simp only: abs_mult abs_of_nat)
  qed
  moreover have "\<bar>of_int a / 100\<bar> / 2 ^ 53 * of_nat n = A / 100 / (2 ^ 53 :: rat)"
    unfolding abs [symmetric] by (simp add: abs_mult)
  moreover define t :: rat where "t = of_int (a * int n)"
  moreover define B where "B = A / 2 ^ 53"
  ultimately have x: "\<bar>x - t / 100\<bar> \<le> B / 100" by simp
  have t: "\<bar>t\<bar> = A" unfolding t_def mul abs ..
  have B: "0 \<le> B" "8 * B \<le> A" using A(1) by (simp_all add: B_def)
  have xs: "\<bar>x\<bar> \<le> A / 50" using x t B by linarith
  then have "\<bar>y - x\<bar> \<le> A / 50 / 2 ^ 53" unfolding y_def by (rule rel_err)
  then have y: "\<bar>y - x\<bar> \<le> B / 50" by (simp add: B_def)
  have ys: "\<bar>y * 100\<bar> \<le> 4 * A" using xs y B by linarith
  then have "\<bar>z - y * 100\<bar> \<le> 4 * A / 2 ^ 53" unfolding z_def by (rule rel_err)
  then have "\<bar>z - y * 100\<bar> \<le> 4 * B" by (simp add: B_def)
  with x y have "\<bar>z - t\<bar> \<le> 7 * B" by linarith
  also have "\<dots> < 1 / 2" using A(2) by (simp add: B_def)
  finally have "\<bar>z - of_int (a * int n)\<bar> < 1 / 2" unfolding t_def .
  then show ?thesis
    unfolding line_cents_def fl_mul_def x_def [symmetric] y_def [symmetric] z_def [symmetric] by (rule math_round_near)
qed

text \<open>
  C99: the line of an add-on is exact although the amounts pass through Numbers: its amount is its quantity times its
  unit price, and the unit price that of the add-on, for each month of the cycle when it is charged by the month.
\<close>

theorem addon_line_exact:
  assumes "addon_line_for_period a cyc s e months = Some (q, u, am)"
    and "money_range (ka_unit_price a * int (max 1 months) * int (max 1 (ka_quantity a)))"
  shows "q = 100 * int (max 1 (ka_quantity a)) \<and>
    u = ka_unit_price a * (if cyc = Addon_monthly then int (max 1 months) else 1) \<and> am * 100 = q * u"
proof -
  define k where "k = max 1 (ka_quantity a)"
  define m where "m = max 1 months"
  have pos: "1 \<le> int k" "1 \<le> int m" by (simp_all add: k_def m_def)
  have units: "(if ka_quantity a = 0 then 1 else ka_quantity a) = k" by (simp add: k_def)
  have range: "money_range (ka_unit_price a * int m * int k)" using assms(2) by (simp add: k_def m_def)
  have shrink: "money_range c" if "money_range (c * d)" and "1 \<le> d" for c d :: int
    using that mult_left_mono [of 1 d "\<bar>c\<bar>"] by (simp add: money_range_def abs_mult)
  have r: "money_range (ka_unit_price a * int m)" "money_range (ka_unit_price a * int k)"
    using shrink [OF range pos(1)] shrink [of "ka_unit_price a * int k" "int m"] range pos(2) by (simp_all add: ac_simps)
  have plain: "line_cents (fl_mul (num_of_cents (ka_unit_price a)) (of_nat k)) = ka_unit_price a * int k"
    "line_cents (fl_mul (num_of_cents (ka_unit_price a)) (of_nat m)) = ka_unit_price a * int m"
    "line_cents (fl_mul (num_of_cents (ka_unit_price a * int m)) (of_nat k)) = ka_unit_price a * int m * int k"
    using line_cents_exact r range by blast+
  show ?thesis
    using assms(1) unfolding addon_line_for_period_def Let_def units m_def [symmetric] plain k_def [symmetric]
    by (cases cyc) (auto split: if_splits)
qed

lemma addon_line_exact_witness:
  "addon_line_for_period \<lparr>ka_id = 5, ka_contract = 1, ka_addon = 3, ka_quantity = 2, ka_unit_price = 4999, ka_start = 0,
      ka_end = None, ka_active = True, ka_live = True\<rparr> Addon_monthly 0 30 3 = Some (200, 14997, 29994)"
proof -
  let ?a = "\<lparr>ka_id = 5, ka_contract = 1, ka_addon = 3, ka_quantity = 2, ka_unit_price = 4999, ka_start = 0,
      ka_end = None, ka_active = True, ka_live = True\<rparr> :: contract_addon"
  obtain q u am where s: "addon_line_for_period ?a Addon_monthly 0 30 3 = Some (q, u, am)"
    by (simp add: addon_line_for_period_def Let_def)
  have "money_range (ka_unit_price ?a * int (max 1 3) * int (max 1 (ka_quantity ?a)))" by (simp add: money_range_def)
  from addon_line_exact [OF s this] s show ?thesis by auto
qed

section \<open>A first month\<close>

text \<open>An organization with one annual contract, sold at 1200.00 a year, and one set-up charge.\<close>

definition sample_contract :: bill_contract where
  "sample_contract = \<lparr>bc_id = 4, bc_org = Some 3, bc_client = 9, bc_plan = 2, bc_start = 0, bc_first_activated = None,
     bc_billing_day = None, bc_cycle = Some Annual, bc_price_override = None\<rparr>"

definition sample_plan :: bill_plan where
  "sample_plan = \<lparr>pn_id = 2, pn_org = Some 3, pn_price = 120000, pn_currency = ''USD'', pn_cycle = Monthly, pn_trial_days = None,
     pn_trial_price = 0, pn_overage = Overage_none, pn_overage_price = None, pn_cap = None\<rparr>"

definition sample_db :: tax_db where
  "sample_db = \<lparr>td_rules = [], td_rates = [\<lparr>tr_id = 7, tr_org = Some 3, tr_rate = 1600, tr_default = True, tr_active = True,
       tr_live = True\<rparr>], td_clients = [], td_locales = []\<rparr>"

definition sample_books :: bill_state where
  "sample_books = \<lparr>bs_contracts = [sample_contract], bs_plans = [sample_plan], bs_periods = [],
     bs_addons = [\<lparr>ka_id = 5, ka_contract = 4, ka_addon = 3, ka_quantity = 2, ka_unit_price = 5000, ka_start = 0, ka_end = None,
       ka_active = True, ka_live = True\<rparr>],
     bs_catalog = [\<lparr>ke_id = 3, ke_cycle = Addon_one_time, ke_taxable = True, ke_live = True\<rparr>],
     bs_invoices = [], bs_lines = [], bs_ledger = [], bs_seq = (\<lambda>_. None),
     bs_tax = sample_db,
     bs_currencies = [], bs_usage = [], bs_sessions = [], bs_extra = (\<lambda>_ _ _. 0), bs_liveness = None\<rparr>"

definition sample_period :: bill_period where
  "sample_period = next_period sample_contract []"

definition sample_events :: "bill_event list" where
  "sample_events = [Make_period sample_contract, Bill_period sample_period sample_contract None (Some 3) 0 0]"

lemma sample_period_eq: "sample_period = \<lparr>bp_id = 1, bp_contract = 4, bp_start = 0, bp_end = 30,
    bp_status = Period_pending, bp_invoice = None, bp_scheduled = 0\<rparr>"
  unfolding sample_period_def by code_simp

lemma sample_tax: "resolve_tax_context sample_db (Some 3) (Some 9) 0 None =
    \<lparr>cx_rate = 1600, cx_rate_id = Some 7, cx_exempt = False, cx_rule = None\<rparr>" by code_simp

lemma sample_number: "next_invoice_number (\<lambda>_. None) (Some 3) = (''INV-000001'', [3 \<mapsto> 2])"
proof -
  have "show_nat 1 = ''1''" by code_simp
  then show ?thesis by (simp add: next_invoice_number_def next_sequence_number_def pad_start_def numeral_eq_Suc)
qed

lemma sample_made: "generate_billing_period sample_contract [] = (sample_period, [sample_period])"
  by (simp add: generate_billing_period_def last_period_def sample_period_def Let_def)

definition sample_pending :: bill_state where
  "sample_pending = sample_books\<lparr>bs_periods := [sample_period]\<rparr>"

definition sample_after :: bill_state where
  "sample_after = sample_books\<lparr>bs_periods := [sample_period\<lparr>bp_status := Period_invoiced, bp_invoice := Some 1\<rparr>],
     bs_addons := map (ka_active_update (\<lambda>_. False)) (bs_addons sample_books),
     bs_invoices := [\<lparr>iv_id = 1, iv_org = Some 3, iv_client = 9, iv_contract = Some 4, iv_number = ''INV-000001'',
       iv_subtotal = 130000, iv_tax = 20800, iv_total = 150800, iv_currency = ''USD'', iv_rate = 1600, iv_rate_id = Some 7,
       iv_due = 45, iv_issued = 0, iv_live = True\<rparr>],
     bs_lines := [\<lparr>li_invoice = 1, li_quantity = 100, li_unit = 120000, li_amount = 120000\<rparr>,
       \<lparr>li_invoice = 1, li_quantity = 200, li_unit = 5000, li_amount = 10000\<rparr>],
     bs_ledger := [\<lparr>de_client = 9, de_org = Some 3, de_amount = 150800, de_currency = ''USD'', de_invoice = 1\<rparr>],
     bs_seq := [3 \<mapsto> 2]\<rparr>"

lemma sample_line:
  "addon_line_for_period \<lparr>ka_id = 5, ka_contract = 4, ka_addon = 3, ka_quantity = 2, ka_unit_price = 5000, ka_start = 0,
     ka_end = None, ka_active = True, ka_live = True\<rparr> Addon_one_time 0 30 m = Some (200, 5000, 10000)"
  using line_cents_exact [of 5000 2] by (simp add: addon_line_for_period_def Let_def money_range_def)

lemma sample_billed: "invoice_period sample_period sample_contract sample_plan (Some 3) 0 0 sample_pending = Inr sample_after"
  unfolding invoice_period_def Let_def sample_period_eq
  by (simp add: sample_tax sample_pending_def sample_number sample_line sample_plan_def sample_contract_def
      is_contract_in_trial_def plan_price_def insert_invoice_def column_fits_def tax_of_def div_round_def insert_line_def
      bill_overage_def addons_in_force_def next_id_def insert_debit_def sample_after_def sample_period_eq sample_books_def
      set_totals_def upd_where_def)

lemma sample_pending_fields:
  "bs_periods sample_pending = [sample_period]" "bs_plans sample_pending = [sample_plan]"
  "bs_invoices sample_pending = []"
  by (simp_all add: sample_pending_def sample_books_def)

lemma sample_generated: "generate_invoice sample_period sample_contract None (Some 3) 0 0 sample_pending =
    (find_invoice_of sample_after (Some 1) (Some 3), sample_after)"
proof -
  have "resolve_full_plan sample_pending sample_contract None (Some 3) = Inr sample_plan"
    by (simp add: resolve_full_plan_def sample_pending_fields sample_plan_def sample_contract_def)
  then show ?thesis
    by (simp add: generate_invoice_def bill_and_read_def sample_pending_fields sample_billed next_id_def)
      (simp add: sample_period_eq wrapped_fault_def find_invoice_of_def)
qed

lemma sample_run: "foldl bill_step sample_books sample_events = sample_after"
proof -
  have "bill_step sample_books (Make_period sample_contract) = sample_pending"
    using sample_made by (simp add: bill_step_def sample_pending_def sample_books_def)
  then show ?thesis by (simp add: sample_events_def bill_step_def sample_generated)
qed

lemma sample_empty: "empty_books sample_books"
  by (simp add: empty_books_def sample_books_def)


lemma every_day_once_witness: "\<exists>!p. p \<in> set (periods_of sample_after 4) \<and> covers_day 12 p"
proof -
  have "periods_of sample_after 4 = [sample_period\<lparr>bp_status := Period_invoiced, bp_invoice := Some 1\<rparr>]"
    by (simp add: periods_of_def sample_after_def sample_period_eq)
  then show ?thesis
    using every_day_once [OF sample_empty refl, where d = 12 and es = sample_events and k = 4, unfolded sample_run]
    by (simp add: sample_period_eq)
qed



text \<open>Without an organization the work is committed and the call fails all the same.\<close>

lemma unscoped_invoice_reported_failed:
  "resolve_full_plan bs c given None = Inr plan \<Longrightarrow> invoice_period p c plan None now today bs = Inr bs' \<Longrightarrow>
     (\<And>q. find (\<lambda>q. bp_id q = bp_id p) (bs_periods bs) = Some q \<Longrightarrow> bp_status q = Period_pending) \<Longrightarrow>
     generate_invoice p c given None now today bs = (Inl (Invoice_generation_error Organization_missing), bs')"
  by (auto simp: generate_invoice_def bill_and_read_def find_invoice_of_def wrapped_fault_def split: option.split)

lemma one_time_charge_once_witness:
  "(\<exists>l\<in>set (bs_lines sample_after). li_quantity l = 200 \<and> li_unit l = 5000) \<and>
   5 \<notin> ka_id ` fst ` set (addons_in_force (bill_step sample_after (Make_period sample_contract)) 4 31 58)"
proof -
  define a where "a = \<lparr>ka_id = 5, ka_contract = 4, ka_addon = 3, ka_quantity = 2, ka_unit_price = 5000, ka_start = 0, ka_end = None,
    ka_active = True, ka_live = True\<rparr>"
  have "(a, Addon_one_time) \<in> set (addons_in_force sample_pending (bc_id sample_contract) (bp_start sample_period) (bp_end sample_period))"
    by (simp add: addons_in_force_def sample_pending_def sample_books_def sample_contract_def sample_period_eq a_def)
  from one_time_charge_once [OF sample_billed this, where es = "[Make_period sample_contract]" and k = 4 and s = 31 and e = 58]
  show ?thesis by (auto simp: a_def)
qed


end
