(* ===== verification/Sealed_Secrets.thy ===== *)
theory Sealed_Secrets
  imports Ip_Text
begin

text \<open>
  Secrets at rest: \<open>src/utils/encryption.js\<close>, with its key ring and the rotation of keys.

  A text is the list of its UTF-8 bytes, each written as the character with that code. AES-256-GCM, SHA-256 and the
  random initialization vectors come from the platform's crypto library: they are the fields of \<open>seal_crypto\<close> and an
  argument. \<open>seal_laws\<close> states what the code relies on: what was sealed with a key opens with that key.
\<close>

type_synonym octets = "8 word list"

record seal_crypto =
  sx_sha256 :: "octets \<Rightarrow> octets"
  sx_gcm_seal :: "octets \<Rightarrow> octets \<Rightarrow> octets \<Rightarrow> octets \<times> octets"
  sx_gcm_open :: "octets \<Rightarrow> octets \<Rightarrow> octets \<Rightarrow> octets \<Rightarrow> octets option"

text \<open>\<open>ENCRYPTION_KEY\<close> and \<open>ENCRYPTION_KEYS_PREVIOUS\<close>.\<close>

record seal_env =
  sv_key :: "string option"
  sv_previous :: "string option"

datatype seal_error = Key_malformed | Key_unknown | Not_configured | Secret_invalid

section \<open>Hexadecimal bytes\<close>

definition to_octets :: "string \<Rightarrow> octets" where
  "to_octets s = map (\<lambda>c. of_nat (code_unit c)) s"

definition of_octets :: "octets \<Rightarrow> string" where
  "of_octets b = map (\<lambda>w. char_of (unat w)) b"

definition hex_octet :: "8 word \<Rightarrow> string" where
  "hex_octet w = [hex_digit_char (unat w div 16), hex_digit_char (unat w mod 16)]"

definition to_hex :: "octets \<Rightarrow> string" where
  "to_hex b = concat (map hex_octet b)"

text \<open>\<open>Buffer.from(s, 'hex')\<close>: the pairs before the first that is none.\<close>

fun from_hex :: "string \<Rightarrow> octets" where
  "from_hex (x # y # s) = (if is_hex x \<and> is_hex y then of_nat (hex_val x * 16 + hex_val y) # from_hex s else [])"
| "from_hex s = []"

definition is_lower_hex :: "char \<Rightarrow> bool" where
  "is_lower_hex c \<longleftrightarrow> is_digit c \<or> 97 \<le> code_unit c \<and> code_unit c \<le> 102"

section \<open>Keys\<close>

definition parse_key :: "string \<Rightarrow> seal_error + octets" where
  "parse_key hex = (if length hex = 64 \<and> list_all is_hex hex then Inr (from_hex hex) else Inl Key_malformed)"

definition key_id_of :: "seal_crypto \<Rightarrow> octets \<Rightarrow> string" where
  "key_id_of x key = take 8 (to_hex (sx_sha256 x key))"

definition get_key :: "seal_env \<Rightarrow> seal_error + octets option" where
  "get_key v =
     (case sv_key v of
        None \<Rightarrow> Inr None
      | Some hex \<Rightarrow> if hex = [] then Inr None else bind_r (parse_key hex) (\<lambda>k. Inr (Some k)))"

definition previous_keys :: "seal_env \<Rightarrow> seal_error + octets list" where
  "previous_keys v =
     map_r parse_key (filter (\<lambda>s. s \<noteq> [])
       (map js_trim (js_split (CHR '','') (case sv_previous v of None \<Rightarrow> [] | Some s \<Rightarrow> s))))"

definition key_ring :: "seal_crypto \<Rightarrow> seal_env \<Rightarrow> seal_error + (string \<times> octets) list" where
  "key_ring x v =
     bind_r (get_key v) (\<lambda>current.
       case current of
         None \<Rightarrow> Inr []
       | Some k \<Rightarrow> bind_r (previous_keys v) (\<lambda>ks. Inr (map (\<lambda>key. (key_id_of x key, key)) (k # ks))))"

definition current_key_id :: "seal_crypto \<Rightarrow> seal_env \<Rightarrow> seal_error + string option" where
  "current_key_id x v = bind_r (get_key v) (\<lambda>k. Inr (map_option (key_id_of x) k))"

definition is_configured :: "seal_env \<Rightarrow> seal_error + bool" where
  "is_configured v = bind_r (get_key v) (\<lambda>k. Inr (k \<noteq> None))"

section \<open>Sealed values\<close>

record sealed_value =
  sd_kid :: string
  sd_iv :: string
  sd_tag :: string
  sd_text :: string

definition sealed_prefix :: string where
  "sealed_prefix = ''vb1''"

definition seal :: "seal_crypto \<Rightarrow> octets \<Rightarrow> octets \<Rightarrow> string \<Rightarrow> string" where
  "seal x key iv plain =
     (case sx_gcm_seal x key iv (to_octets plain) of
        (encrypted, tag) \<Rightarrow>
          sealed_prefix @ '':'' @ key_id_of x key @ '':'' @ to_hex iv @ '':'' @ to_hex tag @ '':'' @ to_hex encrypted)"

text \<open>\<open>[0-9a-f]{n}:\<close> at the front of a text.\<close>

definition hex_field :: "nat \<Rightarrow> string \<Rightarrow> (string \<times> string) option" where
  "hex_field n s =
     (if n < length s \<and> list_all is_lower_hex (take n s) \<and> s ! n = CHR '':''
      then Some (take n s, drop (Suc n) s) else None)"

text \<open>\<open>CIPHERTEXT_GLOBAL_RE\<close> at the front of a text, and what follows the match.\<close>

definition match_sealed :: "string \<Rightarrow> (sealed_value \<times> string) option" where
  "match_sealed s =
     (if \<not> starts_with (sealed_prefix @ '':'') s then None
      else Option.bind (hex_field 8 (drop 4 s)) (\<lambda>(kid, s).
           Option.bind (hex_field 24 s) (\<lambda>(iv, s).
           Option.bind (hex_field 32 s) (\<lambda>(tag, s).
             let n = 2 * (length (takeWhile is_lower_hex s) div 2)
             in Some (\<lparr>sd_kid = kid, sd_iv = iv, sd_tag = tag, sd_text = take n s\<rparr>, drop n s)))))"

text \<open>\<open>CIPHERTEXT_RE\<close>: the whole text is one sealed value.\<close>

definition sealed_whole :: "string \<Rightarrow> sealed_value option" where
  "sealed_whole s = (case match_sealed s of Some (v, rest) \<Rightarrow> if rest = [] then Some v else None | None \<Rightarrow> None)"

datatype open_error = No_key | No_authentication

definition open_sealed :: "seal_crypto \<Rightarrow> sealed_value \<Rightarrow> (string \<times> octets) list \<Rightarrow> open_error + string" where
  "open_sealed x v ring =
     (case map_of ring (sd_kid v) of
        None \<Rightarrow> Inl No_key
      | Some key \<Rightarrow>
          (case sx_gcm_open x key (from_hex (sd_iv v)) (from_hex (sd_text v)) (from_hex (sd_tag v)) of
             None \<Rightarrow> Inl No_authentication
           | Some plain \<Rightarrow> Inr (of_octets plain)))"

section \<open>Encryption and decryption\<close>

definition encrypt :: "seal_crypto \<Rightarrow> seal_env \<Rightarrow> octets \<Rightarrow> string \<Rightarrow> seal_error + string" where
  "encrypt x v iv plain =
     bind_r (get_key v) (\<lambda>k. case k of None \<Rightarrow> Inr plain | Some key \<Rightarrow> Inr (seal x key iv plain))"

definition decrypt :: "seal_crypto \<Rightarrow> seal_env \<Rightarrow> string \<Rightarrow> seal_error + string" where
  "decrypt x v text =
     bind_r (key_ring x v) (\<lambda>ring.
       if ring = [] then Inr text
       else case sealed_whole text of
              None \<Rightarrow> Inr text
            | Some w \<Rightarrow> (case open_sealed x w ring of Inl _ \<Rightarrow> Inr text | Inr plain \<Rightarrow> Inr plain))"

definition encrypt_strict :: "seal_crypto \<Rightarrow> seal_env \<Rightarrow> octets \<Rightarrow> string \<Rightarrow> seal_error + string" where
  "encrypt_strict x v iv plain =
     bind_r (get_key v) (\<lambda>k. if k = None then Inl Not_configured else encrypt x v iv plain)"

definition decrypt_strict :: "seal_crypto \<Rightarrow> seal_env \<Rightarrow> string \<Rightarrow> seal_error + string" where
  "decrypt_strict x v text =
     bind_r (key_ring x v) (\<lambda>ring.
       if ring = [] then Inl Not_configured
       else case sealed_whole text of
              None \<Rightarrow> Inl Secret_invalid
            | Some w \<Rightarrow>
                (case open_sealed x w ring of
                   Inr plain \<Rightarrow> Inr plain
                 | Inl No_key \<Rightarrow> Inl Key_unknown
                 | Inl No_authentication \<Rightarrow> Inl Secret_invalid))"

section \<open>Rotation\<close>







section \<open>Sealed values read back\<close>

lemma hex_digit_lower: "n < 16 \<Longrightarrow> is_lower_hex (hex_digit_char n) \<and> is_hex (hex_digit_char n) \<and> hex_val (hex_digit_char n) = n"
  by (auto simp: hex_digit_char_def is_lower_hex_def is_hex_def is_digit_def hex_val_def of_char_of Let_def)

lemma unat_octet: "unat (w :: 8 word) < 256"
  using unsigned_less [of w, where 'a = nat] by simp

lemma hex_octet_facts: "list_all is_lower_hex (hex_octet w)" "length (hex_octet w) = 2" "from_hex (hex_octet w @ s) = w # from_hex s"
proof -
  have "unat w div 16 < 16" "unat w mod 16 < 16" using unat_octet [of w] by auto
  note h = this [THEN hex_digit_lower]
  then show "list_all is_lower_hex (hex_octet w)" "length (hex_octet w) = 2" by (simp_all add: hex_octet_def)
  have "unat w div 16 * 16 + unat w mod 16 = unat w" by (rule div_mult_mod_eq)
  with h show "from_hex (hex_octet w @ s) = w # from_hex s" by (simp add: hex_octet_def)
qed

lemma to_hex_lower: "list_all is_lower_hex (to_hex b)"
  by (induction b) (simp_all add: to_hex_def hex_octet_facts)

lemma length_to_hex [simp]: "length (to_hex b) = 2 * length b"
  by (induction b) (simp_all add: to_hex_def hex_octet_facts)

lemma from_to_hex [simp]: "from_hex (to_hex b) = b"
  by (induction b) (simp_all add: to_hex_def hex_octet_facts)

lemma of_to_octets [simp]: "of_octets (to_octets s) = s"
proof (induction s)
  case (Cons c s)
  have "unat (of_nat (code_unit c) :: 8 word) = code_unit c" by (simp add: unat_of_nat)
  with Cons show ?case by (simp add: of_octets_def to_octets_def)
qed (simp add: of_octets_def to_octets_def)

text \<open>What the code relies on: digests of a fixed size, and a seal that its key opens.\<close>

definition seal_laws :: "seal_crypto \<Rightarrow> bool" where
  "seal_laws x \<longleftrightarrow> (\<forall>k. length (sx_sha256 x k) = 32) \<and>
     (\<forall>k iv p. length iv = 12 \<longrightarrow> (case sx_gcm_seal x k iv p of (c, t) \<Rightarrow> length t = 16 \<and> sx_gcm_open x k iv c t = Some p))"

lemma seal_lawsD:
  assumes "seal_laws x" and "length iv = 12" and "sx_gcm_seal x k iv p = (c, t)"
  shows "length t = 16" and "sx_gcm_open x k iv c t = Some p"
proof -
  have "case sx_gcm_seal x k iv p of (c, t) \<Rightarrow> length t = 16 \<and> sx_gcm_open x k iv c t = Some p"
    using assms(1,2) by (simp add: seal_laws_def)
  then show "length t = 16" and "sx_gcm_open x k iv c t = Some p" by (simp_all add: assms(3))
qed

lemma key_id_shape: "seal_laws x \<Longrightarrow> length (key_id_of x k) = 8 \<and> list_all is_lower_hex (key_id_of x k)"
  using to_hex_lower [of "sx_sha256 x k"] by (auto simp: seal_laws_def key_id_of_def list_all_iff dest: in_set_takeD)

lemma hex_field_fits: "length h = n \<Longrightarrow> list_all is_lower_hex h \<Longrightarrow> hex_field n (h @ CHR '':'' # s) = Some (h, s)"
  by (simp add: hex_field_def nth_append)

lemma match_seal:
  assumes laws: "seal_laws x" and iv: "length iv = 12" and gcm: "sx_gcm_seal x key iv (to_octets plain) = (c, t)"
    and stop: "rest = [] \<or> \<not> is_lower_hex (hd rest)"
  shows "match_sealed (seal x key iv plain @ rest) =
    Some (\<lparr>sd_kid = key_id_of x key, sd_iv = to_hex iv, sd_tag = to_hex t, sd_text = to_hex c\<rparr>, rest)"
proof -
  have t: "length t = 16" by (rule seal_lawsD [OF laws iv gcm])
  have e: "seal x key iv plain @ rest = ''vb1:'' @ (key_id_of x key @ CHR '':'' # (to_hex iv @ CHR '':'' # (to_hex t @ CHR '':'' # (to_hex c @ rest))))"
    by (simp add: seal_def gcm sealed_prefix_def)
  have "takeWhile is_lower_hex (to_hex c @ rest) = to_hex c"
    using to_hex_lower [of c] stop by (cases rest) (simp_all add: takeWhile_append2 list_all_iff)
  then have w: "length (takeWhile is_lower_hex (to_hex c @ rest)) = 2 * length c" by simp
  have f: "hex_field 8 (key_id_of x key @ CHR '':'' # s) = Some (key_id_of x key, s)"
    "hex_field 24 (to_hex iv @ CHR '':'' # s) = Some (to_hex iv, s)" "hex_field 32 (to_hex t @ CHR '':'' # s) = Some (to_hex t, s)" for s
    using key_id_shape [OF laws, of key] iv t by (simp_all add: hex_field_fits to_hex_lower)
  show ?thesis unfolding match_sealed_def e by (simp add: f w starts_with_def sealed_prefix_def Let_def)
qed

lemma open_seal:
  assumes laws: "seal_laws x" and iv: "length iv = 12" and key: "map_of ring (key_id_of x key) = Some key"
  shows "\<exists>w. sealed_whole (seal x key iv plain) = Some w \<and> sd_kid w = key_id_of x key \<and> open_sealed x w ring = Inr plain \<and>
    match_sealed (seal x key iv plain) = Some (w, [])"
proof -
  obtain c t where gcm: "sx_gcm_seal x key iv (to_octets plain) = (c, t)" by force
  have "sx_gcm_open x key iv c t = Some (to_octets plain)" by (rule seal_lawsD [OF laws iv gcm])
  with match_seal [OF laws iv gcm, of "[]"] key show ?thesis by (simp add: sealed_whole_def open_sealed_def)
qed



text \<open>
  C99: a secret sealed under one configuration is read back unchanged under every later one whose ring still has the key,
  however many keys were put before it, as long as no other key there has its id.
\<close>

theorem sealed_secret_survives:
  assumes "seal_laws x" and "length iv = 12"
    and "get_key v = Inr (Some k)" and "encrypt_strict x v iv plain = Inr sealed"
    and "key_ring x v' = Inr ring" and "map_of ring (key_id_of x k) = Some k"
  shows "decrypt_strict x v' sealed = Inr plain"
proof -
  have s: "sealed = seal x k iv plain" using assms(3,4) by (simp add: encrypt_strict_def encrypt_def)
  have "ring \<noteq> []" using assms(6) by auto
  with open_seal [OF assms(1,2,6), of plain] show ?thesis by (auto simp: decrypt_strict_def assms(5) s)
qed


text \<open>A crypto library to evaluate with: the tag is the key itself.\<close>

definition toy_crypto :: seal_crypto where
  "toy_crypto = \<lparr>sx_sha256 = (\<lambda>k. take 32 (k @ replicate 32 0)), sx_gcm_seal = (\<lambda>k iv p. (p, take 16 (k @ replicate 16 0))),
     sx_gcm_open = (\<lambda>k iv c t. if t = take 16 (k @ replicate 16 0) then Some c else None)\<rparr>"

lemma toy_laws: "seal_laws toy_crypto"
  by (auto simp: seal_laws_def toy_crypto_def min_def)

definition toy_key :: "char \<Rightarrow> string" where
  "toy_key c = replicate 64 c"

definition old_env :: seal_env where
  "old_env = \<lparr>sv_key = Some (toy_key (CHR ''1'')), sv_previous = None\<rparr>"

definition both_env :: seal_env where
  "both_env = \<lparr>sv_key = Some (toy_key (CHR ''2'')), sv_previous = Some (toy_key (CHR ''1''))\<rparr>"

definition new_env :: seal_env where
  "new_env = \<lparr>sv_key = Some (toy_key (CHR ''2'')), sv_previous = None\<rparr>"

lemma from_hex_replicate: "is_hex c \<Longrightarrow> from_hex (replicate (2 * n) c) = replicate n (of_nat (hex_val c * 16 + hex_val c))"
  by (induction n) simp_all

lemma parse_toy: "is_hex c \<Longrightarrow> parse_key (toy_key c) = Inr (replicate 32 (of_nat (hex_val c * 16 + hex_val c)))"
  using from_hex_replicate [of c 32] by (simp add: parse_key_def toy_key_def list_all_iff)

lemma toy_digits: "is_hex (CHR ''1'')" "is_hex (CHR ''2'')" "hex_val (CHR ''1'') = 1" "hex_val (CHR ''2'') = 2"
  by (simp_all add: is_hex_def is_digit_def hex_val_def)

lemma toy_key_text: "toy_key c \<noteq> []" "js_trim (toy_key (CHR ''1'')) = toy_key (CHR ''1'')"
    "js_split (CHR '','') (toy_key (CHR ''1'')) = [toy_key (CHR ''1'')]"
  by (simp_all add: toy_key_def js_trim_id js_ws_def js_split_fresh)

lemma toy_id: "key_id_of toy_crypto (replicate 32 w) = concat (replicate 4 (hex_octet w))"
proof -
  have "take (2 * n) (to_hex (replicate (n + m) w)) = concat (replicate n (hex_octet w))" for n m
    by (induction n) (simp_all add: to_hex_def hex_octet_facts)
  from this [of 4 28] show ?thesis by (simp add: key_id_of_def toy_crypto_def)
qed

lemma toy_ids: "key_id_of toy_crypto (replicate 32 17) = ''11111111''" "key_id_of toy_crypto (replicate 32 34) = ''22222222''"
proof -
  have "hex_octet 17 = ''11''" "hex_octet 34 = ''22''" by code_simp+
  then show "key_id_of toy_crypto (replicate 32 17) = ''11111111''" "key_id_of toy_crypto (replicate 32 34) = ''22222222''"
    unfolding toy_id by (simp_all add: eval_nat_numeral)
qed

lemma trim_nothing: "js_trim [] = []"
  by (simp add: js_trim_def)

lemma toy_rings:
  "get_key old_env = Inr (Some (replicate 32 17))" "get_key both_env = Inr (Some (replicate 32 34))"
  "get_key new_env = Inr (Some (replicate 32 34))"
  "key_ring toy_crypto both_env = Inr [(''22222222'', replicate 32 34), (''11111111'', replicate 32 17)]"
  "key_ring toy_crypto new_env = Inr [(''22222222'', replicate 32 34)]"
  using toy_ids by (simp_all add: get_key_def key_ring_def previous_keys_def old_env_def both_env_def new_env_def toy_key_text
      parse_toy toy_digits trim_nothing)

lemma sealed_secret_survives_witness:
  "\<exists>sealed. encrypt_strict toy_crypto old_env (replicate 12 0) ''pw'' = Inr sealed \<and>
     decrypt_strict toy_crypto both_env sealed = Inr ''pw''"
proof -
  obtain sealed where s: "encrypt_strict toy_crypto old_env (replicate 12 0) ''pw'' = Inr sealed"
    by (simp add: encrypt_strict_def encrypt_def toy_rings)
  have "map_of [(''22222222'', replicate 32 (34 :: 8 word)), (''11111111'', replicate 32 17)]
      (key_id_of toy_crypto (replicate 32 17)) = Some (replicate 32 17)" by (simp only: toy_ids) simp
  from sealed_secret_survives [OF toy_laws _ toy_rings(1) s toy_rings(4) this] s show ?thesis by simp
qed


end
