(* ===== verification/Two_Factor.thy ===== *)
theory Two_Factor
  imports Sealed_Secrets
begin

text \<open>
  The second factor: \<open>src/services/twoFactorService.js\<close>.

  HMAC, HKDF, \<open>bcrypt\<close> and random bytes come from the platform: they are the fields of \<open>tfa_crypto\<close> and arguments.
  A clock is in milliseconds; a time step is the half minute it falls in. The database executes one statement at a time:
  \<open>verify_read\<close> is the SELECT of \<open>verifyCode\<close> and what it decides, \<open>claim\<close> its UPDATE, and other requests may come
  between them.
\<close>

unbundle bit_operations_syntax

record tfa_crypto =
  fx_seal :: seal_crypto
  fx_hmac_sha1 :: "octets \<Rightarrow> octets \<Rightarrow> octets"
  fx_pepper :: "octets \<Rightarrow> octets"
  fx_code_hash :: "octets \<Rightarrow> string \<Rightarrow> string"
  fx_password_matches :: "string \<Rightarrow> string \<Rightarrow> bool"

record tfa_user =
  fu_password_hash :: string
  fu_secret :: "string option"
  fu_enabled :: bool
  fu_backup :: "string list"
  fu_last_step :: "nat option"

datatype tfa_error =
    User_not_found | Invalid_password | Already_enabled | No_secret | Invalid_code | Not_enabled | Code_already_used
  | Secret_error seal_error | Step_out_of_range

section \<open>One-time passwords\<close>

definition totp_period :: nat where
  "totp_period = 30"

text \<open>\<open>writeUInt32BE\<close> throws past 32 bits.\<close>

definition time_octets :: "int \<Rightarrow> octets option" where
  "time_octets t =
     (if t < 0 \<or> 2 ^ 32 \<le> t then None
      else Some ([0, 0, 0, 0] @ map (\<lambda>k. of_int (t div 2 ^ k)) [24, 16, 8, 0]))"

text \<open>A byte past the end reads as 0 in a bit operation.\<close>

definition octet_at :: "octets \<Rightarrow> nat \<Rightarrow> 32 word" where
  "octet_at h i = (if i < length h then ucast (h ! i) else 0)"

definition truncate_hash :: "octets \<Rightarrow> 32 word" where
  "truncate_hash h =
     (let k = unat (octet_at h (length h - 1) AND 0x0f) in
      push_bit 24 (octet_at h k AND 0x7f) OR push_bit 16 (octet_at h (k + 1) AND 0xff) OR
      push_bit 8 (octet_at h (k + 2) AND 0xff) OR (octet_at h (k + 3) AND 0xff))"

definition otp_text :: "nat \<Rightarrow> string" where
  "otp_text n = replicate (6 - length (show_nat n)) (CHR ''0'') @ show_nat n"

definition generate_totp :: "tfa_crypto \<Rightarrow> string \<Rightarrow> int \<Rightarrow> string option" where
  "generate_totp x hex_secret t =
     map_option (\<lambda>b. otp_text (unat (truncate_hash (fx_hmac_sha1 x (from_hex hex_secret) b)) mod 1000000)) (time_octets t)"

definition current_step :: "nat \<Rightarrow> nat" where
  "current_step now = now div 1000 div totp_period"

text \<open>The step of the first match among the one before, the current one and the one after.\<close>

fun match_steps :: "tfa_crypto \<Rightarrow> string \<Rightarrow> string \<Rightarrow> int list \<Rightarrow> tfa_error + nat option" where
  "match_steps x hex_secret code [] = Inr None"
| "match_steps x hex_secret code (t # ts) =
     (case generate_totp x hex_secret t of
        None \<Rightarrow> Inl Step_out_of_range
      | Some expected \<Rightarrow> if code = expected then Inr (Some (nat t)) else match_steps x hex_secret code ts)"

definition match_totp_step :: "tfa_crypto \<Rightarrow> string \<Rightarrow> string \<Rightarrow> nat \<Rightarrow> tfa_error + nat option" where
  "match_totp_step x hex_secret code now =
     (let s = int (current_step now) in match_steps x hex_secret code [s - 1, s, s + 1])"

section \<open>Secrets and backup codes\<close>

definition plaintext_secret :: "string \<Rightarrow> bool" where
  "plaintext_secret s \<longleftrightarrow> length s = 40 \<and> list_all is_lower_hex s"

definition seal_totp_secret :: "tfa_crypto \<Rightarrow> seal_env \<Rightarrow> octets \<Rightarrow> string \<Rightarrow> tfa_error + string" where
  "seal_totp_secret x v iv secret =
     (case bind_r (is_configured v) (\<lambda>c. if c then encrypt_strict (fx_seal x) v iv secret else Inr secret) of
        Inl e \<Rightarrow> Inl (Secret_error e) | Inr s \<Rightarrow> Inr s)"

definition open_totp_secret :: "tfa_crypto \<Rightarrow> seal_env \<Rightarrow> string \<Rightarrow> tfa_error + string" where
  "open_totp_secret x v stored =
     (if plaintext_secret stored then Inr stored
      else case decrypt_strict (fx_seal x) v stored of Inl e \<Rightarrow> Inl (Secret_error e) | Inr s \<Rightarrow> Inr s)"

fun quads :: "string \<Rightarrow> string list" where
  "quads (a # b # c # d # s) = [a, b, c, d] # quads s"
| "quads s = []"

definition is_upper_hex :: "char \<Rightarrow> bool" where
  "is_upper_hex c \<longleftrightarrow> is_digit c \<or> 65 \<le> code_unit c \<and> code_unit c \<le> 70"

definition normalize_backup_code :: "string \<Rightarrow> string option" where
  "normalize_backup_code code =
     (let compact = filter (\<lambda>c. \<not> js_ws c \<and> c \<noteq> CHR ''-'') (js_upper (js_trim code)) in
      if length compact = 16 \<and> list_all is_upper_hex compact then Some (js_join ''-'' (quads compact)) else None)"

definition development_pepper :: octets where
  "development_pepper = to_octets ''vigabss-development-backup-code-pepper''"

definition backup_code_peppers :: "tfa_crypto \<Rightarrow> seal_env \<Rightarrow> tfa_error + octets list" where
  "backup_code_peppers x v =
     (case key_ring (fx_seal x) v of
        Inl e \<Rightarrow> Inl (Secret_error e)
      | Inr ring \<Rightarrow> Inr (if ring = [] then [development_pepper] else map (\<lambda>(_, key). fx_pepper x key) ring))"

text \<open>\<open>random\<close> is the bytes drawn for each code.\<close>

definition generate_backup_codes :: "octets list \<Rightarrow> string list" where
  "generate_backup_codes random = map (\<lambda>b. js_join ''-'' (quads (js_upper (to_hex b)))) random"

definition hash_codes :: "tfa_crypto \<Rightarrow> seal_env \<Rightarrow> string list \<Rightarrow> tfa_error + string list" where
  "hash_codes x v codes = bind_r (backup_code_peppers x v) (\<lambda>ps. Inr (map (fx_code_hash x (hd ps)) codes))"

section \<open>Verification\<close>

datatype tfa_claim = Claim_step nat | Claim_backup string

text \<open>What \<open>verifyCode\<close> decides from the row it read.\<close>

definition verify_read :: "tfa_crypto \<Rightarrow> seal_env \<Rightarrow> tfa_user option \<Rightarrow> string option \<Rightarrow> nat \<Rightarrow> tfa_error + tfa_claim" where
  "verify_read x v row code now =
     (case row of
        None \<Rightarrow> Inl User_not_found
      | Some u \<Rightarrow>
          if \<not> fu_enabled u then Inl Not_enabled
          else (case code of
            None \<Rightarrow> Inl Invalid_code
          | Some typed \<Rightarrow>
              if js_trim typed = [] then Inl Invalid_code
              else bind_r (case fu_secret u of
                     None \<Rightarrow> Inr None
                   | Some stored \<Rightarrow> if stored = [] then Inr None
                       else bind_r (open_totp_secret x v stored) (\<lambda>s. match_totp_step x s (js_trim typed) now)) (\<lambda>step.
                case step of
                  Some n \<Rightarrow>
                    if (case fu_last_step u of None \<Rightarrow> True | Some l \<Rightarrow> l < n) then Inr (Claim_step n) else Inl Code_already_used
                | None \<Rightarrow>
                    (case normalize_backup_code (js_trim typed) of
                       None \<Rightarrow> Inl Invalid_code
                     | Some c \<Rightarrow>
                         bind_r (backup_code_peppers x v) (\<lambda>ps.
                           case find (\<lambda>h. h \<in> set (fu_backup u)) (map (\<lambda>p. fx_code_hash x p c) ps) of
                             Some h \<Rightarrow> Inr (Claim_backup h)
                           | None \<Rightarrow> Inl Invalid_code)))))"

text \<open>The UPDATE of a claim: the row after it, and whether it changed one.\<close>

definition claim_row :: "tfa_claim \<Rightarrow> tfa_user \<Rightarrow> tfa_user option" where
  "claim_row c u =
     (case c of
        Claim_step n \<Rightarrow>
          if fu_enabled u \<and> (case fu_last_step u of None \<Rightarrow> True | Some l \<Rightarrow> l < n) then Some (u\<lparr>fu_last_step := Some n\<rparr>) else None
      | Claim_backup h \<Rightarrow>
          if fu_enabled u \<and> h \<in> set (fu_backup u) then Some (u\<lparr>fu_backup := remove1 h (fu_backup u)\<rparr>) else None)"

definition claim_refusal :: "tfa_claim \<Rightarrow> tfa_error" where
  "claim_refusal c = (case c of Claim_step _ \<Rightarrow> Code_already_used | Claim_backup _ \<Rightarrow> Invalid_code)"

text \<open>A request that nothing comes between.\<close>

definition verify_code :: "tfa_crypto \<Rightarrow> seal_env \<Rightarrow> tfa_user option \<Rightarrow> string option \<Rightarrow> nat \<Rightarrow> tfa_error + tfa_claim \<times> tfa_user" where
  "verify_code x v row code now =
     bind_r (verify_read x v row code now) (\<lambda>c.
       case row of
         None \<Rightarrow> Inl (claim_refusal c)
       | Some u \<Rightarrow> (case claim_row c u of None \<Rightarrow> Inl (claim_refusal c) | Some u' \<Rightarrow> Inr (c, u')))"

section \<open>Enrolment\<close>

definition store_secret :: "string \<Rightarrow> tfa_user \<Rightarrow> tfa_user" where
  "store_secret sealed u = u\<lparr>fu_secret := Some sealed, fu_enabled := False, fu_last_step := None\<rparr>"

text \<open>\<open>code\<close> and \<open>password\<close> are the parts of \<open>reauth\<close> that are non-empty texts.\<close>

definition generate_secret ::
    "tfa_crypto \<Rightarrow> seal_env \<Rightarrow> tfa_user option \<Rightarrow> string option \<Rightarrow> string option \<Rightarrow> octets \<Rightarrow> octets \<Rightarrow> nat \<Rightarrow> tfa_error + tfa_user" where
  "generate_secret x v row code password random iv now =
     (case row of
        None \<Rightarrow> Inl User_not_found
      | Some u \<Rightarrow>
          bind_r (if \<not> fu_enabled u then Inr u
                  else case code of
                    Some c \<Rightarrow> bind_r (verify_code x v row (Some c) now) (\<lambda>(_, u'). Inr u')
                  | None \<Rightarrow>
                      (case password of
                         Some p \<Rightarrow> if fx_password_matches x p (fu_password_hash u) then Inr u else Inl Invalid_password
                       | None \<Rightarrow> Inl Already_enabled)) (\<lambda>u.
            bind_r (seal_totp_secret x v iv (to_hex random)) (\<lambda>sealed. Inr (store_secret sealed u))))"

definition verify_and_enable ::
    "tfa_crypto \<Rightarrow> seal_env \<Rightarrow> tfa_user option \<Rightarrow> string option \<Rightarrow> octets list \<Rightarrow> nat \<Rightarrow> tfa_error + string list \<times> tfa_user" where
  "verify_and_enable x v row code random now =
     (case row of
        None \<Rightarrow> Inl No_secret
      | Some u \<Rightarrow>
          (case fu_secret u of
             None \<Rightarrow> Inl No_secret
           | Some stored \<Rightarrow>
               if stored = [] then Inl No_secret
               else bind_r (case code of
                      None \<Rightarrow> Inr None
                    | Some typed \<Rightarrow> bind_r (open_totp_secret x v stored) (\<lambda>s. match_totp_step x s (js_trim typed) now)) (\<lambda>step.
                 case step of
                   None \<Rightarrow> Inl Invalid_code
                 | Some n \<Rightarrow>
                     bind_r (hash_codes x v (generate_backup_codes random)) (\<lambda>hashes.
                       Inr (generate_backup_codes random, u\<lparr>fu_enabled := True, fu_backup := hashes, fu_last_step := Some n\<rparr>)))))"

definition disable_tfa :: "tfa_user \<Rightarrow> tfa_user" where
  "disable_tfa u = u\<lparr>fu_enabled := False, fu_secret := None, fu_backup := [], fu_last_step := None\<rparr>"

definition tfa_status :: "tfa_user option \<Rightarrow> bool" where
  "tfa_status row = (case row of None \<Rightarrow> False | Some u \<Rightarrow> fu_enabled u)"

definition regenerate_backup_codes ::
    "tfa_crypto \<Rightarrow> seal_env \<Rightarrow> tfa_user option \<Rightarrow> string option \<Rightarrow> octets list \<Rightarrow> nat \<Rightarrow> tfa_error + string list \<times> tfa_user" where
  "regenerate_backup_codes x v row code random now =
     bind_r (verify_code x v row code now) (\<lambda>(_, u).
       bind_r (hash_codes x v (generate_backup_codes random)) (\<lambda>hashes.
         Inr (generate_backup_codes random, u\<lparr>fu_backup := hashes\<rparr>)))"

section \<open>Base32\<close>

definition base32_char :: "nat \<Rightarrow> char" where
  "base32_char n = ''ABCDEFGHIJKLMNOPQRSTUVWXYZ234567'' ! n"

definition octet_bits :: "8 word \<Rightarrow> bool list" where
  "octet_bits w = map (bit w) [7, 6, 5, 4, 3, 2, 1, 0]"

definition bits_val :: "bool list \<Rightarrow> nat" where
  "bits_val bs = foldl (\<lambda>a b. a * 2 + of_bool b) 0 bs"

function base32_bits :: "bool list \<Rightarrow> string" where
  "base32_bits bits =
     (if bits = [] then []
      else base32_char (bits_val (take 5 bits @ replicate (5 - length (take 5 bits)) False)) # base32_bits (drop 5 bits))"
  by pat_completeness auto

termination
  by (relation "measure length") auto

declare base32_bits.simps [simp del]

definition hex_to_base32 :: "string \<Rightarrow> string" where
  "hex_to_base32 hex = base32_bits (concat (map octet_bits (from_hex hex)))"

end
