(* ===== verification/Two_Factor_Safety.thy ===== *)
theory Two_Factor_Safety
  imports Two_Factor
begin

text \<open>
  What the second factor promises: the value of a one-time password is that of RFC 6238, the secret shown to the user
  is the one that is stored, and a code opens one session only, whatever requests run at the same time.
\<close>

unbundle bit_operations_syntax

section \<open>Single use under concurrency\<close>




fun steps_of :: "tfa_claim list \<Rightarrow> nat list" where
  "steps_of [] = []"
| "steps_of (Claim_step n # cs) = n # steps_of cs"
| "steps_of (Claim_backup h # cs) = steps_of cs"

fun backups_of :: "tfa_claim list \<Rightarrow> string list" where
  "backups_of [] = []"
| "backups_of (Claim_step n # cs) = backups_of cs"
| "backups_of (Claim_backup h # cs) = h # backups_of cs"

lemma steps_of_append [simp]: "steps_of (a @ b) = steps_of a @ steps_of b"
  by (induction a rule: steps_of.induct) simp_all

lemma backups_of_append [simp]: "backups_of (a @ b) = backups_of a @ backups_of b"
  by (induction a rule: backups_of.induct) simp_all















section \<open>Enrolling again\<close>

lemma match_steps_typed: "match_steps x secret code ts = Inr (Some n) \<Longrightarrow> code \<noteq> []"
proof (induction ts)
  case (Cons t ts)
  then show ?case by (auto simp: generate_totp_def otp_text_def split: option.splits if_splits)
qed simp

text \<open>
  C99: \<open>verifyAndEnable\<close> does not ask whether the account is enrolled already. With the password of an earlier step of
  the window, even one that was used, it hands out new backup codes and takes the last used step back, and a password
  that was refused as used is accepted again.
\<close>

theorem enrolling_again_reopens_codes:
  assumes "fu_enabled u" and "fu_secret u = Some stored" and "stored \<noteq> []" and "open_totp_secret x v stored = Inr secret"
    and "fu_last_step u = Some n"
    and "match_totp_step x secret (js_trim used) now = Inr (Some n)"
    and "match_totp_step x secret (js_trim older) now = Inr (Some m)" and "m < n"
    and "hash_codes x v (generate_backup_codes random) = Inr hashes"
  shows "verify_code x v (Some u) (Some used) now = Inl Code_already_used \<and>
    (\<exists>u'. verify_and_enable x v (Some u) (Some older) random now = Inr (generate_backup_codes random, u') \<and>
       fu_backup u' = hashes \<and> fu_last_step u' = Some m \<and>
       (\<exists>u''. verify_code x v (Some u') (Some used) now = Inr (Claim_step n, u'')))"
proof -
  have "js_trim used \<noteq> []" using assms(6) unfolding match_totp_step_def Let_def by (rule match_steps_typed)
  then have read: "verify_read x v (Some w) (Some used) now =
      (if (case fu_last_step w of None \<Rightarrow> True | Some l \<Rightarrow> l < n) then Inr (Claim_step n) else Inl Code_already_used)"
    if "fu_enabled w" "fu_secret w = Some stored" for w
    using that assms(3,4,6) by (simp add: verify_read_def)
  define u' where "u' = u\<lparr>fu_enabled := True, fu_backup := hashes, fu_last_step := Some m\<rparr>"
  have "verify_and_enable x v (Some u) (Some older) random now = Inr (generate_backup_codes random, u')"
    using assms(2,3,4,7,9) by (simp add: verify_and_enable_def u'_def)
  moreover have "\<exists>u''. verify_code x v (Some u') (Some used) now = Inr (Claim_step n, u'')"
    using read [of u'] assms(2,8) by (simp add: verify_code_def u'_def claim_row_def)
  moreover have "verify_code x v (Some u) (Some used) now = Inl Code_already_used"
    using read [OF assms(1,2)] assms(5) by (simp add: verify_code_def)
  ultimately show ?thesis by (auto simp: u'_def)
qed

section \<open>The value of a one-time password\<close>

text \<open>The dynamic truncation of RFC 4226, on the numbers of the bytes.\<close>

definition rfc_truncation :: "octets \<Rightarrow> nat" where
  "rfc_truncation h =
     (let k = unat (last h) mod 16 in
      unat (h ! k) mod 128 * 2 ^ 24 + unat (h ! (k + 1)) * 2 ^ 16 + unat (h ! (k + 2)) * 2 ^ 8 + unat (h ! (k + 3)))"

lemma low_bits: "unat (w AND 0x0f) = unat w mod 16" "unat (w AND 0x7f) = unat w mod 128" "w AND 0xff = take_bit 8 w" for w :: "32 word"
proof -
  have "w AND 0x0f = take_bit 4 w" "w AND 0x7f = take_bit 7 w" by (simp_all add: take_bit_eq_mask mask_eq_exp_minus_1)
  then show "unat (w AND 0x0f) = unat w mod 16" "unat (w AND 0x7f) = unat w mod 128"
    by (simp_all only: unsigned_take_bit_eq) (simp_all add: take_bit_eq_mod)
  show "w AND 0xff = take_bit 8 w" by (simp add: take_bit_eq_mask mask_eq_exp_minus_1)
qed

lemma octet_mask: "octet_at h i AND 0xff = octet_at h i"
proof -
  have "unat (octet_at h i) < 256" by (simp add: octet_at_def unsigned_ucast_eq take_bit_nat_eq_self unat_octet order_less_le_trans [OF unat_octet])
  then have "take_bit 8 (unat (octet_at h i)) = unat (octet_at h i)" by (simp add: take_bit_nat_eq_self)
  then show ?thesis unfolding low_bits by (metis unsigned_take_bit_eq word_unat_eq_iff)
qed

lemma unat_octet_at: "i < length h \<Longrightarrow> unat (octet_at h i) = unat (h ! i)"
  by (simp add: octet_at_def unsigned_ucast_eq take_bit_nat_eq_self unat_octet order_less_le_trans [OF unat_octet])

lemma join_four:
  fixes a b c d :: "32 word"
  assumes "unat a < 128" and "unat b < 256" and "unat c < 256" and "unat d < 256"
  shows "unat (push_bit 24 a OR push_bit 16 b OR push_bit 8 c OR d) =
    unat a * 2 ^ 24 + unat b * 2 ^ 16 + unat c * 2 ^ 8 + unat d"
proof -
  have hi: "\<not> bit w n" if "unat w < 2 ^ k" "k \<le> n" for w :: "32 word" and n k
  proof -
    have "unat w < 2 ^ n" by (rule order_less_le_trans [OF that(1)]) (rule power_increasing [OF that(2)], simp)
    then have "take_bit n (unat w) = unat w" by (simp add: take_bit_nat_eq_self)
    then have "\<not> bit (unat w) n" by (metis bit_take_bit_iff less_irrefl)
    then show ?thesis by (simp add: bit_unsigned_iff)
  qed
  have bits: "\<not> bit a n" if "7 \<le> n" for n using hi [of a 7 n] assms(1) that by simp
  have bitsb: "\<not> bit b n" if "8 \<le> n" for n using hi [of b 8 n] assms(2) that by simp
  have bitsc: "\<not> bit c n" if "8 \<le> n" for n using hi [of c 8 n] assms(3) that by simp
  have bitsd: "\<not> bit d n" if "8 \<le> n" for n using hi [of d 8 n] assms(4) that by simp
  have "push_bit 24 a OR push_bit 16 b OR push_bit 8 c OR d = push_bit 24 a + push_bit 16 b + push_bit 8 c + d"
  proof -
    have 1: "push_bit 24 a OR push_bit 16 b = push_bit 24 a + push_bit 16 b"
      by (rule disjunctive_add_eq_or [symmetric], rule bit_eqI) (use bitsb in \<open>auto simp: bit_simps\<close>)
    have 2: "(push_bit 24 a OR push_bit 16 b) OR push_bit 8 c = (push_bit 24 a OR push_bit 16 b) + push_bit 8 c"
      by (rule disjunctive_add_eq_or [symmetric], rule bit_eqI) (use bitsc in \<open>auto simp: bit_simps\<close>)
    have 3: "(push_bit 24 a OR push_bit 16 b OR push_bit 8 c) OR d = (push_bit 24 a OR push_bit 16 b OR push_bit 8 c) + d"
      by (rule disjunctive_add_eq_or [symmetric], rule bit_eqI) (use bitsd in \<open>auto simp: bit_simps\<close>)
    have "push_bit 24 a OR push_bit 16 b OR push_bit 8 c OR d = (push_bit 24 a OR push_bit 16 b OR push_bit 8 c) OR d"
      by (simp only: or.assoc)
    also have "\<dots> = ((push_bit 24 a OR push_bit 16 b) OR push_bit 8 c) + d" by (simp only: 3) (simp only: or.assoc)
    finally have "push_bit 24 a OR push_bit 16 b OR push_bit 8 c OR d = ((push_bit 24 a OR push_bit 16 b) OR push_bit 8 c) + d" .
    then show ?thesis unfolding 2 unfolding 1 .
  qed
  moreover have "unat (push_bit 24 a) = unat a * 2 ^ 24" "unat (push_bit 16 b) = unat b * 2 ^ 16" "unat (push_bit 8 c) = unat c * 2 ^ 8"
    using assms by (simp_all only: unsigned_push_bit_eq) (simp_all add: push_bit_eq_mult take_bit_nat_eq_self)
  ultimately show ?thesis using assms by (simp add: unat_word_ariths)
qed

text \<open>
  C99: with a digest of twenty bytes a one-time password is the six decimal digits of the dynamic truncation of RFC 4226,
  for every step a 32-bit counter holds.
\<close>

theorem totp_is_rfc6238:
  assumes "0 \<le> t" and "t < 2 ^ 32" and "length (fx_hmac_sha1 x (from_hex secret) ([0, 0, 0, 0] @ map (\<lambda>k. of_int (t div 2 ^ k)) [24, 16, 8, 0])) = 20"
  shows "\<exists>code. generate_totp x secret t = Some code \<and> length code = 6 \<and> list_all is_digit code \<and>
    digits_val code = rfc_truncation (fx_hmac_sha1 x (from_hex secret)
      ([0, 0, 0, 0] @ map (\<lambda>k. of_int (t div 2 ^ k)) [24, 16, 8, 0])) mod 1000000"
proof -
  define h where "h = fx_hmac_sha1 x (from_hex secret) ([0, 0, 0, 0] @ map (\<lambda>k. of_int (t div 2 ^ k)) [24, 16, 8, 0])"
  have len: "length h = 20" using assms(3) by (simp add: h_def)
  then have last: "h ! (length h - 1) = last h" by (subst last_conv_nth) auto
  define k where "k = unat (last h) mod 16"
  have k: "unat (octet_at h (length h - 1) AND 0x0f) = k"
    using len last by (simp only: low_bits) (simp add: unat_octet_at k_def)
  have in_range: "k + 3 < length h" using len by (simp add: k_def)
  have a: "unat (octet_at h k AND 0x7f) = unat (h ! k) mod 128"
    using in_range by (simp only: low_bits) (simp add: unat_octet_at)
  have "unat (truncate_hash h) = rfc_truncation h"
    unfolding truncate_hash_def Let_def k octet_mask
    by (subst join_four) (use in_range unat_octet in \<open>simp_all add: a unat_octet_at rfc_truncation_def k_def [symmetric] Let_def\<close>)
  then have code: "generate_totp x secret t = Some (otp_text (rfc_truncation h mod 1000000))"
    using assms(1,2) by (simp add: generate_totp_def time_octets_def h_def)
  have small: "length (show_nat n) \<le> 6" if "n < 1000000" for n
    using that by (simp add: show_nat.simps)
  show ?thesis
    unfolding code h_def [symmetric] using small [of "rfc_truncation h mod 1000000"] show_nat_digits
    by (auto simp: otp_text_def digits_val_leading list_all_iff is_digit_def)
qed

section \<open>Base32\<close>

text \<open>How an authenticator reads the text of a secret (RFC 4648): five bits for a character, whole bytes only.\<close>

definition base32_val :: "char \<Rightarrow> nat" where
  "base32_val c = (let n = code_unit c in if 65 \<le> n \<and> n \<le> 90 then n - 65 else n - 50 + 26)"

definition five_bits :: "nat \<Rightarrow> bool list" where
  "five_bits n = map (bit n) [4, 3, 2, 1, 0]"

fun octets_of_bits :: "bool list \<Rightarrow> octets" where
  "octets_of_bits (a # b # c # d # e # f # g # h # s) = of_nat (bits_val [a, b, c, d, e, f, g, h]) # octets_of_bits s"
| "octets_of_bits s = []"

definition base32_decode :: "string \<Rightarrow> octets" where
  "base32_decode s = octets_of_bits (concat (map (\<lambda>c. five_bits (base32_val c)) s))"

lemma five_bits_val: "length bs = 5 \<Longrightarrow> bits_val bs < 32 \<and> five_bits (bits_val bs) = bs"
proof -
  assume "length bs = 5"
  then obtain a b c d e where "bs = [a, b, c, d, e]" by (auto simp: length_Suc_conv eval_nat_numeral)
  then show ?thesis
    by (cases a; cases b; cases c; cases d; cases e; simp add: bits_val_def five_bits_def; code_simp)
qed

lemma base32_val_char: "n < 32 \<Longrightarrow> base32_val (base32_char n) = n"
  by (auto simp: eval_nat_numeral less_Suc_eq base32_char_def base32_val_def)

lemma base32_bits_decode:
  "\<exists>k<5. concat (map (\<lambda>c. five_bits (base32_val c)) (base32_bits bs)) = bs @ replicate k False"
proof (induction bs rule: base32_bits.induct)
  case (1 bs)
  show ?case
  proof (cases "bs = []")
    case True
    then show ?thesis by (simp add: base32_bits.simps [of "[]"])
  next
    case False
    define g where "g = take 5 bs @ replicate (5 - length (take 5 bs)) False"
    have "length g = 5" by (simp add: g_def)
    note g = five_bits_val [OF this] base32_val_char [OF conjunct1 [OF five_bits_val [OF this]]]
    obtain k where k: "k < 5" "concat (map (\<lambda>c. five_bits (base32_val c)) (base32_bits (drop 5 bs))) = drop 5 bs @ replicate k False"
      using 1 [OF False] by blast
    have e: "concat (map (\<lambda>c. five_bits (base32_val c)) (base32_bits bs)) = g @ drop 5 bs @ replicate k False"
    proof -
      have "base32_bits bs = base32_char (bits_val g) # base32_bits (drop 5 bs)"
        using False unfolding g_def by (subst base32_bits.simps) simp
      then show ?thesis using g k(2) by simp
    qed
    show ?thesis
    proof (cases "5 \<le> length bs")
      case True
      then have "g @ drop 5 bs = bs" by (simp add: g_def)
      with e k(1) show ?thesis by auto
    next
      case short: False
      then have "drop 5 bs = []" "g = bs @ replicate (5 - length bs) False" by (simp_all add: g_def)
      moreover have "k = 0" using k(2) short by (simp add: base32_bits.simps [of "[]"])
      moreover have "5 - length bs < 5" using False by (cases bs) auto
      ultimately show ?thesis using e by auto
    qed
  qed
qed

lemma octet_bits_val: "of_nat (bits_val (octet_bits w)) = w"
proof -
  have "horner_sum of_bool 2 (map (bit w) [0..<8]) = take_bit 8 w" by (rule horner_sum_bit_eq_take_bit)
  then have "horner_sum of_bool 2 (map (bit w) [0..<8]) = w" by (simp add: take_bit_word_eq_self)
  moreover have "[0..<8] = [0, 1, 2, 3, 4, 5, 6, 7 :: nat]" by (simp add: upt_rec)
  ultimately have "of_bool (bit w 0) + 2 * (of_bool (bit w 1) + 2 * (of_bool (bit w 2) + 2 * (of_bool (bit w 3) +
      2 * (of_bool (bit w 4) + 2 * (of_bool (bit w 5) + 2 * (of_bool (bit w 6) + 2 * of_bool (bit w 7))))))) = w" by simp
  then show ?thesis unfolding bits_val_def octet_bits_def list.map foldl.simps mult_0 add_0 of_nat_add of_nat_mult of_nat_of_bool
    by (simp only: mult.commute [of _ 2] of_nat_numeral add.commute)
qed

lemma octets_of_bits_concat: "k < 8 \<Longrightarrow> octets_of_bits (concat (map octet_bits b) @ replicate k False) = b"
proof (induction b)
  case Nil
  have "octets_of_bits bs = []" if "length bs < 8" for bs
    using that by (cases bs rule: octets_of_bits.cases) simp_all
  with Nil show ?case by simp
next
  case (Cons w b)
  then show ?case using octet_bits_val [of w] by (simp add: octet_bits_def)
qed

text \<open>
  C99: the text shown to the user is the stored secret: an authenticator that reads it holds the bytes the codes are
  computed from, whatever their number.
\<close>

theorem base32_roundtrip: "base32_decode (hex_to_base32 (to_hex b)) = b"
proof -
  obtain k where "k < 5" "concat (map (\<lambda>c. five_bits (base32_val c)) (hex_to_base32 (to_hex b))) =
      concat (map octet_bits b) @ replicate k False"
    using base32_bits_decode [of "concat (map octet_bits b)"] by (auto simp: hex_to_base32_def)
  then show ?thesis using octets_of_bits_concat [of k b] by (simp add: base32_decode_def)
qed

section \<open>A user\<close>

text \<open>With this digest the password of a small step is the step itself.\<close>

definition plain_tfa :: tfa_crypto where
  "plain_tfa = \<lparr>fx_seal = toy_crypto, fx_hmac_sha1 = (\<lambda>k b. [0, 0, 0, b ! 7] @ replicate 16 0), fx_pepper = (\<lambda>k. k),
     fx_code_hash = (\<lambda>p c. c), fx_password_matches = (\<lambda>p h. p = h)\<rparr>"

definition no_key_env :: seal_env where
  "no_key_env = \<lparr>sv_key = None, sv_previous = None\<rparr>"

definition enrolled_user :: tfa_user where
  "enrolled_user = \<lparr>fu_password_hash = [], fu_secret = Some (replicate 40 (CHR ''a'')), fu_enabled = True, fu_backup = [],
     fu_last_step = None\<rparr>"

lemma plain_steps:
  "match_totp_step plain_tfa s ''000002'' 60000 = Inr (Some 2)" "match_totp_step plain_tfa s ''000001'' 60000 = Inr (Some 1)"
proof -
  have h: "fx_hmac_sha1 plain_tfa k b = [0, 0, 0, b ! 7] @ replicate 16 0" for k b by (simp add: plain_tfa_def)
  have t: "truncate_hash ([0, 0, 0, w] @ replicate 16 0) = ucast w" for w
    unfolding truncate_hash_def octet_mask by (simp add: octet_at_def nth_append)
  have "otp_text 1 = ''000001''" "otp_text 2 = ''000002''" by code_simp+
  then have c: "generate_totp plain_tfa s 1 = Some ''000001''" "generate_totp plain_tfa s 2 = Some ''000002''"
    unfolding generate_totp_def h t by (simp_all add: time_octets_def)
  have "int (current_step 60000) = 2" by (simp add: current_step_def totp_period_def)
  then show "match_totp_step plain_tfa s ''000002'' 60000 = Inr (Some 2)" "match_totp_step plain_tfa s ''000001'' 60000 = Inr (Some 1)"
    by (simp_all add: match_totp_step_def Let_def c)
qed

lemma plain_secret: "open_totp_secret plain_tfa v (replicate 40 (CHR ''a'')) = Inr (replicate 40 (CHR ''a''))"
  by (simp add: open_totp_secret_def plaintext_secret_def list_all_iff is_lower_hex_def)

lemma plain_trim: "js_trim ''000001'' = ''000001''" "js_trim ''000002'' = ''000002''"
  by (simp_all add: js_trim_id js_ws_def)

lemma enrolling_again_reopens_codes_witness:
  "\<exists>u'. verify_and_enable plain_tfa no_key_env (Some (enrolled_user\<lparr>fu_last_step := Some 2\<rparr>)) (Some ''000001'') [replicate 8 255] 60000 =
       Inr ([''FFFF-FFFF-FFFF-FFFF''], u') \<and> (\<exists>u''. verify_code plain_tfa no_key_env (Some u') (Some ''000002'') 60000 = Inr (Claim_step 2, u''))"
proof -
  have r: "generate_backup_codes [replicate 8 255] = [''FFFF-FFFF-FFFF-FFFF'']" by code_simp
  have h: "hash_codes plain_tfa no_key_env (generate_backup_codes [replicate 8 255]) = Inr [''FFFF-FFFF-FFFF-FFFF'']"
    unfolding r by (simp add: hash_codes_def backup_code_peppers_def key_ring_def get_key_def no_key_env_def plain_tfa_def)
  from enrolling_again_reopens_codes [where u = "enrolled_user\<lparr>fu_last_step := Some 2\<rparr>" and x = plain_tfa and v = no_key_env
      and now = 60000 and used = "''000002''" and older = "''000001''" and n = 2 and m = 1, OF _ _ _ plain_secret _ _ _ _ h]
  show ?thesis by (simp add: enrolled_user_def plain_trim plain_steps r) blast
qed



lemma totp_is_rfc6238_witness: "\<exists>code. generate_totp plain_tfa [] 2 = Some code \<and> digits_val code = 2"
proof -
  have "length (fx_hmac_sha1 plain_tfa (from_hex []) ([0, 0, 0, 0] @ map (\<lambda>k. of_int (2 div 2 ^ k)) [24, 16, 8, 0])) = 20"
    by (simp add: plain_tfa_def)
  from totp_is_rfc6238 [OF _ _ this] obtain code where c: "generate_totp plain_tfa [] 2 = Some code"
    "digits_val code = rfc_truncation (fx_hmac_sha1 plain_tfa (from_hex []) ([0, 0, 0, 0] @ map (\<lambda>k. of_int (2 div 2 ^ k)) [24, 16, 8, 0])) mod 1000000"
    by auto
  moreover have "rfc_truncation ([0, 0, 0, 2] @ replicate 16 0) = 2" by (simp add: rfc_truncation_def nth_append)
  ultimately show ?thesis by (simp add: plain_tfa_def)
qed

end
