(* ===== verification/Circuit_Breaker.thy ===== *)
theory Circuit_Breaker
  imports Vb_Prelude
begin

text \<open>
  The circuit breaker of calls to outside services: \<open>src/utils/circuitBreaker.js\<close>. A call asks \<open>isOpen\<close> when it begins
  and records its outcome when it ends; any number of calls may be under way. Times are in milliseconds.
\<close>

datatype circuit = Closed | Open | Half_open

record breaker =
  cb_failures :: nat
  cb_last_failure :: int
  cb_state :: circuit

definition new_breaker :: breaker where
  "new_breaker = \<lparr>cb_failures = 0, cb_last_failure = 0, cb_state = Closed\<rparr>"

definition is_open :: "nat \<Rightarrow> int \<Rightarrow> int \<Rightarrow> breaker \<Rightarrow> bool \<times> breaker" where
  "is_open threshold reset_ms now b =
     (if cb_failures b < threshold then (False, b\<lparr>cb_state := Closed\<rparr>)
      else if now - cb_last_failure b > reset_ms then (False, b\<lparr>cb_state := Half_open\<rparr>)
      else (True, b\<lparr>cb_state := Open\<rparr>))"

definition record_success :: "breaker \<Rightarrow> breaker" where
  "record_success b = b\<lparr>cb_failures := 0, cb_state := Closed\<rparr>"

definition record_failure :: "nat \<Rightarrow> int \<Rightarrow> breaker \<Rightarrow> breaker" where
  "record_failure threshold now b =
     (let b' = b\<lparr>cb_failures := cb_failures b + 1, cb_last_failure := now\<rparr> in
      if threshold \<le> cb_failures b' then b'\<lparr>cb_state := Open\<rparr> else b')"

definition reset_breaker :: "breaker \<Rightarrow> breaker" where
  "reset_breaker b = \<lparr>cb_failures = 0, cb_last_failure = 0, cb_state = Closed\<rparr>"

definition get_state :: "nat \<Rightarrow> int \<Rightarrow> int \<Rightarrow> breaker \<Rightarrow> breaker" where
  "get_state threshold reset_ms now b = snd (is_open threshold reset_ms now b)"

text \<open>A call that runs to its end before anything else happens; \<open>outcome\<close> is what the service does.\<close>

datatype 'a call_result = Refused | Failed | Returned 'a

definition call :: "nat \<Rightarrow> int \<Rightarrow> int \<Rightarrow> int \<Rightarrow> 'a option \<Rightarrow> breaker \<Rightarrow> 'a call_result \<times> breaker" where
  "call threshold reset_ms now later outcome b =
     (case is_open threshold reset_ms now b of
        (True, b) \<Rightarrow> (Refused, b)
      | (False, b) \<Rightarrow>
          (case outcome of
             Some v \<Rightarrow> (Returned v, record_success b)
           | None \<Rightarrow> (Failed, record_failure threshold later b)))"

datatype breaker_event = Begin int | Succeed | Fail int | Reset

definition breaker_step :: "nat \<Rightarrow> int \<Rightarrow> breaker \<Rightarrow> breaker_event \<Rightarrow> breaker" where
  "breaker_step threshold reset_ms b e =
     (case e of
        Begin now \<Rightarrow> snd (is_open threshold reset_ms now b)
      | Succeed \<Rightarrow> record_success b
      | Fail now \<Rightarrow> record_failure threshold now b
      | Reset \<Rightarrow> reset_breaker b)"

section \<open>When a call is let through\<close>

text \<open>The times of the failures since the last success or reset, the last one first.\<close>

fun recent_failures :: "breaker_event list \<Rightarrow> int list" where
  "recent_failures [] = []"
| "recent_failures (Begin now # es) = recent_failures es"
| "recent_failures (Fail now # es) = now # recent_failures es"
| "recent_failures (Succeed # es) = []"
| "recent_failures (Reset # es) = []"

lemma breaker_step_fields:
  "cb_failures (breaker_step th r b (Begin now)) = cb_failures b"
  "cb_last_failure (breaker_step th r b (Begin now)) = cb_last_failure b"
  "cb_failures (breaker_step th r b (Fail now)) = Suc (cb_failures b)"
  "cb_last_failure (breaker_step th r b (Fail now)) = now"
  "cb_failures (breaker_step th r b Succeed) = 0" "cb_failures (breaker_step th r b Reset) = 0"
  by (simp_all add: breaker_step_def is_open_def record_success_def record_failure_def reset_breaker_def Let_def)

lemma run_failures:
  "cb_failures (foldl (breaker_step threshold reset_ms) new_breaker es) = length (recent_failures (rev es)) \<and>
     (recent_failures (rev es) \<noteq> [] \<longrightarrow>
        cb_last_failure (foldl (breaker_step threshold reset_ms) new_breaker es) = hd (recent_failures (rev es)))"
proof (induction es rule: rev_induct)
  case (snoc e es)
  then show ?case by (cases e) (simp_all add: breaker_step_fields)
qed (simp add: new_breaker_def)

text \<open>
  C99: a call is refused exactly when at least the threshold of failures has come since the last success or reset and
  the last of them is not longer ago than the cooldown. The calls that have begun since do not matter: after the
  cooldown every call is let through until one of them fails.
\<close>

theorem refused_exactly_when_open:
  assumes "0 < threshold"
  shows "fst (is_open threshold reset_ms now (foldl (breaker_step threshold reset_ms) new_breaker es)) \<longleftrightarrow>
    threshold \<le> length (recent_failures (rev es)) \<and> now - hd (recent_failures (rev es)) \<le> reset_ms"
proof -
  have "recent_failures (rev es) \<noteq> []" if "threshold \<le> length (recent_failures (rev es))" using that assms by auto
  then show ?thesis using run_failures [of threshold reset_ms es] by (auto simp: is_open_def)
qed

lemma refused_exactly_when_open_witness:
  "fst (is_open 2 60000 30000 (foldl (breaker_step 2 60000) new_breaker [Fail 1000, Begin 1500, Fail 2000])) \<and>
   \<not> fst (is_open 2 60000 70000 (foldl (breaker_step 2 60000) new_breaker [Fail 1000, Fail 2000, Begin 69000, Begin 69500]))"
  using refused_exactly_when_open [of 2 60000 30000 "[Fail 1000, Begin 1500, Fail 2000]"]
    refused_exactly_when_open [of 2 60000 70000 "[Fail 1000, Fail 2000, Begin 69000, Begin 69500]"] by simp

end
