(* ===== verification/Job_Queue.thy ===== *)
theory Job_Queue
  imports Vb_Prelude
begin

text \<open>
  The queue of background jobs of an installation without Redis: \<open>InProcessQueue\<close> of
  \<open>src/services/jobQueueService.js\<close>.

  Everything runs on one thread: an event is a call of a method, the callback of \<open>setImmediate\<close> or the end of a
  handler. What a handler does is left out; its end, by return or by error, is \<open>finish_job\<close>. The identifier a job gets
  when it asks for none is an argument. \<open>jq_accepted\<close> and \<open>jq_started\<close> record the jobs taken in and the ones begun.
\<close>

record queue_job =
  qj_id :: string
  qj_name :: string

text \<open>\<open>maxConcurrency\<close> is the parsed setting as it is; \<open>None\<close> is NaN.\<close>

record queue_limits =
  ql_concurrency :: "int option"
  ql_max_pending :: nat
  ql_trap_capacity :: nat

record job_queue =
  jq_handlers :: "string list"
  jq_running :: nat
  jq_pending :: "queue_job list"
  jq_active :: "string \<Rightarrow> nat"
  jq_known :: "string list"
  jq_drain_scheduled :: bool
  jq_accepted :: "queue_job list"
  jq_started :: "queue_job list"
  jq_in_flight :: "queue_job list"

datatype add_status = No_handler | Queued | Deduplicated | Durable_pending | Capacity_error

definition clamp :: "int \<Rightarrow> int \<Rightarrow> int \<Rightarrow> int" where
  "clamp lo hi n = max lo (min hi n)"

text \<open>\<open>parseInt(v || d, 10)\<close> of a setting, and \<open>Math.max(lo, Math.min(hi, parseInt(v || d, 10) || d))\<close>.\<close>

definition setting_int :: "string option \<Rightarrow> int \<Rightarrow> int option" where
  "setting_int v d = (case v of None \<Rightarrow> Some d | Some s \<Rightarrow> if s = [] then Some d else parse_int10 s)"

definition bounded_setting :: "string option \<Rightarrow> int \<Rightarrow> int \<Rightarrow> int \<Rightarrow> nat" where
  "bounded_setting v d lo hi =
     nat (clamp lo hi (case setting_int v d of None \<Rightarrow> d | Some n \<Rightarrow> if n = 0 then d else n))"

definition limits_of :: "string option \<Rightarrow> string option \<Rightarrow> string option \<Rightarrow> queue_limits" where
  "limits_of concurrency pending trap =
     \<lparr>ql_concurrency = setting_int concurrency 5, ql_max_pending = bounded_setting pending 1000 10 10000,
      ql_trap_capacity = bounded_setting trap 100 10 1000\<rparr>"

definition new_queue :: job_queue where
  "new_queue = \<lparr>jq_handlers = [], jq_running = 0, jq_pending = [], jq_active = (\<lambda>_. 0), jq_known = [],
     jq_drain_scheduled = False, jq_accepted = [], jq_started = [], jq_in_flight = []\<rparr>"

definition trap_delivery :: string where
  "trap_delivery = ''trap-forwarding-delivery''"

definition pending_for :: "string \<Rightarrow> job_queue \<Rightarrow> nat" where
  "pending_for name q = jq_active q name + length (filter (\<lambda>j. qj_name j = name) (jq_pending q))"

definition capacity_of :: "queue_limits \<Rightarrow> string \<Rightarrow> nat" where
  "capacity_of l name = (if name = trap_delivery then ql_trap_capacity l else ql_max_pending l)"

definition schedule_drain :: "job_queue \<Rightarrow> job_queue" where
  "schedule_drain q = q\<lparr>jq_drain_scheduled := True\<rparr>"

definition add_job :: "queue_limits \<Rightarrow> string \<Rightarrow> string option \<Rightarrow> string \<Rightarrow> job_queue \<Rightarrow> add_status \<times> job_queue" where
  "add_job l name requested drawn q =
     (if name \<notin> set (jq_handlers q) then (No_handler, q)
      else (let asked = (case requested of None \<Rightarrow> None | Some s \<Rightarrow> if s = [] then None else Some s) in
        if (case asked of None \<Rightarrow> False | Some s \<Rightarrow> s \<in> set (jq_known q)) then (Deduplicated, q)
        else if ql_max_pending l \<le> length (jq_pending q) \<or> capacity_of l name \<le> pending_for name q
        then (if name = trap_delivery \<or> name = ''webhook-delivery'' then Durable_pending else Capacity_error, q)
        else (let job = \<lparr>qj_id = (case asked of None \<Rightarrow> drawn | Some s \<Rightarrow> s), qj_name = name\<rparr> in
          (Queued, schedule_drain (q\<lparr>jq_known := List.insert (qj_id job) (jq_known q), jq_pending := jq_pending q @ [job],
             jq_accepted := jq_accepted q @ [job]\<rparr>)))))"

definition start_job :: "queue_job \<Rightarrow> job_queue \<Rightarrow> job_queue" where
  "start_job j q = q\<lparr>jq_running := jq_running q + 1, jq_active := (jq_active q)(qj_name j := jq_active q (qj_name j) + 1),
     jq_started := jq_started q @ [j], jq_in_flight := jq_in_flight q @ [j]\<rparr>"

definition may_start :: "queue_limits \<Rightarrow> job_queue \<Rightarrow> bool" where
  "may_start l q \<longleftrightarrow> (case ql_concurrency l of None \<Rightarrow> False | Some n \<Rightarrow> int (jq_running q) < n)"

function drain :: "queue_limits \<Rightarrow> job_queue \<Rightarrow> job_queue" where
  "drain l q =
     (case jq_pending q of
        [] \<Rightarrow> q
      | j # js \<Rightarrow> if may_start l q then drain l (start_job j (q\<lparr>jq_pending := js\<rparr>)) else q)"
  by pat_completeness auto

termination
  by (relation "measure (\<lambda>(l, q). length (jq_pending q))") (auto simp: start_job_def)

declare drain.simps [simp del]

text \<open>The callback of \<open>setImmediate\<close>.\<close>

definition run_drain :: "queue_limits \<Rightarrow> job_queue \<Rightarrow> job_queue" where
  "run_drain l q = (if jq_drain_scheduled q then drain l (q\<lparr>jq_drain_scheduled := False\<rparr>) else q)"

definition finish_job :: "nat \<Rightarrow> job_queue \<Rightarrow> job_queue" where
  "finish_job i q =
     (if i < length (jq_in_flight q)
      then (let j = jq_in_flight q ! i; a = (if jq_active q (qj_name j) = 0 then 1 else jq_active q (qj_name j)) in
        schedule_drain (q\<lparr>jq_known := removeAll (qj_id j) (jq_known q), jq_running := jq_running q - 1,
          jq_active := (jq_active q)(qj_name j := a - 1),
          jq_in_flight := take i (jq_in_flight q) @ drop (Suc i) (jq_in_flight q)\<rparr>))
      else q)"

definition process_name :: "string \<Rightarrow> job_queue \<Rightarrow> job_queue" where
  "process_name name q = q\<lparr>jq_handlers := List.insert name (jq_handlers q)\<rparr>"

definition close_queue :: "job_queue \<Rightarrow> job_queue" where
  "close_queue q = q\<lparr>jq_handlers := [], jq_pending := [], jq_known := []\<rparr>"

datatype queue_event = Add_job string "string option" string | Run_drain | Finish_job nat | Process_name string

definition queue_step :: "queue_limits \<Rightarrow> job_queue \<Rightarrow> queue_event \<Rightarrow> job_queue" where
  "queue_step l q e =
     (case e of
        Add_job name requested drawn \<Rightarrow> snd (add_job l name requested drawn q)
      | Run_drain \<Rightarrow> run_drain l q
      | Finish_job i \<Rightarrow> finish_job i q
      | Process_name name \<Rightarrow> process_name name q)"

section \<open>No job is lost, doubled or stranded\<close>

definition queue_core :: "queue_limits \<Rightarrow> job_queue \<Rightarrow> bool" where
  "queue_core l q \<longleftrightarrow>
     jq_accepted q = jq_started q @ jq_pending q \<and>
     jq_running q = length (jq_in_flight q) \<and>
     (\<forall>n. jq_active q n = length (filter (\<lambda>j. qj_name j = n) (jq_in_flight q))) \<and>
     length (jq_pending q) \<le> ql_max_pending l \<and>
     (\<forall>n. pending_for n q \<le> capacity_of l n) \<and>
     (jq_running q = 0 \<or> (\<exists>n. ql_concurrency l = Some n \<and> int (jq_running q) \<le> n))"

text \<open>Work that could begin is never without a wake-up.\<close>

definition queue_ok :: "queue_limits \<Rightarrow> job_queue \<Rightarrow> bool" where
  "queue_ok l q \<longleftrightarrow> queue_core l q \<and> (jq_pending q \<noteq> [] \<and> may_start l q \<longrightarrow> jq_drain_scheduled q)"

lemma core_flag [simp]: "queue_core l (q\<lparr>jq_drain_scheduled := b\<rparr>) = queue_core l q"
  unfolding queue_core_def pending_for_def by simp

lemma core_handlers [simp]: "queue_core l (q\<lparr>jq_handlers := hs\<rparr>) = queue_core l q"
  unfolding queue_core_def pending_for_def by simp

lemma may_start_handlers [simp]: "may_start l (q\<lparr>jq_handlers := hs\<rparr>) = may_start l q"
  by (simp add: may_start_def split: option.split)

lemma start_core:
  assumes "queue_core l q" and "jq_pending q = j # js" and "may_start l q"
  shows "queue_core l (start_job j (q\<lparr>jq_pending := js\<rparr>))"
proof -
  obtain n where n: "ql_concurrency l = Some n" "int (jq_running q) < n"
    using assms(3) by (auto simp: may_start_def split: option.splits)
  moreover have "pending_for n (start_job j (q\<lparr>jq_pending := js\<rparr>)) = pending_for n q" for n
    by (simp add: pending_for_def start_job_def assms(2))
  ultimately show ?thesis
    using assms(1,2) unfolding queue_core_def by (auto simp: start_job_def)
qed

lemma drain_core: "queue_core l q \<Longrightarrow> queue_core l (drain l q) \<and> (jq_pending (drain l q) = [] \<or> \<not> may_start l (drain l q))"
proof (induction l q rule: drain.induct)
  case (1 l q)
  show ?case
  proof (cases "jq_pending q")
    case Nil
    with 1(2) show ?thesis by (simp add: drain.simps [of l q])
  next
    case (Cons j js)
    show ?thesis
    proof (cases "may_start l q")
      case True
      with 1(1) [OF Cons True start_core [OF 1(2) Cons True]] Cons show ?thesis by (simp add: drain.simps [of l q])
    next
      case False
      with 1(2) Cons show ?thesis by (simp add: drain.simps [of l q])
    qed
  qed
qed

lemma add_ok: "queue_ok l q \<Longrightarrow> queue_ok l (snd (add_job l name requested drawn q))"
  by (auto simp: queue_ok_def queue_core_def add_job_def Let_def schedule_drain_def pending_for_def split: if_splits)

lemma finish_ok: "queue_ok l q \<Longrightarrow> queue_ok l (finish_job i q)"
proof (cases "i < length (jq_in_flight q)")
  case True
  assume ok: "queue_ok l q"
  let ?j = "jq_in_flight q ! i" and ?rest = "take i (jq_in_flight q) @ drop (Suc i) (jq_in_flight q)"
  have split: "jq_in_flight q = take i (jq_in_flight q) @ ?j # drop (Suc i) (jq_in_flight q)" by (rule id_take_nth_drop [OF True])
  have len: "length (jq_in_flight q) = Suc (length ?rest)" by (subst split) simp
  have cnt: "length (filter (\<lambda>j. qj_name j = n) (jq_in_flight q)) =
      (if qj_name ?j = n then Suc (length (filter (\<lambda>j. qj_name j = n) ?rest)) else length (filter (\<lambda>j. qj_name j = n) ?rest))" for n
    by (subst split) simp
  have act: "jq_active q n = (if qj_name ?j = n then Suc (length (filter (\<lambda>j. qj_name j = n) ?rest)) else length (filter (\<lambda>j. qj_name j = n) ?rest))" for n
    using ok cnt unfolding queue_ok_def queue_core_def by metis
  have upd: "(jq_active q)(qj_name ?j := (if jq_active q (qj_name ?j) = 0 then 1 else jq_active q (qj_name ?j)) - 1) =
      (\<lambda>n. length (filter (\<lambda>j. qj_name j = n) ?rest))"
    by (rule ext) (simp add: act del: filter_append length_append)
  have fin: "finish_job i q = schedule_drain (q\<lparr>jq_known := removeAll (qj_id ?j) (jq_known q), jq_running := jq_running q - 1,
      jq_active := (\<lambda>n. length (filter (\<lambda>j. qj_name j = n) ?rest)), jq_in_flight := ?rest\<rparr>)"
    using True unfolding finish_job_def Let_def upd by simp
  have "pending_for n (finish_job i q) \<le> pending_for n q" for n
    unfolding fin by (simp add: pending_for_def schedule_drain_def act del: filter_append)
  then have "\<forall>n. pending_for n (finish_job i q) \<le> capacity_of l n" using ok unfolding queue_ok_def queue_core_def by (meson le_trans)
  note cap = this
  have c: "jq_accepted q = jq_started q @ jq_pending q" "length (jq_pending q) \<le> ql_max_pending l"
      "jq_running q = length (jq_in_flight q)" "jq_running q = 0 \<or> (\<exists>n. ql_concurrency l = Some n \<and> int (jq_running q) \<le> n)"
    using ok unfolding queue_ok_def queue_core_def by blast+
  have running: "jq_running q = Suc (length ?rest)" using c(3) len by (rule trans)
  then obtain m where m: "ql_concurrency l = Some m" "int (jq_running q) \<le> m" using c(4) by (metis nat.distinct(1))
  have new: "jq_running (finish_job i q) = jq_running q - 1" "jq_in_flight (finish_job i q) = ?rest"
    "jq_accepted (finish_job i q) = jq_accepted q" "jq_started (finish_job i q) = jq_started q"
    "jq_pending (finish_job i q) = jq_pending q" "jq_drain_scheduled (finish_job i q)"
    "jq_active (finish_job i q) n = length (filter (\<lambda>j. qj_name j = n) ?rest)" for n
    unfolding fin schedule_drain_def by simp_all
  have run: "jq_running q - 1 = length ?rest" unfolding running by (rule diff_Suc_1)
  have "int (length ?rest) \<le> m" using m(2) unfolding running by (rule order_trans [rotated]) (rule of_nat_mono, rule le_SucI, rule le_refl)
  then have "length ?rest = 0 \<or> (\<exists>n. ql_concurrency l = Some n \<and> int (length ?rest) \<le> n)" using m(1) by blast
  then show ?thesis
    unfolding queue_ok_def queue_core_def new run using c(1,2) cap new(6) by blast
qed (simp add: finish_job_def)

lemma process_ok: "queue_ok l q \<Longrightarrow> queue_ok l (process_name name q)"
  by (simp add: process_name_def queue_ok_def)

lemma queue_step_ok: "queue_ok l q \<Longrightarrow> queue_ok l (queue_step l q e)"
proof (cases e)
  case Run_drain
  assume ok: "queue_ok l q"
  then have "queue_core l (q\<lparr>jq_drain_scheduled := False\<rparr>)" by (simp add: queue_ok_def)
  from drain_core [OF this] ok show ?thesis by (auto simp: queue_step_def Run_drain run_drain_def queue_ok_def)
qed (simp_all add: queue_step_def add_ok finish_ok process_ok)

interpretation job_queue: step_system "queue_step l" "queue_ok l" for l
  by unfold_locales (rule queue_step_ok)

lemma new_queue_ok: "queue_ok l new_queue"
  by (simp add: queue_ok_def queue_core_def new_queue_def pending_for_def)

text \<open>
  C99: until it is closed, the queue begins every job it took in once and in the order they came; the rest wait, within
  the capacity of the queue and of each name, and no more run at once than the setting allows. A job that waits is
  never stranded: a drain is scheduled, or every place is taken by a job whose end schedules one.
\<close>

theorem queue_order_and_wakeup:
  assumes "q = foldl (queue_step l) new_queue es"
  shows "jq_accepted q = jq_started q @ jq_pending q \<and> length (jq_pending q) \<le> ql_max_pending l \<and>
    (\<forall>n. pending_for n q \<le> capacity_of l n) \<and>
    (\<forall>n. ql_concurrency l = Some n \<and> 1 \<le> n \<longrightarrow>
       int (length (jq_in_flight q)) \<le> n \<and>
       (jq_pending q \<noteq> [] \<longrightarrow> jq_drain_scheduled q \<or> int (length (jq_in_flight q)) = n))"
proof -
  have "queue_ok l q" unfolding assms by (rule job_queue.run_keeps) (rule new_queue_ok)
  then show ?thesis unfolding queue_ok_def queue_core_def by (auto simp: may_start_def)
qed

text \<open>
  With a setting that is not a number nothing is ever begun: whatever is added, drained or finished, every job that
  was taken in waits.
\<close>

theorem bad_concurrency_starts_nothing:
  assumes "parse_int10 setting = None" and "setting \<noteq> []"
    and "q = foldl (queue_step (limits_of (Some setting) pending trap)) new_queue es"
  shows "jq_started q = [] \<and> jq_pending q = jq_accepted q"
proof -
  let ?l = "limits_of (Some setting) pending trap"
  have l: "ql_concurrency ?l = None" using assms(1,2) by (simp add: limits_of_def setting_int_def)
  have "queue_ok ?l q" unfolding assms(3) by (rule job_queue.run_keeps) (rule new_queue_ok)
  moreover have "jq_started (foldl (queue_step ?l) new_queue es) = []" for es
  proof (induction es rule: rev_induct)
    case (snoc e es)
    have "drain ?l r = r" for r by (cases "jq_pending r") (simp_all add: drain.simps [of _ r] may_start_def l)
    then have "jq_started (queue_step ?l r e) = jq_started r" for r
      by (cases e) (auto simp: queue_step_def run_drain_def add_job_def Let_def schedule_drain_def finish_job_def process_name_def)
    with snoc show ?case by simp
  qed (simp add: new_queue_def)
  ultimately show ?thesis using assms(3) by (simp add: queue_ok_def queue_core_def)
qed

lemma queue_order_and_wakeup_witness:
  "\<exists>q. q = foldl (queue_step (limits_of None None None)) new_queue
      [Process_name ''csv-import'', Add_job ''csv-import'' None ''a'', Add_job ''csv-import'' None ''b'', Run_drain] \<and>
    map qj_id (jq_started q @ jq_pending q) = [''a'', ''b'']"
proof -
  let ?es = "[Process_name ''csv-import'', Add_job ''csv-import'' None ''a'', Add_job ''csv-import'' None ''b'', Run_drain]"
  have "map qj_id (jq_accepted (foldl (queue_step (limits_of None None None)) new_queue ?es)) = [''a'', ''b'']"
    by code_simp
  with queue_order_and_wakeup [OF refl, of "limits_of None None None" ?es] show ?thesis by simp
qed

lemma bad_concurrency_starts_nothing_witness:
  "map qj_id (jq_pending (foldl (queue_step (limits_of (Some ''five'') None None)) new_queue
     [Process_name ''csv-import'', Add_job ''csv-import'' None ''a'', Run_drain])) = [''a'']"
proof -
  let ?es = "[Process_name ''csv-import'', Add_job ''csv-import'' None ''a'', Run_drain]"
  have "parse_int10 ''five'' = None" by code_simp
  moreover have "map qj_id (jq_accepted (foldl (queue_step (limits_of (Some ''five'') None None)) new_queue ?es)) = [''a'']"
    by code_simp
  ultimately show ?thesis using bad_concurrency_starts_nothing [OF _ _ refl, of "''five''" None None ?es] by simp
qed

end
