(* ===== verification/Spec2Isabelle.thy ===== *)
theory Spec2Isabelle
  imports Vb_Prelude Money Settlement Outbox Cwmp Ip_Pools Ip_Guard Ip_Canonical Radius_Safety Radius_Ingress Usage_Safety Ros_Client Access_Control Invoice_Safety Two_Factor_Safety Circuit_Breaker Job_Queue
begin

text \<open>
  VigaBSS is the operations and billing back end of an internet provider: a Node.js service over MySQL that bills
  contracts, takes payments, sends messages, assigns addresses, authenticates subscribers by RADIUS, and drives the
  routers and the equipment at the customer. This development models the parts of \<open>src/src\<close> where a mistake costs
  money, lets the wrong party in, or leaves a device in the wrong state. It states what each part promises and proves it
  of definitions that follow the code function by function. Every definition computes, so the witnesses evaluate it.

  \<^bold>\<open>How the parts interact.\<close> A plan change, a billing run or a member of staff makes invoices (\<open>Invoicing\<close>) with the tax
  the resolver finds (\<open>Tax_Rules\<close>) and the overage of the usage that RADIUS accounting stored
  (\<open>Radius_Accounting\<close>). Payments and credit notes are spread over invoices (\<open>Allocation\<close>, \<open>Settlement\<close>), in
  integer cents (\<open>Money\<close>) or, where the code does so, in floats (\<open>Float64\<close>). Messages to clients wait in the
  outbox (\<open>Outbox\<close>). The RADIUS server accepts a line by its account, contract and plan (\<open>Radius_Server\<close>) on
  datagrams that \<open>Radius_Codec\<close> reads and writes, behind the bounds of \<open>Radius_Ingress\<close>. Pools hand out addresses
  (\<open>Ip_Pools\<close>). The RouterOS client (\<open>Routeros\<close>) and the TR-069 messages (\<open>Cwmp\<close>) reach the equipment. Requests
  are authenticated and authorised (\<open>Access_Control\<close>), admin routes and outbound URLs guarded by address
  (\<open>Ip_Guard\<close>).

  \<^bold>\<open>The theories.\<close>
  \<^item> \<open>Vb_Prelude\<close>: the string operations of JavaScript, results, tables, and the interfaces: \<open>step_system\<close> (an
    invariant of a stateful component holds after every run), \<open>framing\<close> (what was framed is read back, and reading goes
    on behind it), \<open>char_escaper\<close> (an encoder that works one character at a time). Interpreted by \<open>Allocation\<close>,
    \<open>Radius_Ingress\<close>, \<open>Radius_Safety\<close>, \<open>Invoice_Safety\<close>, \<open>Radius_Codec\<close> and \<open>Cwmp\<close>.
  \<^item> \<open>Float64\<close>: Numbers as rationals rounded to 53 bits, with the rounding errors of the computations on cents.
    \<open>Money\<close>: \<open>utils/money.js\<close>. \<open>Utc_Time\<close>: days and months.
  \<^item> \<open>Billing_Db\<close>: the billing tables with their triggers and unique keys; \<open>cap_guard\<close> is the contract of a pair of
    triggers that keep a sum under a cap. \<open>Allocation\<close>: \<open>services/paymentAllocationService.js\<close>. \<open>Settlement\<close>: voiding,
    SAT cancellation and credit-note applications (\<open>services/billingService.js\<close>,
    \<open>services/creditNoteApplicationService.js\<close>). The lemmas: no payment and no invoice is over-allocated by any
    sequence of operations; what a distribution, a void or a cancellation leaves; every refusal.
  \<^item> \<open>Tax_Rules\<close>, \<open>Invoicing\<close>, \<open>Invoice_Safety\<close>: \<open>services/billingService.js\<close> from the postal code to the ledger. The
    lemmas: which tax a document gets; an invoice is the sum of its lines and the tax, and is debited once; no day is
    billed twice; numbers are unique; running again changes nothing.
  \<^item> \<open>Outbox\<close>: \<open>services/messageOutbox.js\<close> as a step relation over workers that crash at any point. The lemmas: at most
    one delivery of a text message, settlement within the attempts, the budget of a pass.
  \<^item> \<open>Ip_Text\<close>, \<open>Ip_Guard\<close>, \<open>Ip_Canonical\<close>, \<open>Ip_Pools\<close>: address texts, the two guards
    (\<open>middleware/ipAllowlist.js\<close>, \<open>middleware/adminIpAllowlist.js\<close>, \<open>utils/safeOutboundUrl.js\<close>), the canonical forms of
    \<open>utils/ipAddress.js\<close>, and pool assignment, utilisation and subnet planning
    (\<open>services/poolAssignmentService.js\<close>, \<open>poolUtilizationService.js\<close>, \<open>subnetPlannerService.js\<close>).
  \<^item> \<open>Radius_Codec\<close>, \<open>Radius_Server\<close>, \<open>Radius_Safety\<close>, \<open>Radius_Ingress\<close>: \<open>services/radiusServerCodec.js\<close>,
    \<open>radiusCoaEncoder.js\<close>, \<open>radiusServerService.js\<close>, \<open>radiusAttributeService.js\<close>, \<open>tenantNasResolverService.js\<close>,
    \<open>speedWindowService.js\<close>. The lemmas: who is accepted, what a reply carries and who can have signed it, that each
    datagram is counted once, and the bounds under a flood. \<open>Radius_Accounting\<close>, \<open>Usage_Safety\<close>:
    \<open>services/radiusAccountingService.js\<close>; usage adds up to the counters of the router and nothing is counted twice.
  \<^item> \<open>Routeros\<close>, \<open>Ros_Client\<close>: the sentences and the command queue of \<open>services/routerosService.js\<close>. \<open>Cwmp\<close>:
    \<open>services/cwmpXml.js\<close> and the task messages of \<open>services/cwmpSessionService.js\<close>.
  \<^item> \<open>Access_Control\<close>: \<open>middleware/auth.js\<close>, \<open>middleware/rbac.js\<close>, \<open>utils/scopes.js\<close>, \<open>utils/accessTokens.js\<close>,
    \<open>services/orgPrincipalService.js\<close> and the queries of \<open>models/User.js\<close> they rest on.

  \<^bold>\<open>State and operations.\<close> A table is the list of its rows in the order of its primary key, a row a record named after the
  table with one field per column the code uses. An SQL statement is the list function it means, and a statement that a
  trigger, a unique key or a column refuses is an error value. A function that throws returns the left side of a sum. A
  transaction returns the new state only when it commits. Clocks, random values, hash functions, the resolver, the URL
  parser and the JWT library are arguments. What their documentation promises of them stands as a named hypothesis of
  the theorem that needs it.

  \<^bold>\<open>Ranges and fuel.\<close> Strings are lists of code units below 256, which is also how bytes are modelled. Money columns hold
  less than 10 to the 10 cents, and the float lemmas cover 10 to the 12. A Number is never so large or small that it leaves
  the normal range. Words have the width the code gives them (32 bits for shifts, 64-bit counters as integers). Loops are
  structural or have a measure; the one that may run for ever is a partial function where \<open>None\<close> means that it does not
  return, the sentence reader of \<open>Routeros\<close>: on which input that happens is shown in \<open>Ros_Client\<close>. Nothing uses
  fuel. The limits of \<open>Cwmp\<close> are those of the source (20 000 elements, depth 64).

  \<^bold>\<open>Not modelled.\<close> The user interface under \<open>src/frontend\<close>, routes and controllers that pass a request to a service,
  the GraphQL schema, and the texts of e-mails and documents hold no logic of the kind treated here. Sealing and
  stamping of fiscal documents, payment gateways, SMTP, SMS and WhatsApp, SNMP, object stores and language models are
  calls to other systems. Carrier-grade NAT attribution, regulatory reports, CSV import, suspension, workflow automation
  and two-factor login are programs of their own that this development has not reached. The components of the manifest
  say for each modelled file what is left out.
\<close>

end
